(* ===== verification/Sched_Prelude.thy ===== *)
theory Sched_Prelude
  imports Main "HOL-Library.Multiset"
begin

text \<open>
  Shared ground of the development: C \<open>int\<close> arithmetic with its limits written out, the
  result type of every modelled function, bounds-checked array access, the \<open>struct process\<close>
  of \<^verbatim>\<open>PSJF.h\<close>, and the \<open>while(1)\<close> loop combinator with the reachability and
  termination rules every scheduler uses.
\<close>

named_theorems res_simps \<open>evaluation of the result type\<close>

section \<open>C integers and results\<close>

text \<open>
  C \<open>int\<close> is 32 bits wide. Signed arithmetic outside its range is undefined in C, so the
  model stops there with \<open>Undefined Signed_Overflow\<close> instead of choosing a value.
\<close>

definition INT_MAX :: int where "INT_MAX = 2147483647"
definition INT_MIN :: int where "INT_MIN = - 2147483648"

datatype policy = SCHED_IDLE | SCHED_OTHER | SCHED_FIFO

text \<open>
  What a run makes visible: system calls with their arguments and the value they returned,
  output, the busy-wait of one time unit (with its loop bound) and a read outside the process
  array. Traces are kept newest event first.
\<close>

datatype arg = S string | D int
  | Quot int int \<comment> \<open>the \<open>float\<close> quotient of two \<open>int\<close>s, kept as its operands\<close>

datatype event =
    Fork int
  | Setscheduler int policy int int \<comment> \<open>pid, policy, priority, returned value\<close>
  | Setaffinity int "int list" int  \<comment> \<open>pid, CPUs in the mask, returned value\<close>
  | Waitpid int
  | Printf string "arg list"
  | Fprintf_stderr string
  | Perror string
  | Spin int                        \<comment> \<open>a busy-wait loop and its bound\<close>
  | Oob_Read int                    \<comment> \<open>\<open>proc[i]\<close> read with \<open>i\<close> outside the array\<close>

type_synonym trace = "event list"

datatype ub = Signed_Overflow | Bad_Index | Missing_Return | Division_By_Zero | Buffer_Overflow
  | Null_Pointer | Uninitialised

datatype error = Exited int trace | Undefined ub

type_synonym 'a res = "error + 'a"

definition bindr :: "'e + 'a \<Rightarrow> ('a \<Rightarrow> 'e + 'b) \<Rightarrow> 'e + 'b" where
  "bindr m f = (case m of Inl e \<Rightarrow> Inl e | Inr x \<Rightarrow> f x)"

lemma bindr_Inl [simp, res_simps]: "bindr (Inl e) f = Inl e"
  by (simp add: bindr_def)

lemma bindr_Inr [simp, res_simps]: "bindr (Inr x) f = f x"
  by (simp add: bindr_def)

lemma bindr_eq_Inr: "bindr m f = Inr y \<longleftrightarrow> (\<exists>x. m = Inr x \<and> f x = Inr y)"
  by (cases m) auto

lemma bindr_eq_Inl: "bindr m f = Inl e \<longleftrightarrow> m = Inl e \<or> (\<exists>x. m = Inr x \<and> f x = Inl e)"
  by (cases m) auto

lemma res_ok: "\<not> isl r \<Longrightarrow> r = Inr (projr r)"
  by simp

lemma res_go: "\<not> isl r \<Longrightarrow> \<not> fst (projr r) \<Longrightarrow> r = Inr (False, snd (projr r))"
  by (metis prod.collapse sum.collapse(2))

lemma bindr_cong [fundef_cong]:
  "m = m' \<Longrightarrow> (\<And>x. m' = Inr x \<Longrightarrow> f x = f' x) \<Longrightarrow> bindr m f = bindr m' f'"
  by (cases m') auto

definition c_int :: "int \<Rightarrow> int res" where
  "c_int x = (if INT_MIN \<le> x \<and> x \<le> INT_MAX then Inr x else Inl (Undefined Signed_Overflow))"

lemma c_int_ok [simp]: "INT_MIN \<le> x \<Longrightarrow> x \<le> INT_MAX \<Longrightarrow> c_int x = Inr x"
  by (simp add: c_int_def)

lemma c_int_Inr: "c_int x = Inr y \<longleftrightarrow> x = y \<and> INT_MIN \<le> x \<and> x \<le> INT_MAX"
  by (auto simp: c_int_def)

lemma c_int_nonneg: "0 \<le> x \<Longrightarrow> x \<le> INT_MAX \<Longrightarrow> c_int x = Inr x"
  by (simp add: c_int_def INT_MIN_def)

text \<open>C's \<open>%\<close> has the sign of the dividend, and dividing by zero is undefined.\<close>

definition c_rem :: "int \<Rightarrow> int \<Rightarrow> int res" where
  "c_rem a b = (if b = 0 then Inl (Undefined Division_By_Zero) else Inr (sgn a * (abs a mod abs b)))"

lemma c_rem_pos: "0 \<le> a \<Longrightarrow> 0 < b \<Longrightarrow> c_rem a b = Inr (a mod b)"
  by (auto simp: c_rem_def sgn_if)

section \<open>Arrays\<close>

definition arr_get :: "'a list \<Rightarrow> int \<Rightarrow> 'a res" where
  "arr_get xs i =
     (if 0 \<le> i \<and> i < int (length xs) then Inr (xs ! nat i) else Inl (Undefined Bad_Index))"

definition arr_set :: "'a list \<Rightarrow> int \<Rightarrow> 'a \<Rightarrow> 'a list res" where
  "arr_set xs i x =
     (if 0 \<le> i \<and> i < int (length xs) then Inr (xs[nat i := x]) else Inl (Undefined Bad_Index))"

lemma arr_get_int [simp]: "i < length xs \<Longrightarrow> arr_get xs (int i) = Inr (xs ! i)"
  by (simp add: arr_get_def)

lemma arr_set_int [simp]: "i < length xs \<Longrightarrow> arr_set xs (int i) x = Inr (xs[i := x])"
  by (simp add: arr_set_def)

lemma arr_get_Inr: "arr_get xs i = Inr x \<longleftrightarrow> 0 \<le> i \<and> i < int (length xs) \<and> x = xs ! nat i"
  by (auto simp: arr_get_def)

lemma arr_set_Inr:
  "arr_set xs i x = Inr ys \<longleftrightarrow> 0 \<le> i \<and> i < int (length xs) \<and> ys = xs[nat i := x]"
  by (auto simp: arr_set_def)

lemma sum_list_perm:
  fixes f :: "'a \<Rightarrow> int"
  assumes "mset xs = mset ys"
  shows "sum_list (map f xs) = sum_list (map f ys)"
proof -
  have "sum_mset (image_mset f (mset xs)) = sum_mset (image_mset f (mset ys))"
    using assms by simp
  then show ?thesis by (simp flip: sum_mset_sum_list)
qed

section \<open>The process table entry\<close>

record process =
  name :: string
  ready :: int
  exec :: int
  waiting :: int
  pid :: int

section \<open>The endless loop\<close>

text \<open>
  \<open>while(1)\<close> with a \<open>break\<close>: the body returns whether it broke out and the new state, or
  an error. \<open>None\<close> is a loop that never returns.
\<close>

partial_function (option) run_loop ::
  "('s \<Rightarrow> (bool \<times> 's) res) \<Rightarrow> 's \<Rightarrow> 's res option" where
  "run_loop body s =
     (case body s of
        Inl e \<Rightarrow> Some (Inl e)
      | Inr r \<Rightarrow> (if fst r then Some (Inr (snd r)) else run_loop body (snd r)))"

lemma run_loop_break: "body s = Inr (True, s') \<Longrightarrow> run_loop body s = Some (Inr s')"
  by (simp add: run_loop.simps)

lemma run_loop_next: "body s = Inr (False, s') \<Longrightarrow> run_loop body s = run_loop body s'"
  by (simp add: run_loop.simps [of body s])

lemma run_loop_error: "body s = Inl e \<Longrightarrow> run_loop body s = Some (Inl e)"
  by (simp add: run_loop.simps)

text \<open>States at the top of the loop body, from a given first one.\<close>

inductive reaches :: "('s \<Rightarrow> (bool \<times> 's) res) \<Rightarrow> 's \<Rightarrow> 's \<Rightarrow> bool" for body where
  start: "reaches body s s"
| iterate: "reaches body s t \<Longrightarrow> body t = Inr (False, u) \<Longrightarrow> reaches body s u"

inductive_simps reaches_unfold: "reaches body s u"

lemma reaches_trans: "reaches body t u \<Longrightarrow> reaches body s t \<Longrightarrow> reaches body s u"
  by (induction rule: reaches.induct) (auto intro: reaches.intros)

lemma reaches_step: "body s = Inr (False, t) \<Longrightarrow> reaches body t u \<Longrightarrow> reaches body s u"
  by (rule reaches_trans [OF _ reaches.iterate [OF reaches.start]])

lemma run_loop_reaches: "reaches body s t \<Longrightarrow> run_loop body s = run_loop body t"
  by (induction rule: reaches.induct) (auto dest: run_loop_next)

lemma reaches_invariant:
  assumes "reaches body s t" and "I s"
    and "\<And>u v. I u \<Longrightarrow> body u = Inr (False, v) \<Longrightarrow> I v"
  shows "I t"
  using assms by (induction rule: reaches.induct) auto

text \<open>If the loop returns, it returned from a reachable top-of-loop state.\<close>

lemma run_loop_returns:
  assumes "run_loop body s = Some r"
  shows "\<exists>t. reaches body s t \<and>
    (case r of Inl e \<Rightarrow> body t = Inl e | Inr u \<Rightarrow> body t = Inr (True, u))"
proof (rule run_loop.raw_induct [where P = "\<lambda>body s r. \<exists>t. reaches body s t \<and>
    (case r of Inl e \<Rightarrow> body t = Inl e | Inr u \<Rightarrow> body t = Inr (True, u))", OF _ assms])
  fix f :: "('s \<Rightarrow> (bool \<times> 's) res) \<Rightarrow> 's \<Rightarrow> 's res option" and body s r
  assume IH: "\<And>body s r. f body s = Some r \<Longrightarrow> \<exists>t. reaches body s t \<and>
      (case r of Inl e \<Rightarrow> body t = Inl e | Inr u \<Rightarrow> body t = Inr (True, u))"
    and eq: "(case body s of Inl e \<Rightarrow> Some (Inl e)
      | Inr p \<Rightarrow> (if fst p then Some (Inr (snd p)) else f body (snd p))) = Some r"
  show "\<exists>t. reaches body s t \<and>
      (case r of Inl e \<Rightarrow> body t = Inl e | Inr u \<Rightarrow> body t = Inr (True, u))"
  proof (cases "\<exists>s'. body s = Inr (False, s')")
    case True
    then obtain s' where s': "body s = Inr (False, s')" by blast
    with eq have "f body s' = Some r" by simp
    from IH [OF this] s' show ?thesis by (blast intro: reaches_step)
  next
    case False
    with eq show ?thesis
      by (intro exI [of _ s]) (auto intro: reaches.start split: sum.splits if_splits)
  qed
qed

text \<open>
  Refinement: if every round of one loop is a round of another under an abstraction, the runs
  correspond, and the concrete one leaves from a state that satisfies the invariant.
\<close>

lemma reaches_refines:
  assumes "reaches abody x t" and "x = \<alpha> s" and "I s"
    and sim: "\<And>s. I s \<Longrightarrow> \<exists>b s'. body s = Inr (b, s') \<and> abody (\<alpha> s) = Inr (b, \<alpha> s') \<and> (\<not> b \<longrightarrow> I s')"
  shows "\<exists>u. reaches body s u \<and> I u \<and> \<alpha> u = t"
  using assms(1-3)
proof (induction rule: reaches.induct)
  case start
  then show ?case by (blast intro: reaches.start)
next
  case (iterate y t v)
  then obtain u where u: "reaches body s u" "I u" "\<alpha> u = t" by blast
  from sim [OF u(2)] obtain b w where
    "body u = Inr (b, w)" "abody (\<alpha> u) = Inr (b, \<alpha> w)" "\<not> b \<longrightarrow> I w" by blast
  with u iterate.hyps(2) show ?case by (auto intro: reaches.iterate)
qed

lemma run_loop_refines:
  assumes sim: "\<And>s. I s \<Longrightarrow> \<exists>b s'. body s = Inr (b, s') \<and> abody (\<alpha> s) = Inr (b, \<alpha> s') \<and> (\<not> b \<longrightarrow> I s')"
    and "I s" and "run_loop abody (\<alpha> s) = Some (Inr a)"
  shows "\<exists>u s'. reaches body s u \<and> I u \<and> body u = Inr (True, s') \<and> \<alpha> s' = a \<and>
    run_loop body s = Some (Inr s')"
proof -
  from run_loop_returns [OF assms(3)] obtain t where
    t: "reaches abody (\<alpha> s) t" "abody t = Inr (True, a)" by auto
  from reaches_refines [OF t(1) refl assms(2) sim] obtain u where
    u: "reaches body s u" "I u" "\<alpha> u = t" by blast
  from sim [OF u(2)] u(3) t(2) obtain s' where "body u = Inr (True, s')" "\<alpha> s' = a" by auto
  with u show ?thesis
    using run_loop_reaches [OF u(1)] run_loop_break [of body u s'] by auto
qed

text \<open>Total correctness: a measure that every non-breaking round decreases.\<close>

lemma run_loop_total:
  assumes "I s"
    and "\<And>u. I u \<Longrightarrow> \<exists>b v. body u = Inr (b, v) \<and> (if b then Q v else I v \<and> m v < (m u :: nat))"
  shows "\<exists>v. run_loop body s = Some (Inr v) \<and> Q v"
  using assms(1)
proof (induction "m s" arbitrary: s rule: less_induct)
  case less
  from assms(2) [OF less.prems] obtain b v where
    b: "body s = Inr (b, v)" "if b then Q v else I v \<and> m v < m s" by blast
  then show ?case
    using less.hyps [of v] by (cases b) (auto simp: run_loop_break dest: run_loop_next)
qed

section \<open>A loop whose body may not return\<close>

text \<open>
  RR has a search in its loop body that may run forever, so its body is itself optional. As long as
  an invariant makes the body return, the loop is the one above.
\<close>

definition bindo :: "'a res option \<Rightarrow> ('a \<Rightarrow> 'b res option) \<Rightarrow> 'b res option" where
  "bindo m f = Option.bind m (\<lambda>r. case r of Inl e \<Rightarrow> Some (Inl e) | Inr x \<Rightarrow> f x)"

lemma bindo_simps [simp]:
  "bindo None f = None" "bindo (Some (Inl e)) f = Some (Inl e)" "bindo (Some (Inr x)) f = f x"
  by (simp_all add: bindo_def)

lemma bindo_eq_Some_Inr:
  "bindo m f = Some (Inr y) \<longleftrightarrow> (\<exists>x. m = Some (Inr x) \<and> f x = Some (Inr y))"
  by (cases "(m, the m)" rule: prod.exhaust, cases m; cases "the m") (auto simp: bindo_def)

partial_function (option) run_loopo ::
  "('s \<Rightarrow> (bool \<times> 's) res option) \<Rightarrow> 's \<Rightarrow> 's res option" where
  "run_loopo body s = Option.bind (body s) (\<lambda>r.
     case r of
       Inl e \<Rightarrow> Some (Inl e)
     | Inr p \<Rightarrow> (if fst p then Some (Inr (snd p)) else run_loopo body (snd p)))"

lemma run_loopo_next: "body s = Some (Inr (False, t)) \<Longrightarrow> run_loopo body s = run_loopo body t"
  by (simp add: run_loopo.simps [of body s])

lemma run_loopo_break: "body s = Some (Inr (True, t)) \<Longrightarrow> run_loopo body s = Some (Inr t)"
  by (simp add: run_loopo.simps)

lemma run_loopo_reaches:
  assumes "reaches (\<lambda>s. the (body s)) s t" and "I s"
    and "\<And>u. I u \<Longrightarrow> body u \<noteq> None"
    and "\<And>u v. I u \<Longrightarrow> body u = Some (Inr (False, v)) \<Longrightarrow> I v"
  shows "run_loopo body s = run_loopo body t \<and> I t"
  using assms(1,2)
proof (induction rule: reaches.induct)
  case (iterate s t u)
  then have "run_loopo body s = run_loopo body t" "I t" by auto
  moreover from \<open>I t\<close> iterate.hyps(2) have "body t = Some (Inr (False, u))"
    using assms(3) [of t] by auto
  ultimately show ?case using assms(4) by (auto dest: run_loopo_next)
qed simp

end
