(* ===== verification/Os_Model.thy ===== *)
theory Os_Model
  imports Sched_Prelude "HOL-Library.Word" "HOL-Library.Product_Lexorder"
begin

text \<open>
  What the schedulers call and the repository does not define: the Linux system calls and the C
  library. Each call's answer is a field of the record \<open>os\<close>, a function of the history so
  far and of the arguments; the call itself is recorded in the trace. \<^verbatim>\<open>qsort\<close> is a
  field too, with the contract of the C standard as the locale \<open>c_qsort\<close>. The busy-wait
  loop that every scheduler copies is modelled at the width of its counter.
\<close>

section \<open>The environment\<close>

record os =
  getpid_ret :: "trace \<Rightarrow> int"
  fork_ret :: "trace \<Rightarrow> int"
  setscheduler_ret :: "trace \<Rightarrow> int \<Rightarrow> policy \<Rightarrow> int \<Rightarrow> int"
  setaffinity_ret :: "trace \<Rightarrow> int \<Rightarrow> int list \<Rightarrow> int"
  stray_pid :: int \<comment> \<open>the four bytes in front of \<open>proc[0]\<close>, which \<open>proc[-1].pid\<close> reads\<close>
  qsort :: "(process \<Rightarrow> process \<Rightarrow> int) \<Rightarrow> process list \<Rightarrow> process list"
  qsort_asks :: "(process \<Rightarrow> process \<Rightarrow> int) \<Rightarrow> process list \<Rightarrow> process \<Rightarrow> process \<Rightarrow> bool"
    \<comment> \<open>whether \<^verbatim>\<open>qsort\<close> on this array calls the comparison function with these two elements\<close>
  malloc_init :: "nat \<Rightarrow> process" \<comment> \<open>what fresh heap memory holds\<close>
  malloc_ok :: "int \<Rightarrow> bool" \<comment> \<open>whether a request of so many bytes is granted\<close>

definition sched_setscheduler ::
  "os \<Rightarrow> int \<Rightarrow> policy \<Rightarrow> int \<Rightarrow> trace \<Rightarrow> int \<times> trace" where
  "sched_setscheduler E p pol prio t =
     (let r = setscheduler_ret E t p pol prio in (r, Setscheduler p pol prio r # t))"

text \<open>
  \<open>CPU_ZERO\<close> then \<open>CPU_SET(core, &mask)\<close>: glibc ignores a core outside the set's 1024 bits.
\<close>

definition cpu_mask :: "int \<Rightarrow> int list" where
  "cpu_mask core = (if 0 \<le> core \<and> core < 1024 then [core] else [])"

definition sched_setaffinity :: "os \<Rightarrow> int \<Rightarrow> int list \<Rightarrow> trace \<Rightarrow> int \<times> trace" where
  "sched_setaffinity E p cpus t =
     (let r = setaffinity_ret E t p cpus in (r, Setaffinity p cpus r # t))"

text \<open>\<open>proc[i].pid\<close>, with the read in front of the array that the schedulers do for \<open>i = -1\<close>.\<close>

definition pid_at :: "os \<Rightarrow> process list \<Rightarrow> int \<Rightarrow> trace \<Rightarrow> (int \<times> trace) res" where
  "pid_at E ps i t =
     (if i = -1 then Inr (stray_pid E, Oob_Read (-1) # t)
      else bindr (arr_get ps i) (\<lambda>p. Inr (pid p, t)))"

section \<open>A busy-wait loop\<close>

text \<open>
  \<^verbatim>\<open>volatile unsigned long i; for (i = 0; i < bound; i++);\<close> with a 64-bit counter; the
  model counts the rounds.
\<close>

lemma unat_inc:
  fixes i bound :: "64 word"
  assumes "i < bound"
  shows "unat i < unat bound" and "unat (i + 1) = Suc (unat i)"
proof -
  show less: "unat i < unat bound" using assms by (simp add: word_less_nat_alt)
  have "unat bound < 2 ^ 64" using unsigned_less [of bound, where 'a = nat] by simp
  with less have "Suc (unat i) < 2 ^ 64" by linarith
  then show "unat (i + 1) = Suc (unat i)" by (simp add: unat_word_ariths)
qed

function spin_loop :: "64 word \<Rightarrow> 64 word \<Rightarrow> int \<Rightarrow> int" where
  "spin_loop bound i rounds =
     (if i < bound then spin_loop bound (i + 1) (rounds + 1) else rounds)"
  by pat_completeness auto
termination
proof (relation "measure (\<lambda>(bound, i, rounds). unat bound - unat i)")
  fix bound i :: "64 word" and rounds :: int
  assume "i < bound"
  then have "unat i < unat bound" and "unat (i + 1) = Suc (unat i)"
    by (auto dest: unat_inc)
  then show "((bound, i + 1, rounds + 1), bound, i, rounds)
      \<in> measure (\<lambda>(bound, i, rounds). unat bound - unat i)" by simp
qed simp

declare spin_loop.simps [simp del]

lemma spin_loop_rounds: "i \<le> bound \<Longrightarrow> spin_loop bound i rounds = rounds + (uint bound - uint i)"
proof (induction bound i rounds rule: spin_loop.induct)
  case (1 bound i rounds)
  show ?case
  proof (cases "i < bound")
    case True
    then have "unat i < unat bound" and s: "unat (i + 1) = Suc (unat i)"
      by (auto dest: unat_inc)
    then have "i + 1 \<le> bound" by (simp add: word_le_nat_alt)
    moreover have "uint (i + 1) = uint i + 1" using s by (metis of_nat_Suc unat_eq_nat_uint uint_nat add.commute)
    ultimately show ?thesis
      using "1.IH" True by (simp add: spin_loop.simps [of bound i])
  next
    case False
    with "1.prems" have "i = bound" by simp
    then show ?thesis by (simp add: spin_loop.simps [of bound bound])
  qed
qed

lemma spin_loop_full [simp, code_unfold]: "spin_loop bound 0 0 = uint bound"
  by (simp add: spin_loop_rounds)

section \<open>Scheduling classes\<close>

text \<open>
  Linux prefers every \<open>SCHED_FIFO\<close> task to every \<open>SCHED_OTHER\<close> task and those to every
  \<open>SCHED_IDLE\<close> task; inside \<open>SCHED_FIFO\<close> the larger priority wins. So a (policy, priority)
  pair is ordered lexicographically.
\<close>

primrec policy_rank :: "policy \<Rightarrow> nat" where
  "policy_rank SCHED_IDLE = 0"
| "policy_rank SCHED_OTHER = 1"
| "policy_rank SCHED_FIFO = 2"

lemma policy_rank_inject: "policy_rank p = policy_rank q \<Longrightarrow> p = q"
  by (cases p; cases q) auto

instantiation policy :: linorder
begin

definition less_eq_policy :: "policy \<Rightarrow> policy \<Rightarrow> bool" where
  "less_eq_policy p q \<longleftrightarrow> policy_rank p \<le> policy_rank q"

definition less_policy :: "policy \<Rightarrow> policy \<Rightarrow> bool" where
  "less_policy p q \<longleftrightarrow> policy_rank p < policy_rank q"

instance
  by standard (auto simp: less_eq_policy_def less_policy_def intro: policy_rank_inject)

end

text \<open>
  The class a process is in after a history: the last successful request for its pid, or the
  default \<open>SCHED_OTHER\<close>.
\<close>

fun class_of :: "trace \<Rightarrow> int \<Rightarrow> policy \<times> int" where
  "class_of [] p = (SCHED_OTHER, 0)"
| "class_of (Setscheduler q pol prio r # t) p =
     (if q = p \<and> 0 \<le> r then (pol, prio) else class_of t p)"
| "class_of (_ # t) p = class_of t p"

section \<open>qsort\<close>

text \<open>
  The comparison functions compute with C arithmetic, so they may fail. Which elements of the array
  \<^verbatim>\<open>qsort\<close> compares is up to the library; the call is undefined when one of these comparisons is.
\<close>

definition run_qsort ::
  "os \<Rightarrow> (process \<Rightarrow> process \<Rightarrow> int res) \<Rightarrow> process list \<Rightarrow> process list res" where
  "run_qsort E cmp xs =
     (let c = (\<lambda>a b. projr (cmp a b)) in
      case filter (\<lambda>(a, b). qsort_asks E c xs a b \<and> isl (cmp a b)) (List.product xs xs) of
        [] \<Rightarrow> Inr (qsort E c xs)
      | (a, b) # _ \<Rightarrow> Inl (projl (cmp a b)))"

definition key_compare :: "('a \<Rightarrow> int) \<Rightarrow> 'a list \<Rightarrow> ('a \<Rightarrow> 'a \<Rightarrow> int) \<Rightarrow> bool" where
  "key_compare key xs cmp \<longleftrightarrow>
     (\<forall>a\<in>set xs. \<forall>b\<in>set xs. (cmp a b \<le> 0 \<longleftrightarrow> key a \<le> key b) \<and> (0 \<le> cmp a b \<longleftrightarrow> key b \<le> key a))"

text \<open>
  The standard's contract: a permutation of the array, in ascending order when the comparison
  function is a consistent order. The order of equal elements is unspecified.
\<close>

locale c_qsort =
  fixes qs :: "(process \<Rightarrow> process \<Rightarrow> int) \<Rightarrow> process list \<Rightarrow> process list"
  assumes qs_mset: "mset (qs cmp xs) = mset xs"
    and qs_ordered: "key_compare key xs cmp \<Longrightarrow> sorted (map key (qs cmp xs))"
begin

lemma qs_length: "length (qs cmp xs) = length xs"
  using qs_mset by (metis size_mset)

lemma qs_set: "set (qs cmp xs) = set xs"
  using qs_mset by (metis set_mset_mset)

lemma qs_sum: "sum_list (map f (qs cmp xs)) = (sum_list (map f xs) :: int)"
  by (rule sum_list_perm [OF qs_mset])

lemma qs_names: "mset (map name (qs cmp xs)) = mset (map name xs)"
  using qs_mset by (metis mset_map)

end

text \<open>A library routine that meets it: insertion, keeping equal elements in their order.\<close>

fun lib_insert :: "(process \<Rightarrow> process \<Rightarrow> int) \<Rightarrow> process \<Rightarrow> process list \<Rightarrow> process list" where
  "lib_insert cmp x [] = [x]"
| "lib_insert cmp x (y # ys) =
     (if cmp x y \<le> 0 then x # y # ys else y # lib_insert cmp x ys)"

fun lib_qsort :: "(process \<Rightarrow> process \<Rightarrow> int) \<Rightarrow> process list \<Rightarrow> process list" where
  "lib_qsort cmp [] = []"
| "lib_qsort cmp (x # xs) = lib_insert cmp x (lib_qsort cmp xs)"

lemma mset_lib_insert: "mset (lib_insert cmp x xs) = add_mset x (mset xs)"
  by (induction xs) auto

lemma set_lib_insert: "set (lib_insert cmp x xs) = insert x (set xs)"
  by (induction xs) auto

lemma mset_lib_qsort: "mset (lib_qsort cmp xs) = mset xs"
  by (induction xs) (auto simp: mset_lib_insert)

lemma set_lib_qsort: "set (lib_qsort cmp xs) = set xs"
  using mset_lib_qsort by (metis set_mset_mset)

lemma sorted_lib_insert:
  assumes "\<forall>b\<in>set xs. cmp x b \<le> 0 \<longleftrightarrow> key x \<le> key b" and "sorted (map key xs)"
  shows "sorted (map key (lib_insert cmp x xs))"
  using assms by (induction xs) (auto simp: set_lib_insert)

lemma sorted_lib_qsort:
  "key_compare key xs cmp \<Longrightarrow> sorted (map key (lib_qsort cmp xs))"
proof (induction xs)
  case (Cons x xs)
  then have "key_compare key xs cmp" and "\<forall>b\<in>set (lib_qsort cmp xs). cmp x b \<le> 0 \<longleftrightarrow> key x \<le> key b"
    by (auto simp: key_compare_def set_lib_qsort)
  with Cons.IH show ?case by (simp add: sorted_lib_insert)
qed simp

text \<open>The comparisons it makes.\<close>

fun lib_insert_asks :: "(process \<Rightarrow> process \<Rightarrow> int) \<Rightarrow> process \<Rightarrow> process list \<Rightarrow> (process \<times> process) list" where
  "lib_insert_asks cmp x [] = []"
| "lib_insert_asks cmp x (y # ys) = (x, y) # (if cmp x y \<le> 0 then [] else lib_insert_asks cmp x ys)"

fun lib_asks :: "(process \<Rightarrow> process \<Rightarrow> int) \<Rightarrow> process list \<Rightarrow> (process \<times> process) list" where
  "lib_asks cmp [] = []"
| "lib_asks cmp (x # xs) = lib_asks cmp xs @ lib_insert_asks cmp x (lib_qsort cmp xs)"

interpretation libc: c_qsort lib_qsort
  by unfold_locales (auto simp: mset_lib_qsort sorted_lib_qsort)

text \<open>A comparison function that never fails is handed to \<^verbatim>\<open>qsort\<close> as it is.\<close>

lemma run_qsort_value: "run_qsort E cmp xs = Inr ys \<Longrightarrow> ys = qsort E (\<lambda>a b. projr (cmp a b)) xs"
  by (auto simp: run_qsort_def Let_def split: list.splits prod.splits)

lemma run_qsort_total:
  assumes "\<And>a b. a \<in> set xs \<Longrightarrow> b \<in> set xs \<Longrightarrow> \<exists>r. cmp a b = Inr r"
  shows "run_qsort E cmp xs = Inr (qsort E (\<lambda>a b. projr (cmp a b)) xs)"
proof -
  have "filter (\<lambda>(a, b). qsort_asks E (\<lambda>a b. projr (cmp a b)) xs a b \<and> isl (cmp a b)) (List.product xs xs) = []"
    using assms by (fastforce simp: filter_empty_conv)
  then show ?thesis by (simp add: run_qsort_def Let_def)
qed

section \<open>A cooperative environment\<close>

text \<open>
  Enough for the parent's accounting: every fork gives a child and the affinity calls succeed.
  Nothing is asked of \<^verbatim>\<open>sched_setscheduler\<close>.
\<close>

definition forks_ok :: "os \<Rightarrow> bool" where
  "forks_ok E \<longleftrightarrow> (\<forall>t. 0 < fork_ret E t) \<and> (\<forall>t p m. 0 \<le> setaffinity_ret E t p m)"

text \<open>Pids are fresh and priority requests succeed: what the priority properties rest on.\<close>

fun forked :: "trace \<Rightarrow> int list" where
  "forked [] = []"
| "forked (Fork p # t) = p # forked t"
| "forked (_ # t) = forked t"

definition fresh_pids :: "os \<Rightarrow> bool" where
  "fresh_pids E \<longleftrightarrow> (\<forall>t. fork_ret E t \<notin> set (forked t) \<and> fork_ret E t \<noteq> stray_pid E)"

definition prio_ok :: "os \<Rightarrow> bool" where
  "prio_ok E \<longleftrightarrow> (\<forall>t p pol prio. 0 \<le> setscheduler_ret E t p pol prio)"

lemma forks_okD:
  assumes "forks_ok E"
  shows "0 < fork_ret E t" and "fork_ret E t \<noteq> 0" and "\<not> fork_ret E t < 0" and "\<not> setaffinity_ret E t p m < 0"
proof -
  show p: "0 < fork_ret E t" using assms by (simp add: forks_ok_def)
  then show "fork_ret E t \<noteq> 0" "\<not> fork_ret E t < 0" by simp_all
  show "\<not> setaffinity_ret E t p m < 0" using assms by (simp add: forks_ok_def not_less)
qed

lemma prio_okD:
  assumes "prio_ok E"
  shows "0 \<le> setscheduler_ret E t p pol prio" and "setscheduler_ret E t p pol prio \<noteq> -1"
    and "\<not> setscheduler_ret E t p pol prio < 0"
proof -
  have a: "0 \<le> setscheduler_ret E t p pol prio" using assms by (simp add: prio_ok_def)
  then show "0 \<le> setscheduler_ret E t p pol prio" .
  from a show "setscheduler_ret E t p pol prio \<noteq> -1" "\<not> setscheduler_ret E t p pol prio < 0" by linarith+
qed

text \<open>One environment with all of it, for the witnesses: pids count up from 100.\<close>

definition demo_os :: os where
  "demo_os = \<lparr>getpid_ret = (\<lambda>_. 1),
     fork_ret = (\<lambda>t. foldr max (forked t) 99 + 1),
     setscheduler_ret = (\<lambda>_ _ _ _. 0), setaffinity_ret = (\<lambda>_ _ _. 0),
     stray_pid = 0, qsort = lib_qsort, qsort_asks = (\<lambda>cmp xs a b. (a, b) \<in> set (lib_asks cmp xs)),
     malloc_init = (\<lambda>_. \<lparr>name = [], ready = 0, exec = 0, waiting = 0, pid = 0\<rparr>),
     malloc_ok = (\<lambda>_. True)\<rparr>"

lemma foldr_max_ge: "(x::int) \<in> set xs \<Longrightarrow> x \<le> foldr max xs m" "m \<le> foldr max xs (m::int)"
  by (induction xs) auto

lemma forks_ok_demo [simp]: "forks_ok demo_os"
proof -
  have "(99::int) \<le> foldr max (forked t) 99" for t by (rule foldr_max_ge)
  then show ?thesis by (simp add: forks_ok_def demo_os_def add_nonneg_pos) (smt (verit))
qed

lemma fresh_pids_demo [simp]: "fresh_pids demo_os"
proof -
  have "(99::int) \<le> foldr max (forked t) 99" for t by (rule foldr_max_ge)
  moreover have "foldr max (forked t) 99 + 1 \<notin> set (forked t)" for t
    using foldr_max_ge(1) [of _ "forked t" 99] by (metis zless_add1_eq not_less)
  ultimately show ?thesis by (simp add: fresh_pids_def demo_os_def) (smt (verit))
qed

lemma prio_ok_demo [simp]: "prio_ok demo_os"
  by (simp add: prio_ok_def demo_os_def)

lemma qsort_demo [simp]: "qsort demo_os = lib_qsort"
  by (simp add: demo_os_def)

end
