(* ===== verification/Work_Conserving.thy ===== *)
theory Work_Conserving
  imports Sched_Prelude
begin

text \<open>
  The contract all four scheduling loops share, independently of the policy: one round of the
  loop is one unit of time, it serves one unit of some arrived and unfinished job, and it is idle
  only when there is none. From it follow termination and the time of the last completion,
  which is the same for every such policy. The loops are instances of the locale
  \<open>work_conserving\<close>.
\<close>

named_theorems job_simps \<open>jobs as pairs of arrival time and remaining work\<close>

type_synonym job = "int \<times> int"

definition work :: "job list \<Rightarrow> int" where
  "work js = sum_list (map snd js)"

text \<open>Work of the jobs that have not arrived at time \<open>t\<close>.\<close>

definition future :: "job list \<Rightarrow> int \<Rightarrow> int" where
  "future js t = sum_list (map snd (filter (\<lambda>j. t < fst j) js))"

definition last_arrival :: "job list \<Rightarrow> int" where
  "last_arrival js = foldr max (map fst js) 0"

definition served :: "int \<Rightarrow> job list \<Rightarrow> job list \<Rightarrow> bool" where
  "served t js js' \<longleftrightarrow>
     (\<exists>i < length js. fst (js ! i) \<le> t \<and> 0 < snd (js ! i) \<and>
        js' = js[i := (fst (js ! i), snd (js ! i) - 1)]) \<or>
     (js' = js \<and> (\<forall>j\<in>set js. 0 < snd j \<longrightarrow> t < fst j))"

lemma served_busy:
  "i < length js \<Longrightarrow> fst (js ! i) \<le> t \<Longrightarrow> 0 < snd (js ! i) \<Longrightarrow>
   js' = js[i := (fst (js ! i), snd (js ! i) - 1)] \<Longrightarrow> served t js js'"
  by (auto simp: served_def)

lemma served_idle: "(\<And>j. j \<in> set js \<Longrightarrow> 0 < snd j \<Longrightarrow> t < fst j) \<Longrightarrow> served t js js"
  by (auto simp: served_def)

section \<open>Sums over an updated list\<close>

lemma sum_list_update_int:
  "i < length xs \<Longrightarrow> sum_list (xs[i := y]) = sum_list xs - xs ! i + (y :: int)"
  by (induction xs arbitrary: i) (auto split: nat.splits)

lemma work_update:
  "i < length js \<Longrightarrow> work (js[i := j]) = work js - snd (js ! i) + snd j"
  by (simp add: work_def map_update sum_list_update_int)

lemma future_sum: "future js t = sum_list (map (\<lambda>j. if t < fst j then snd j else 0) js)"
  by (induction js) (auto simp: future_def)

lemma future_update:
  "i < length js \<Longrightarrow> fst (js ! i) \<le> t \<Longrightarrow> fst j = fst (js ! i) \<Longrightarrow>
   future (js[i := j]) t = future js t"
  by (simp add: future_sum map_update sum_list_update_int)

lemma work_nonneg: "(\<And>j. j \<in> set js \<Longrightarrow> 0 \<le> snd j) \<Longrightarrow> 0 \<le> work js"
  unfolding work_def by (intro sum_list_nonneg) auto

lemma future_le_work: "\<forall>j\<in>set js. 0 \<le> snd j \<Longrightarrow> future js t \<le> work js"
  unfolding future_sum work_def by (intro sum_list_mono) auto

lemma future_eq_work:
  "\<forall>j\<in>set js. 0 < snd j \<longrightarrow> t < fst j \<Longrightarrow> \<forall>j\<in>set js. 0 \<le> snd j \<Longrightarrow> future js t = work js"
  unfolding future_sum work_def
  by (intro arg_cong [where f = sum_list] map_cong) (auto simp: order.order_iff_strict)

lemma work_pos_D: "0 < work js \<Longrightarrow> \<exists>j\<in>set js. 0 < snd j"
  unfolding work_def using sum_list_nonpos [of "map snd js"] by (force simp: not_less)

lemma work_zero_D:
  "work js = 0 \<Longrightarrow> \<forall>j\<in>set js. 0 \<le> snd j \<Longrightarrow> j \<in> set js \<Longrightarrow> snd j = 0"
  unfolding work_def using sum_list_nonneg_eq_0_iff [of "map snd js"] by auto

lemma member_le_work:
  "\<forall>j\<in>set js. 0 \<le> snd j \<Longrightarrow> j \<in> set js \<Longrightarrow> snd j \<le> work js"
proof (induction js)
  case (Cons k js)
  then have "0 \<le> work js" by (intro work_nonneg) auto
  with Cons show ?case by (auto simp: work_def)
qed simp

lemma last_arrival_ge: "j \<in> set js \<Longrightarrow> fst j \<le> last_arrival js" "0 \<le> last_arrival js"
  by (induction js) (auto simp: last_arrival_def)

lemma served_arrivals: "served t js js' \<Longrightarrow> map fst js' = map fst js"
  by (auto simp: served_def map_update) (metis list_update_id nth_map)

lemma served_future: "served t js js' \<Longrightarrow> t \<le> u \<Longrightarrow> future js' u = future js u"
  by (auto simp: served_def future_update)

text \<open>No run gets past the horizon: the last arrival, or now, plus all the work that is left.\<close>

definition horizon :: "int \<Rightarrow> job list \<Rightarrow> int" where
  "horizon t js = max t (last_arrival js) + work js"

lemma last_arrival_le: "last_arrival js \<le> x \<longleftrightarrow> 0 \<le> x \<and> (\<forall>j\<in>set js. fst j \<le> x)"
  by (induction js) (auto simp: last_arrival_def)

lemma last_arrival_perm:
  assumes "mset js = mset ks"
  shows "last_arrival js = last_arrival ks"
proof -
  have "set js = set ks" using assms by (rule mset_eq_setD)
  then have "last_arrival js \<le> last_arrival ks" and "last_arrival ks \<le> last_arrival js"
    by (auto simp: last_arrival_le last_arrival_ge(2) dest: last_arrival_ge(1))
  then show ?thesis by simp
qed

lemma horizon_served:
  assumes "served t js js'" and "0 < work js"
  shows "horizon (t + 1) js' \<le> horizon t js"
proof -
  from assms(1) consider
      i where "i < length js" "js' = js[i := (fst (js ! i), snd (js ! i) - 1)]"
    | "js' = js" "\<forall>j\<in>set js. 0 < snd j \<longrightarrow> t < fst j"
    by (auto simp: served_def)
  then show ?thesis
  proof cases
    case 1
    then have "last_arrival js' = last_arrival js"
      using served_arrivals [OF assms(1)] by (simp add: last_arrival_def)
    with 1 show ?thesis by (simp add: horizon_def work_update)
  next
    case 2
    from assms(2) obtain j where "j \<in> set js" "0 < snd j" by (blast dest: work_pos_D)
    with 2 have "t < last_arrival js" using last_arrival_ge(1) [of j js] by fastforce
    with 2 show ?thesis by (simp add: horizon_def)
  qed
qed

lemma horizon_now: "t + work js \<le> horizon t js"
  by (simp add: horizon_def)

section \<open>The amount of work left, as a function of time alone\<close>

text \<open>
  A round is busy exactly when more work is left than the jobs still to come will bring, so the
  work left after \<open>k\<close> rounds does not depend on the policy.
\<close>

primrec work_left :: "job list \<Rightarrow> nat \<Rightarrow> int" where
  "work_left js 0 = work js"
| "work_left js (Suc k) =
     (let w = work_left js k in if future js (int k) < w then w - 1 else w)"

lemma work_left_antimono: "k \<le> l \<Longrightarrow> work_left js l \<le> work_left js k"
  by (induction l rule: dec_induct) (auto simp: Let_def)

lemma served_work:
  assumes "served t js js'" and nn: "\<forall>j\<in>set js. 0 \<le> snd j"
  shows "work js' = (if future js t < work js then work js - 1 else work js)"
proof -
  from assms(1) consider
      i where "i < length js" "fst (js ! i) \<le> t" "0 < snd (js ! i)"
        "js' = js[i := (fst (js ! i), snd (js ! i) - 1)]"
    | "js' = js" "\<forall>j\<in>set js. 0 < snd j \<longrightarrow> t < fst j"
    by (auto simp: served_def)
  then show ?thesis
  proof cases
    case 1
    define ks where "ks = js[i := (fst (js ! i), snd (js ! i) - 1)]"
    have "\<forall>j\<in>set ks. 0 \<le> snd j"
      using nn 1(3) set_update_subset_insert [of js i] by (fastforce simp: ks_def)
    then have "future ks t \<le> work ks" by (rule future_le_work)
    with 1 show ?thesis by (simp add: ks_def future_update work_update)
  next
    case 2
    with nn future_eq_work show ?thesis by auto
  qed
qed

text \<open>The first time with nothing left.\<close>

definition first_done :: "job list \<Rightarrow> nat \<Rightarrow> bool" where
  "first_done js k \<longleftrightarrow> work_left js k = 0 \<and> (\<forall>l<k. 0 < work_left js l)"

lemma first_done_unique: "first_done js k \<Longrightarrow> first_done js l \<Longrightarrow> k = l"
  unfolding first_done_def by (metis linorder_neqE_nat order_less_irrefl)

lemma work_perm: "mset js = mset ks \<Longrightarrow> work js = work ks"
  unfolding work_def by (rule sum_list_perm)

lemma future_perm: "mset js = mset ks \<Longrightarrow> future js t = future ks t"
  unfolding future_sum by (rule sum_list_perm)

lemma work_left_perm: "mset js = mset ks \<Longrightarrow> work_left js k = work_left ks k"
  by (induction k) (simp_all add: work_perm [of js ks] future_perm [of js ks])

lemma first_done_perm: "mset js = mset ks \<Longrightarrow> first_done js k = first_done ks k"
  unfolding first_done_def using work_left_perm [of js ks] by simp

section \<open>The contract\<close>

locale work_conserving =
  fixes body :: "'s \<Rightarrow> (bool \<times> 's) res"
    and jobs :: "'s \<Rightarrow> job list"
    and clock :: "'s \<Rightarrow> int"
    and I :: "'s \<Rightarrow> bool"
  assumes runs: "I s \<Longrightarrow> \<exists>b s'. body s = Inr (b, s')"
    and stops: "I s \<Longrightarrow> body s = Inr (True, s') \<Longrightarrow> work (jobs s) = 0"
    and goes: "I s \<Longrightarrow> body s = Inr (False, s') \<Longrightarrow>
      I s' \<and> 0 < work (jobs s) \<and> clock s' = clock s + 1 \<and> served (clock s) (jobs s) (jobs s')"
    and nonneg: "I s \<Longrightarrow> j \<in> set (jobs s) \<Longrightarrow> 0 \<le> snd j"
begin

lemma reaches_I: "reaches body s t \<Longrightarrow> I s \<Longrightarrow> I t"
  using goes by (auto elim: reaches_invariant)

lemma reaches_work:
  assumes "reaches body s t" and "I s" and "clock s = 0"
  shows "0 \<le> clock t \<and> work (jobs t) = work_left (jobs s) (nat (clock t)) \<and>
    (\<forall>u\<ge>clock t. future (jobs t) u = future (jobs s) u) \<and>
    (\<forall>l<nat (clock t). 0 < work_left (jobs s) l)"
  using assms
proof (induction rule: reaches.induct)
  case start
  then show ?case by simp
next
  case (iterate s t u)
  then have I: "I t" by (blast intro: reaches_I)
  note g = goes [OF I iterate.hyps(2)]
  have "work (jobs u) = (if future (jobs t) (clock t) < work (jobs t)
      then work (jobs t) - 1 else work (jobs t))"
    using g nonneg [OF I] by (intro served_work) auto
  with iterate g have "work (jobs u) = work_left (jobs s) (Suc (nat (clock t)))"
    by (simp add: Let_def)
  moreover have "nat (clock u) = Suc (nat (clock t))" using iterate g by (simp add: Suc_nat_eq_nat_zadd1)
  ultimately show ?case
    using iterate g served_future by (auto simp: less_Suc_eq)
qed

text \<open>Every round takes the loop closer to its end, so it ends, in a state that has served all.\<close>

lemma terminates:
  assumes "I s"
  shows "\<exists>t u. reaches body s t \<and> I t \<and> body t = Inr (True, u) \<and> run_loop body s = Some (Inr u)"
proof -
  have "\<exists>u. run_loop body s = Some (Inr u) \<and> True"
  proof (rule run_loop_total [where I = I and
        m = "\<lambda>s. nat (work (jobs s) + max 0 (last_arrival (jobs s) - clock s))"])
    fix u assume I: "I u"
    from runs [OF I] obtain b v where v: "body u = Inr (b, v)" by blast
    have "I v \<and> nat (work (jobs v) + max 0 (last_arrival (jobs v) - clock v))
        < nat (work (jobs u) + max 0 (last_arrival (jobs u) - clock u))" if "\<not> b"
    proof -
      from that v have g: "I v" "0 < work (jobs u)" "clock v = clock u + 1"
        "served (clock u) (jobs u) (jobs v)" using goes [OF I, of v] by auto
      have a: "last_arrival (jobs v) = last_arrival (jobs u)"
        using served_arrivals [OF g(4)] by (simp add: last_arrival_def)
      have t: "work (jobs v) = (if future (jobs u) (clock u) < work (jobs u)
          then work (jobs u) - 1 else work (jobs u))"
        using g(4) nonneg [OF I] by (intro served_work) auto
      have "clock u < last_arrival (jobs u)" if "\<not> future (jobs u) (clock u) < work (jobs u)"
      proof -
        from that have "0 < future (jobs u) (clock u)" using g(2) by simp
        then obtain j where "j \<in> set (jobs u)" "clock u < fst j"
          unfolding future_def by (auto dest!: work_pos_D [unfolded work_def])
        then show ?thesis using last_arrival_ge(1) [of j "jobs u"] by simp
      qed
      with g a t show ?thesis by (auto simp: max_def)
    qed
    with v show "\<exists>b v. body u = Inr (b, v) \<and>
        (if b then True else I v \<and> nat (work (jobs v) + max 0 (last_arrival (jobs v) - clock v))
          < nat (work (jobs u) + max 0 (last_arrival (jobs u) - clock u)))"
      by (intro exI [of _ b] exI [of _ v]) auto
  qed (rule assms)
  then obtain u where u: "run_loop body s = Some (Inr u)" by blast
  from run_loop_returns [OF this] obtain t where "reaches body s t" "body t = Inr (True, u)" by auto
  with u assms show ?thesis by (blast intro: reaches_I)
qed

text \<open>The loop leaves at the first time with nothing left to do.\<close>

lemma leaves_first_done:
  assumes "I s" and "clock s = 0" and "reaches body s t" and "body t = Inr (True, u)"
  shows "0 \<le> clock t \<and> first_done (jobs s) (nat (clock t))"
  using reaches_work [OF assms(3,1,2)] stops [OF reaches_I [OF assms(3,1)] assms(4)]
  by (auto simp: first_done_def)

end

end
