(* ===== verification/Selection.thy ===== *)
theory Selection
  imports Sched_Prelude
begin

text \<open>
  The array scans of the schedulers look for the first index with the least key among the
  eligible ones. \<open>best\<close> is that search as a function on indices; its laws are what the proofs
  about the policies use. The code writes \<open>-1\<close> for "none" (\<open>enc\<close>).
\<close>

primrec best :: "(nat \<Rightarrow> bool) \<Rightarrow> (nat \<Rightarrow> int) \<Rightarrow> nat \<Rightarrow> nat option" where
  "best ok key 0 = None"
| "best ok key (Suc n) =
     (case best ok key n of
        None \<Rightarrow> (if ok n then Some n else None)
      | Some j \<Rightarrow> (if ok n \<and> key n < key j then Some n else Some j))"

definition enc :: "nat option \<Rightarrow> int" where
  "enc r = (case r of None \<Rightarrow> -1 | Some i \<Rightarrow> int i)"

lemma enc_simps [simp]: "enc None = -1" "enc (Some i) = int i" "enc r = -1 \<longleftrightarrow> r = None"
  "nat (enc (Some i)) = i"
  by (auto simp: enc_def split: option.splits)

lemma enc_inj [simp]: "enc r = enc q \<longleftrightarrow> r = q"
  by (auto simp: enc_def split: option.splits)

lemma best_None: "best ok key n = None \<longleftrightarrow> (\<forall>i<n. \<not> ok i)"
  by (induction n) (auto simp: less_Suc_eq split: option.splits)

lemma best_Some:
  "best ok key n = Some i \<Longrightarrow>
   i < n \<and> ok i \<and> (\<forall>j<n. ok j \<longrightarrow> key i \<le> key j) \<and> (\<forall>j<i. ok j \<longrightarrow> key i < key j)"
proof (induction n arbitrary: i)
  case (Suc n)
  then show ?case
    by (cases "best ok key n") (force simp: less_Suc_eq best_None split: if_splits)+
qed simp

lemma best_SomeI:
  assumes "i < n" "ok i" "\<And>j. j < n \<Longrightarrow> ok j \<Longrightarrow> key i \<le> key j"
    and "\<And>j. j < i \<Longrightarrow> ok j \<Longrightarrow> key i < key j"
  shows "best ok key n = Some i"
proof -
  from assms obtain k where k: "best ok key n = Some k" using best_None by blast
  from best_Some [OF k] assms have "k = i" by (metis linorder_neqE_nat not_less)
  with k show ?thesis by simp
qed

lemma best_cong:
  "(\<And>i. i < n \<Longrightarrow> ok i = ok' i) \<Longrightarrow> (\<And>i. i < n \<Longrightarrow> ok i \<Longrightarrow> key i = key' i) \<Longrightarrow>
   best ok key n = best ok' key' n"
proof (induction n)
  case (Suc n)
  then have "best ok key n = best ok' key' n" by simp
  moreover have "key j = key' j" if "best ok key n = Some j" for j
    using best_Some [OF that] Suc.prems by (metis less_SucI)
  ultimately show ?case using Suc.prems by (auto split: option.splits)
qed simp

text \<open>The search as the head of a list of all minimal eligible indices.\<close>

lemma best_filter:
  "best ok key n =
     (case filter (\<lambda>i. ok i \<and> (\<forall>j<n. ok j \<longrightarrow> key i \<le> key j)) [0..<n] of [] \<Rightarrow> None | i # _ \<Rightarrow> Some i)"
proof (cases "best ok key n")
  case None
  then show ?thesis by (auto simp: best_None filter_empty_conv split: list.split)
next
  case (Some i)
  let ?P = "\<lambda>i. ok i \<and> (\<forall>j<n. ok j \<longrightarrow> key i \<le> key j)"
  note b = best_Some [OF Some]
  then have split: "[0..<n] = [0..<i] @ i # [Suc i..<n]"
    by (metis le0 less_imp_le_nat upt_add_eq_append le_add_diff_inverse upt_conv_Cons)
  have "\<not> ?P j" if "j < i" for j using b that by (metis leD)
  then have "filter ?P [0..<i] = []" by (auto simp: filter_empty_conv)
  moreover have "?P i" using b by blast
  ultimately have "filter ?P [0..<n] = i # filter ?P [Suc i..<n]" unfolding split by simp
  with Some show ?thesis by simp
qed

end
