(* ===== verification/Machine.thy ===== *)
theory Machine
  imports Work_Conserving Selection
begin

text \<open>
  The abstract machine that FIFO, SJF and RR refine: the data of the jobs, the job being served, the
  clock and the log of completions. A round notes a completion, lets the policy pick, and serves a
  unit. The contract of a policy is the locale \<open>machine\<close>, which makes the machine work conserving;
  in the locale \<open>sliced\<close> a policy also says for how long its next decision stands, and the machine
  then follows the plan that jumps from one decision to the next.
\<close>

record mach =
  arr :: "int list"
  nm :: "string list"
  left :: "int list"
  cur :: "nat option"
  now :: int
  log :: "(string \<times> int) list"

definition mach_check :: "'z mach_scheme \<Rightarrow> 'z mach_scheme" where
  "mach_check a = (case cur a of
     None \<Rightarrow> a
   | Some i \<Rightarrow> (if left a ! i = 0 then a\<lparr>cur := None, log := log a @ [(nm a ! i, now a)]\<rparr> else a))"

definition mach_tick :: "'z mach_scheme \<Rightarrow> 'z mach_scheme" where
  "mach_tick a = (case cur a of
     None \<Rightarrow> a\<lparr>now := now a + 1\<rparr>
   | Some i \<Rightarrow> a\<lparr>now := now a + 1, left := (left a)[i := left a ! i - 1]\<rparr>)"

definition mach_body ::
  "('z mach_scheme \<Rightarrow> 'z mach_scheme) \<Rightarrow> 'z mach_scheme \<Rightarrow> (bool \<times> 'z mach_scheme) res" where
  "mach_body pick a =
     (let a1 = mach_check a in
      if cur a \<noteq> cur a1 \<and> length (log a1) = length (arr a) then Inr (True, a1)
      else Inr (False, mach_tick (pick a1)))"

section \<open>The invariant\<close>

definition unfinished :: "int list \<Rightarrow> int" where
  "unfinished l = sum_list (map (\<lambda>x. if x = 0 then 0 else 1) l)"

definition ending :: "'z mach_scheme \<Rightarrow> bool" where
  "ending a \<longleftrightarrow> (case cur a of None \<Rightarrow> False | Some i \<Rightarrow> left a ! i = 0)"

definition mach_inv :: "'z mach_scheme \<Rightarrow> bool" where
  "mach_inv a \<longleftrightarrow>
     length (left a) = length (arr a) \<and> length (nm a) = length (arr a) \<and>
     (\<forall>x\<in>set (left a). 0 \<le> x) \<and>
     (\<forall>i. cur a = Some i \<longrightarrow> i < length (arr a) \<and> arr a ! i \<le> now a) \<and>
     int (length (log a)) + unfinished (left a) + (if ending a then 1 else 0) = int (length (arr a)) \<and>
     length (log a) < length (arr a)"

abbreviation mach_jobs :: "'z mach_scheme \<Rightarrow> job list" where
  "mach_jobs a \<equiv> zip (arr a) (left a)"

text \<open>Nobody has arrived with work left.\<close>

abbreviation nobody :: "'z mach_scheme \<Rightarrow> bool" where
  "nobody a \<equiv> \<forall>i<length (arr a). arr a ! i \<le> now a \<longrightarrow> left a ! i = 0"

lemma unfinished_update:
  "i < length l \<Longrightarrow> l ! i \<noteq> 0 \<Longrightarrow>
   unfinished (l[i := x]) = unfinished l - (if x = 0 then 1 else 0)"
  by (simp add: unfinished_def map_update sum_list_update_int)

lemma unfinished_nonneg: "0 \<le> unfinished l"
  unfolding unfinished_def by (intro sum_list_nonneg) auto

lemma unfinished_le: "unfinished l \<le> int (length l)"
  unfolding unfinished_def by (induction l) auto

lemma unfinished_pos: "i < length l \<Longrightarrow> l ! i \<noteq> 0 \<Longrightarrow> 1 \<le> unfinished l"
  using unfinished_update [of i l 0] unfinished_nonneg [of "l[i := 0]"] by simp

lemma unfinished_zero: "unfinished l = 0 \<longleftrightarrow> (\<forall>x\<in>set l. x = 0)"
proof
  assume "unfinished l = 0"
  then show "\<forall>x\<in>set l. x = 0" using unfinished_pos [of _ l] by (fastforce simp: in_set_conv_nth)
next
  assume "\<forall>x\<in>set l. x = 0"
  then show "unfinished l = 0" unfolding unfinished_def by (induction l) auto
qed

lemma unfinished_all: "\<forall>x\<in>set l. x \<noteq> 0 \<Longrightarrow> unfinished l = int (length l)"
  by (induction l) (auto simp: unfinished_def)

lemma mach_work_zero:
  assumes "length l = length as" and "\<forall>x\<in>set l. 0 \<le> x"
  shows "work (zip as l) = 0 \<longleftrightarrow> unfinished l = 0"
  using assms sum_list_nonneg_eq_0_iff [of l] by (simp add: work_def unfinished_zero)

lemma mach_work_nonneg:
  assumes "length l = length as" and "\<forall>x\<in>set l. 0 \<le> x"
  shows "0 \<le> work (zip as l)"
  using assms by (intro work_nonneg) (auto dest: set_zip_rightD)

text \<open>Serving job \<open>i\<close> for a unit.\<close>

lemma mach_served:
  assumes "length l = length as" and "i < length as" and "as ! i \<le> t" and "0 < l ! i"
  shows "served t (zip as l) (zip as (l[i := l ! i - 1]))"
proof (rule served_busy)
  have "zip as (l[i := l ! i - 1]) = zip (as[i := as ! i]) (l[i := l ! i - 1])" by simp
  then show "zip as (l[i := l ! i - 1]) = (zip as l)[i := (fst (zip as l ! i), snd (zip as l ! i) - 1)]"
    using assms by (simp add: zip_update del: list_update_id)
qed (use assms in auto)

text \<open>Checking twice is checking once.\<close>

lemma mach_check_cases:
  obtains "\<not> ending a" "mach_check a = a"
  | i where "ending a" "cur a = Some i" "left a ! i = 0"
      "mach_check a = a\<lparr>cur := None, log := log a @ [(nm a ! i, now a)]\<rparr>"
  by (cases "cur a") (auto simp: mach_check_def ending_def)

lemma mach_body_break_iff:
  "mach_body pick a = Inr (True, b) \<longleftrightarrow>
     ending a \<and> Suc (length (log a)) = length (arr a) \<and> b = mach_check a"
  by (cases a rule: mach_check_cases) (auto simp: mach_body_def Let_def)

lemma mach_body_go:
  "\<not> (ending a \<and> Suc (length (log a)) = length (arr a)) \<Longrightarrow>
   mach_body pick a = Inr (False, mach_tick (pick (mach_check a)))"
  by (cases a rule: mach_check_cases) (auto simp: mach_body_def Let_def)

lemma mach_body_check:
  assumes "\<not> (ending a \<and> Suc (length (log a)) = length (arr a))"
  shows "mach_body pick (mach_check a) = mach_body pick a"
proof (cases a rule: mach_check_cases)
  case (2 i)
  then have "mach_check (mach_check a) = mach_check a" by (simp add: mach_check_def)
  moreover have "\<not> ending (mach_check a)" using 2 by (simp add: ending_def)
  ultimately show ?thesis using assms by (simp add: mach_body_go)
qed simp

lemma run_loop_body_cong: "body a = body b \<Longrightarrow> run_loop body a = run_loop body b"
  by (simp add: run_loop.simps [of body a] run_loop.simps [of body b])

lemma ending_unfinished: "mach_inv a \<Longrightarrow> \<not> ending a \<Longrightarrow> unfinished (left a) \<noteq> 0"
  by (auto simp: mach_inv_def)

text \<open>The parts of a round that do not depend on the policy.\<close>

lemma check_inv:
  assumes "mach_inv a" and "\<not> (ending a \<and> Suc (length (log a)) = length (arr a))"
  shows "mach_inv (mach_check a)" and "\<not> ending (mach_check a)"
  using assms by (cases a rule: mach_check_cases; auto simp: mach_inv_def ending_def)+

lemma check_keeps:
  "arr (mach_check a) = arr a" "nm (mach_check a) = nm a" "left (mach_check a) = left a"
  "now (mach_check a) = now a"
  by (cases a rule: mach_check_cases; simp)+

lemma tick_inv:
  assumes "mach_inv a" and "\<not> ending a" and "cur a = None \<Longrightarrow> nobody a"
  shows "mach_inv (mach_tick a) \<and> now (mach_tick a) = now a + 1 \<and>
    served (now a) (mach_jobs a) (mach_jobs (mach_tick a))"
proof (cases "cur a")
  case None
  then have "served (now a) (mach_jobs a) (mach_jobs a)"
    using assms(1,3) by (intro served_idle) (fastforce simp: in_set_zip mach_inv_def not_less)
  with None assms show ?thesis by (auto simp: mach_tick_def mach_inv_def ending_def)
next
  case (Some i)
  with assms have i: "i < length (arr a)" "arr a ! i \<le> now a" "left a ! i \<noteq> 0"
    "length (left a) = length (arr a)" "\<forall>x\<in>set (left a). 0 \<le> x"
    by (auto simp: mach_inv_def ending_def)
  then have pos: "0 < left a ! i" using nth_mem [of i "left a"] by (metis order_le_less)
  have "served (now a) (mach_jobs a) (mach_jobs (mach_tick a))"
    using mach_served [OF i(4,1,2) pos] Some by (simp add: mach_tick_def)
  moreover have "\<forall>x\<in>set ((left a)[i := left a ! i - 1]). 0 \<le> x"
    using i(5) pos set_update_subset_insert [of "left a" i] by fastforce
  moreover have "unfinished ((left a)[i := left a ! i - 1]) + (if left a ! i = 1 then 1 else 0)
      = unfinished (left a)"
    using i by (simp add: unfinished_update)
  ultimately show ?thesis
    using Some assms(1,2) i by (auto simp: mach_tick_def mach_inv_def ending_def)
qed

text \<open>\<open>k\<close> units for job \<open>i\<close>.\<close>

definition advance :: "int \<Rightarrow> nat \<Rightarrow> 'z mach_scheme \<Rightarrow> 'z mach_scheme" where
  "advance k i a = a\<lparr>now := now a + k, left := (left a)[i := left a ! i - k]\<rparr>"

lemma advance_simps [simp]:
  "arr (advance k i a) = arr a" "nm (advance k i a) = nm a" "cur (advance k i a) = cur a"
  "log (advance k i a) = log a" "now (advance k i a) = now a + k"
  "left (advance k i a) = (left a)[i := left a ! i - k]" "mach.more (advance k i a) = mach.more a"
  by (simp_all add: advance_def)

lemma advance_0 [simp]: "advance 0 i a = a"
  by (simp add: advance_def)

lemma advance_add: "i < length (left a) \<Longrightarrow> advance k i (advance m i a) = advance (m + k) i a"
  by (simp add: advance_def algebra_simps)

lemma tick_advance: "cur a = Some i \<Longrightarrow> mach_tick a = advance 1 i a"
  by (simp add: mach_tick_def advance_def)

text \<open>
  The completions of a state, the one that its next check will log included: the names are those of the
  jobs with no work left, and no time lies in the future.
\<close>

definition logged :: "'z mach_scheme \<Rightarrow> (string \<times> int) list" where
  "logged a = log a @ (case cur a of
     None \<Rightarrow> [] | Some i \<Rightarrow> (if left a ! i = 0 then [(nm a ! i, now a)] else []))"

definition mach_noted :: "'z mach_scheme \<Rightarrow> bool" where
  "mach_noted a \<longleftrightarrow>
     mset (map fst (logged a)) = mset (map (\<lambda>i. nm a ! i) (filter (\<lambda>i. left a ! i = 0) [0..<length (arr a)])) \<and>
     (\<forall>e\<in>set (logged a). snd e \<le> now a)"

lemma logged_log: "\<not> ending a \<Longrightarrow> logged a = log a"
  by (cases "cur a") (simp_all add: logged_def ending_def)

lemma logged_check: "logged (mach_check a) = logged a"
  by (cases a rule: mach_check_cases) (simp_all add: logged_def)

lemma filter_upt_insert:
  assumes "i < n" and "\<not> P i" and "\<And>j. Q j \<longleftrightarrow> j = i \<or> P j"
  shows "mset (filter Q [0..<n]) = add_mset i (mset (filter P [0..<n]))"
  using assms(1)
proof (induction n)
  case (Suc n)
  show ?case
  proof (cases "i = n")
    case True
    have "filter Q [0..<n] = filter P [0..<n]" using True assms(3) by (intro filter_cong) auto
    moreover have "Q n" "\<not> P n" using True assms(2,3) by auto
    ultimately show ?thesis using True by simp
  next
    case False
    with Suc assms(3) [of n] show ?thesis by auto
  qed
qed simp

lemma check_noted: "mach_noted a \<Longrightarrow> mach_noted (mach_check a)"
  by (simp add: mach_noted_def logged_check check_keeps)

lemma tick_noted:
  assumes "mach_noted a" and "mach_inv a" and "\<not> ending a"
  shows "mach_noted (mach_tick a)"
proof (cases "cur a")
  case None
  with assms(1) show ?thesis by (auto simp: mach_noted_def logged_def mach_tick_def)
next
  case (Some i)
  with assms(2,3) have i: "i < length (arr a)" "i < length (left a)" "left a ! i \<noteq> 0"
    by (auto simp: mach_inv_def ending_def)
  note lg = logged_log [OF assms(3)]
  show ?thesis
  proof (cases "left a ! i = 1")
    case True
    have "mset (filter (\<lambda>j. (left a)[i := 0] ! j = 0) [0..<length (arr a)]) =
        add_mset i (mset (filter (\<lambda>j. left a ! j = 0) [0..<length (arr a)]))"
      using i by (intro filter_upt_insert) (auto simp: nth_list_update)
    then have "mset (map (\<lambda>j. nm a ! j) (filter (\<lambda>j. (left a)[i := 0] ! j = 0) [0..<length (arr a)])) =
        add_mset (nm a ! i) (mset (map (\<lambda>j. nm a ! j) (filter (\<lambda>j. left a ! j = 0) [0..<length (arr a)])))"
      by (simp only: mset_map image_mset_add_mset)
    moreover have "logged (mach_tick a) = log a @ [(nm a ! i, now a + 1)]"
      using Some True i by (simp add: logged_def mach_tick_def)
    ultimately show ?thesis
      using assms(1) Some True lg unfolding mach_noted_def by (auto simp: mach_tick_def)
  next
    case False
    have "filter (\<lambda>j. (left a)[i := left a ! i - 1] ! j = 0) [0..<length (arr a)] =
        filter (\<lambda>j. left a ! j = 0) [0..<length (arr a)]"
      using i False by (intro filter_cong) (auto simp: nth_list_update)
    moreover have "logged (mach_tick a) = log a"
      using Some False i by (simp add: logged_def mach_tick_def)
    ultimately show ?thesis
      using assms(1) Some lg unfolding mach_noted_def by (auto simp: mach_tick_def)
  qed
qed

section \<open>What a policy provides\<close>

locale machine =
  fixes pick :: "'z mach_scheme \<Rightarrow> 'z mach_scheme"
  assumes pick_keeps: "arr (pick a) = arr a" "nm (pick a) = nm a" "left (pick a) = left a"
      "now (pick a) = now a" "log (pick a) = log a"
    and pick_None: "mach_inv a \<Longrightarrow> \<not> ending a \<Longrightarrow> cur (pick a) = None \<Longrightarrow> nobody a"
    and pick_Some: "mach_inv a \<Longrightarrow> \<not> ending a \<Longrightarrow> cur (pick a) = Some i \<Longrightarrow>
      i < length (arr a) \<and> arr a ! i \<le> now a \<and> left a ! i \<noteq> 0"
    and pick_nobody: "mach_inv a \<Longrightarrow> cur a = None \<Longrightarrow> nobody a \<Longrightarrow> pick a = a"
begin

lemma pick_inv:
  assumes "mach_inv a" and "\<not> ending a"
  shows "mach_inv (pick a)" and "\<not> ending (pick a)" and "cur (pick a) = None \<Longrightarrow> nobody (pick a)"
proof -
  show e: "\<not> ending (pick a)"
    using pick_Some [OF assms] by (auto simp: ending_def pick_keeps split: option.splits)
  show "mach_inv (pick a)"
    using assms e pick_Some [OF assms] unfolding mach_inv_def by (auto simp: pick_keeps)
  show "cur (pick a) = None \<Longrightarrow> nobody (pick a)"
    using pick_None [OF assms] by (simp add: pick_keeps)
qed

lemma pick_pos:
  assumes "mach_inv a" and "\<not> ending a" and "cur (pick a) = Some i"
  shows "i < length (left a)" and "0 < left a ! i"
proof -
  note s = pick_Some [OF assms]
  then show l: "i < length (left a)" using assms(1) by (simp add: mach_inv_def)
  with assms(1) have "0 \<le> left a ! i" by (auto simp: mach_inv_def)
  with s show "0 < left a ! i" by simp
qed

sublocale wc: work_conserving "mach_body pick" mach_jobs now mach_inv
proof
  fix s :: "'z mach_scheme" assume "mach_inv s"
  show "\<exists>b s'. mach_body pick s = Inr (b, s')" unfolding mach_body_def Let_def by (simp split: if_split) blast
next
  fix s s' :: "'z mach_scheme" assume inv: "mach_inv s" and "mach_body pick s = Inr (True, s')"
  then have "unfinished (left s) = 0"
    by (auto simp: mach_body_break_iff mach_inv_def)
  with inv show "work (mach_jobs s) = 0" by (simp add: mach_work_zero mach_inv_def)
next
  fix s s' :: "'z mach_scheme" assume inv: "mach_inv s" and go: "mach_body pick s = Inr (False, s')"
  have nb: "\<not> (ending s \<and> Suc (length (log s)) = length (arr s))"
    using go mach_body_break_iff [of pick s "mach_check s"] by auto
  then have s': "s' = mach_tick (pick (mach_check s))" using go mach_body_go [OF nb, of pick] by simp
  have "mach_inv s' \<and> now s' = now s + 1 \<and> served (now s) (mach_jobs s) (mach_jobs s')"
    using tick_inv [OF pick_inv [OF check_inv [OF inv nb]]] by (simp add: s' pick_keeps check_keeps)
  moreover have "unfinished (left s) \<noteq> 0"
    using inv nb by (auto simp: mach_inv_def split: if_splits)
  then have "0 < work (mach_jobs s)"
    using inv mach_work_zero [of "left s" "arr s"] mach_work_nonneg [of "left s" "arr s"]
    by (auto simp: mach_inv_def order.strict_iff_order)
  ultimately show "mach_inv s' \<and> 0 < work (mach_jobs s) \<and> now s' = now s + 1 \<and>
      served (now s) (mach_jobs s) (mach_jobs s')" by blast
next
  fix s :: "'z mach_scheme" and j assume "mach_inv s" and "j \<in> set (mach_jobs s)"
  then show "0 \<le> snd j" by (cases j) (auto simp: mach_inv_def dest: set_zip_rightD)
qed

text \<open>Idle rounds up to the next arrival.\<close>

lemma idle_rounds:
  assumes "mach_inv a" and "cur a = None"
    and "\<forall>i<length (arr a). arr a ! i < now a + int d \<longrightarrow> left a ! i = 0"
  shows "run_loop (mach_body pick) a = run_loop (mach_body pick) (a\<lparr>now := now a + int d\<rparr>)"
  using assms
proof (induction d arbitrary: a)
  case (Suc d)
  let ?b = "a\<lparr>now := now a + 1\<rparr>"
  have "nobody a" using Suc.prems(3) by auto
  then have "mach_body pick a = Inr (False, ?b)"
    using Suc.prems pick_nobody [of a] by (simp add: mach_body_go ending_def mach_check_def mach_tick_def)
  then have "run_loop (mach_body pick) a = run_loop (mach_body pick) ?b" by (rule run_loop_next)
  also have "\<dots> = run_loop (mach_body pick) (?b\<lparr>now := now ?b + int d\<rparr>)"
    using Suc.prems by (intro Suc.IH) (auto simp: mach_inv_def ending_def)
  finally show ?case by (simp add: algebra_simps)
qed simp

text \<open>Rounds in which the policy leaves the running job alone.\<close>

lemma serve_rounds:
  assumes "mach_inv a" and "cur a = Some i" and "int d \<le> left a ! i"
    and "\<forall>k<d. pick (advance (int k) i a) = advance (int k) i a"
  shows "run_loop (mach_body pick) a = run_loop (mach_body pick) (advance (int d) i a) \<and>
    mach_inv (advance (int d) i a)"
  using assms(3,4)
proof (induction d)
  case 0
  then show ?case using assms(1) by simp
next
  case (Suc d)
  let ?b = "advance (int d) i a"
  have i: "i < length (left a)" using assms(1,2) by (auto simp: mach_inv_def)
  have nb: "\<not> ending ?b" using assms(2) Suc.prems(1) i by (simp add: ending_def)
  then have step: "mach_body pick ?b = Inr (False, advance 1 i ?b)"
    using assms(2) Suc.prems i by (simp add: mach_body_go mach_check_def tick_advance)
  have "mach_inv (advance 1 i ?b)"
    using tick_inv [of ?b] Suc nb assms(2) by (simp add: tick_advance)
  moreover have "run_loop (mach_body pick) ?b = run_loop (mach_body pick) (advance 1 i ?b)"
    using step by (rule run_loop_next)
  ultimately show ?case using Suc i by (simp add: advance_add algebra_simps)
qed

text \<open>The notes are kept.\<close>

lemma pick_noted:
  assumes "mach_noted a" and "mach_inv a" and "\<not> ending a"
  shows "mach_noted (pick a)"
  using assms(1) logged_log [OF assms(3)] logged_log [OF pick_inv(2) [OF assms(2,3)]]
  by (simp add: mach_noted_def pick_keeps)

lemma body_noted:
  assumes "mach_inv a" and "mach_noted a" and "mach_body pick a = Inr (False, b)"
  shows "mach_noted b"
proof -
  have nb: "\<not> (ending a \<and> Suc (length (log a)) = length (arr a))"
    using assms(3) mach_body_break_iff [of pick a "mach_check a"] by auto
  then have "b = mach_tick (pick (mach_check a))" using assms(3) mach_body_go [OF nb, of pick] by simp
  with check_inv [OF assms(1) nb] show ?thesis
    using tick_noted pick_noted check_noted [OF assms(2)] pick_inv by blast
qed

text \<open>The end of a job.\<close>

lemma complete_round:
  assumes "mach_inv a" and "ending a"
  shows "(if Suc (length (log a)) = length (arr a) then run_loop (mach_body pick) a = Some (Inr (mach_check a))
    else run_loop (mach_body pick) a = run_loop (mach_body pick) (mach_check a) \<and>
      mach_inv (mach_check a) \<and> \<not> ending (mach_check a))"
proof (cases "Suc (length (log a)) = length (arr a)")
  case True
  then have "mach_body pick a = Inr (True, mach_check a)"
    using assms(2) by (simp add: mach_body_break_iff)
  with True show ?thesis by (simp add: run_loop_break)
next
  case False
  then have nb: "\<not> (ending a \<and> Suc (length (log a)) = length (arr a))" by simp
  have "run_loop (mach_body pick) (mach_check a) = run_loop (mach_body pick) a"
    by (rule run_loop_body_cong [OF mach_body_check [OF nb]])
  with False check_inv [OF assms(1) nb] show ?thesis by simp
qed

end

section \<open>The plan: from one decision to the next\<close>

definition next_start :: "int list \<Rightarrow> int list \<Rightarrow> int \<Rightarrow> int" where
  "next_start as l t =
     max t (Min (set (map (\<lambda>i. as ! i) (filter (\<lambda>i. l ! i \<noteq> 0) [0..<length as]))))"

text \<open>No unfinished job has arrived before the next start, and one has at it.\<close>

lemma next_start_props:
  assumes "length l = length as" and "unfinished l \<noteq> 0"
  shows "t \<le> next_start as l t"
    and "\<And>i. i < length as \<Longrightarrow> as ! i < next_start as l t \<Longrightarrow> t < next_start as l t \<Longrightarrow> l ! i = 0"
    and "\<exists>i<length as. as ! i \<le> next_start as l t \<and> l ! i \<noteq> 0"
proof -
  let ?A = "(\<lambda>i. as ! i) ` {i. i < length as \<and> l ! i \<noteq> 0}"
  have start: "next_start as l t = max t (Min ?A)"
    unfolding next_start_def by (rule arg_cong [where f = "\<lambda>A. max t (Min A)"]) auto
  have fin: "finite ?A" by simp
  obtain j where j: "j < length as" "l ! j \<noteq> 0"
    using assms by (auto simp: unfinished_zero in_set_conv_nth)
  then have "Min ?A \<in> ?A" using fin by (intro Min_in) auto
  then obtain m where m: "m < length as" "l ! m \<noteq> 0" "as ! m = Min ?A" by auto
  show "t \<le> next_start as l t" by (simp add: start)
  show "l ! i = 0" if "i < length as" "as ! i < next_start as l t" "t < next_start as l t" for i
  proof (rule ccontr)
    assume "l ! i \<noteq> 0"
    with that(1) have "Min ?A \<le> as ! i" using fin by (intro Min_le) auto
    with that start show False by (simp add: max_def split: if_splits)
  qed
  show "\<exists>i<length as. as ! i \<le> next_start as l t \<and> l ! i \<noteq> 0" using m by (auto simp: start)
qed

lemma next_start_now:
  assumes "length l = length as" and "i < length as" and "as ! i \<le> t" and "l ! i \<noteq> 0"
  shows "next_start as l t = t"
proof -
  let ?A = "set (map (\<lambda>i. as ! i) (filter (\<lambda>i. l ! i \<noteq> 0) [0..<length as]))"
  have "Min ?A \<le> as ! i" using assms by (intro Min_le) auto
  with assms(3) show ?thesis by (simp add: next_start_def)
qed

text \<open>
  \<open>turn as l t c\<close> is whose turn it is at time \<open>t\<close> when \<open>c\<close> ran before, and \<open>slice as l t i\<close> how long
  job \<open>i\<close> then runs.
\<close>

function plan :: "(int list \<Rightarrow> int list \<Rightarrow> int \<Rightarrow> nat option \<Rightarrow> nat option) \<Rightarrow>
    (int list \<Rightarrow> int list \<Rightarrow> int \<Rightarrow> nat \<Rightarrow> int) \<Rightarrow> int list \<Rightarrow> string list \<Rightarrow>
    int list \<Rightarrow> nat option \<Rightarrow> int \<Rightarrow> (string \<times> int) list" where
  "plan turn slice as ns l c t =
     (if list_all (\<lambda>x. x = 0) l then []
      else let u = (if c = None then next_start as l t else t) in
        case turn as l u c of
          None \<Rightarrow> []
        | Some i \<Rightarrow> (let m = slice as l u i in
            if i < length l \<and> 0 < m \<and> m \<le> l ! i then
              (if m = l ! i then (ns ! i, u + m) # plan turn slice as ns (l[i := 0]) None (u + m)
               else plan turn slice as ns (l[i := l ! i - m]) (Some i) (u + m))
            else []))"
  by pat_completeness auto

lemma plan_decreases:
  fixes l :: "int list"
  assumes "i < length l" and "0 < m" and "m \<le> l ! i"
  shows "sum_list (map nat (l[i := l ! i - m])) < sum_list (map nat l)"
proof -
  have "nat (l ! i) \<le> sum_list (map nat l)" using elem_le_sum_list [of i "map nat l"] assms(1) by simp
  moreover have "sum_list ((map nat l)[i := nat (l ! i - m)]) =
      sum_list (map nat l) + nat (l ! i - m) - nat (l ! i)"
    using sum_list_update [of i "map nat l"] assms(1) by simp
  moreover have "nat (l ! i - m) < nat (l ! i)" using assms(2,3) by simp
  ultimately show ?thesis unfolding map_update by linarith
qed

termination plan
proof (relation "measure (\<lambda>(turn, slice, as, ns, l, c, t). sum_list (map nat l))", goal_cases)
  case (2 turn slice as ns l c t u i m)
  then show ?case using plan_decreases [of i l m] by simp
next
  case (3 turn slice as ns l c t u i m)
  then show ?case using plan_decreases [of i l m] by simp
qed simp

declare plan.simps [simp del]

text \<open>Everything that is planned lies in the future.\<close>

lemma next_start_ge: "t \<le> next_start as l t"
  by (simp add: next_start_def)

lemma plan_later: "e \<in> set (plan turn slice as ns l c t) \<Longrightarrow> t < snd e"
proof (induction turn slice as ns l c t rule: plan.induct)
  case (1 turn slice as ns l c t)
  define u where "u = (if c = None then next_start as l t else t)"
  have u: "t \<le> u" using next_start_ge by (simp add: u_def)
  show ?case
  proof (cases "turn as l u c")
    case (Some i)
    define m where "m = slice as l u i"
    from "1.prems" Some have ok: "\<not> list_all (\<lambda>x. x = 0) l" "i < length l \<and> 0 < m \<and> m \<le> l ! i"
      by (subst (asm) plan.simps; simp add: Let_def flip: u_def m_def split: if_splits)+
    note IH = "1.IH" [OF ok(1) u_def Some m_def ok(2)]
    show ?thesis
    proof (cases "m = l ! i")
      case True
      with "1.prems" Some ok have "e = (ns ! i, u + m) \<or> e \<in> set (plan turn slice as ns (l[i := 0]) None (u + m))"
        by (subst (asm) plan.simps) (simp add: Let_def flip: u_def m_def)
      with IH(1) [OF True] u ok(2) show ?thesis by auto
    next
      case False
      with "1.prems" Some ok have "e \<in> set (plan turn slice as ns (l[i := l ! i - m]) (Some i) (u + m))"
        by (subst (asm) plan.simps) (simp add: Let_def flip: u_def m_def)
      with IH(2) [OF False] u ok(2) show ?thesis by auto
    qed
  qed (use "1.prems" in \<open>subst (asm) plan.simps; simp add: Let_def flip: u_def split: if_splits\<close>)
qed

locale sliced = machine pick for pick :: "'z mach_scheme \<Rightarrow> 'z mach_scheme" +
  fixes turn :: "int list \<Rightarrow> int list \<Rightarrow> int \<Rightarrow> nat option \<Rightarrow> nat option"
    and slice :: "int list \<Rightarrow> int list \<Rightarrow> int \<Rightarrow> nat \<Rightarrow> int"
    and edge :: "'z mach_scheme \<Rightarrow> bool"
  assumes edge_None: "cur a = None \<Longrightarrow> edge a"
    and edge_turn: "mach_inv a \<Longrightarrow> \<not> ending a \<Longrightarrow> edge a \<Longrightarrow>
      cur (pick a) = turn (arr a) (left a) (now a) (cur a)"
    and slice_bounds: "mach_inv a \<Longrightarrow> \<not> ending a \<Longrightarrow> edge a \<Longrightarrow> cur (pick a) = Some i \<Longrightarrow>
      0 < slice (arr a) (left a) (now a) i \<and> slice (arr a) (left a) (now a) i \<le> left a ! i"
    and slice_keeps: "mach_inv a \<Longrightarrow> \<not> ending a \<Longrightarrow> edge a \<Longrightarrow> cur (pick a) = Some i \<Longrightarrow>
      0 < k \<Longrightarrow> k < slice (arr a) (left a) (now a) i \<Longrightarrow>
      pick (advance k i (pick a)) = advance k i (pick a)"
    and slice_edge: "mach_inv a \<Longrightarrow> \<not> ending a \<Longrightarrow> edge a \<Longrightarrow> cur (pick a) = Some i \<Longrightarrow>
      slice (arr a) (left a) (now a) i < left a ! i \<Longrightarrow>
      edge (advance (slice (arr a) (left a) (now a) i) i (pick a))"
begin

lemma slice_rounds:
  assumes "mach_inv a" and "\<not> ending a" and "edge a" and "cur (pick a) = Some i"
    and "m = slice (arr a) (left a) (now a) i"
  shows "run_loop (mach_body pick) a = run_loop (mach_body pick) (advance m i (pick a)) \<and>
    mach_inv (advance m i (pick a))"
proof -
  let ?p = "pick a" and ?d = "nat (m - 1)"
  have m: "0 < m" "m \<le> left a ! i" using slice_bounds [OF assms(1-4)] assms(5) by auto
  note pi = pick_inv [OF assms(1,2)]
  have i: "i < length (left ?p)" using pick_pos(1) [OF assms(1,2,4)] by (simp add: pick_keeps)
  have step: "mach_body pick a = Inr (False, advance 1 i ?p)"
    using assms(2,4) by (cases a rule: mach_check_cases) (simp_all add: mach_body_go tick_advance)
  have inv1: "mach_inv (advance 1 i ?p)"
    using tick_inv [OF pi] assms(4) by (simp add: tick_advance)
  have still: "\<forall>k<?d. pick (advance (int k) i (advance 1 i ?p)) = advance (int k) i (advance 1 i ?p)"
  proof (intro allI impI)
    fix k assume "k < ?d"
    then have "pick (advance (1 + int k) i ?p) = advance (1 + int k) i ?p"
      using assms(5) by (intro slice_keeps [OF assms(1-4)]) auto
    then show "pick (advance (int k) i (advance 1 i ?p)) = advance (int k) i (advance 1 i ?p)"
      using i by (simp add: advance_add)
  qed
  have "int ?d \<le> left (advance 1 i ?p) ! i" using m i by (simp add: pick_keeps)
  with inv1 assms(4) still have "run_loop (mach_body pick) (advance 1 i ?p) =
      run_loop (mach_body pick) (advance (int ?d) i (advance 1 i ?p)) \<and> mach_inv (advance (int ?d) i (advance 1 i ?p))"
    by (intro serve_rounds) simp_all
  moreover have "run_loop (mach_body pick) a = run_loop (mach_body pick) (advance 1 i ?p)"
    using step by (rule run_loop_next)
  ultimately show ?thesis using m i by (simp add: advance_add)
qed

text \<open>The machine follows the plan.\<close>

lemma follows_plan:
  assumes "mach_inv a" and "\<not> ending a" and "edge a"
  shows "\<exists>b. run_loop (mach_body pick) a = Some (Inr b) \<and>
    log b = log a @ plan turn slice (arr a) (nm a) (left a) (cur a) (now a) \<and> now b = snd (last (log b))"
  using assms
proof (induction "sum_list (map nat (left a))" arbitrary: a rule: less_induct)
  case less
  define u where "u = (if cur a = None then next_start (arr a) (left a) (now a) else now a)"
  define a1 where "a1 = a\<lparr>now := u\<rparr>"
  have len: "length (left a) = length (arr a)" using less.prems(1) by (simp add: mach_inv_def)
  note start = next_start_props [OF len ending_unfinished [OF less.prems(1,2)], where t = "now a"]
  have a1: "mach_inv a1" "\<not> ending a1" "edge a1"
  proof -
    have "edge a1"
    proof (cases "cur a")
      case None
      then show ?thesis using edge_None [of a1] by (simp add: a1_def)
    next
      case (Some i)
      then have "a1 = a" by (simp add: a1_def u_def)
      with less.prems(3) show ?thesis by simp
    qed
    then show "edge a1" .
    show "mach_inv a1" "\<not> ending a1"
      using less.prems(1,2) start(1) by (cases "cur a"; simp add: a1_def u_def mach_inv_def ending_def)+
  qed
  have run1: "run_loop (mach_body pick) a = run_loop (mach_body pick) a1"
  proof (cases "now a < u")
    case True
    then have "cur a = None" "\<forall>i<length (arr a). arr a ! i < now a + int (nat (u - now a)) \<longrightarrow> left a ! i = 0"
      using start(2) by (auto simp: u_def split: if_splits)
    from idle_rounds [OF less.prems(1) this] True show ?thesis by (simp add: a1_def)
  next
    case False
    then have "u = now a" using start(1) by (cases "cur a") (simp_all add: u_def)
    then have "a1 = a" by (simp add: a1_def)
    then show ?thesis by simp
  qed
  obtain i where i: "cur (pick a1) = Some i"
  proof (cases "cur (pick a1)")
    case None
    with pick_None [OF a1(1,2)] start(3) less.prems(1,2) have False
      by (cases "cur a") (auto simp: a1_def u_def mach_inv_def ending_def)
    then show ?thesis ..
  qed blast
  have turn: "turn (arr a) (left a) u (cur a) = Some i"
    using edge_turn [OF a1] i by (simp add: a1_def)
  define m where "m = slice (arr a) (left a) u i"
  define a2 where "a2 = advance m i (pick a1)"
  have m: "0 < m" "m \<le> left a ! i" "i < length (left a)"
    using slice_bounds [OF a1 i] pick_pos(1) [OF a1(1,2) i] by (auto simp: a1_def m_def)
  have run2: "run_loop (mach_body pick) a = run_loop (mach_body pick) a2" and a2: "mach_inv a2"
    using slice_rounds [OF a1 i, of m] run1 by (auto simp: a2_def m_def a1_def)
  have f2: "arr a2 = arr a" "nm a2 = nm a" "left a2 = (left a)[i := left a ! i - m]" "cur a2 = Some i"
    "now a2 = u + m" "log a2 = log a"
    using i by (auto simp: a2_def pick_keeps a1_def)
  have nz: "\<not> list_all (\<lambda>x. x = 0) (left a)" using m by (auto simp: list_all_length)
  have less2: "sum_list (map nat (left a2)) < sum_list (map nat (left a))"
    unfolding f2(3) by (rule plan_decreases [OF m(3,1,2)])
  show ?case
  proof (cases "m = left a ! i")
    case False
    then have "plan turn slice (arr a) (nm a) (left a) (cur a) (now a) =
        plan turn slice (arr a) (nm a) (left a2) (Some i) (now a2)"
      using nz turn m f2 by (subst plan.simps) (simp add: Let_def flip: u_def m_def)
    moreover have "\<not> ending a2" using f2 m False by (simp add: ending_def)
    moreover have "edge a2" using slice_edge [OF a1 i] m False by (simp add: a2_def a1_def m_def)
    ultimately show ?thesis using less.hyps [OF less2 a2] run2 f2 by simp
  next
    case True
    let ?a3 = "mach_check a2"
    have e2: "ending a2" using f2 m True by (simp add: ending_def)
    have a3: "arr ?a3 = arr a" "nm ?a3 = nm a" "left ?a3 = (left a)[i := 0]" "cur ?a3 = None"
      "now ?a3 = u + m" "log ?a3 = log a @ [(nm a ! i, u + m)]"
      using f2 m True by (auto simp: mach_check_def)
    have p: "plan turn slice (arr a) (nm a) (left a) (cur a) (now a) =
        (nm a ! i, u + m) # plan turn slice (arr a) (nm a) ((left a)[i := 0]) None (u + m)"
      using nz turn m True by (subst plan.simps) (simp add: Let_def flip: u_def m_def)
    show ?thesis
    proof (cases "Suc (length (log a2)) = length (arr a2)")
      case True
      then have "unfinished (left a2) = 0" using a2 e2 by (auto simp: mach_inv_def)
      then have "plan turn slice (arr a) (nm a) ((left a)[i := 0]) None (u + m) = []"
        using a3(3) by (subst plan.simps) (simp add: unfinished_zero list_all_iff check_keeps)
      with True complete_round [OF a2 e2] run2 p a3 show ?thesis by simp
    next
      case False
      with complete_round [OF a2 e2] have c: "run_loop (mach_body pick) a2 = run_loop (mach_body pick) ?a3"
        "mach_inv ?a3" "\<not> ending ?a3" by simp_all
      have "sum_list (map nat (left ?a3)) < sum_list (map nat (left a))" using less2 by (simp add: check_keeps)
      from less.hyps [OF this c(2,3) edge_None] c(1) run2 p a3 show ?thesis by simp
    qed
  qed
qed

text \<open>From any state on, the completions so far are followed by later ones.\<close>

lemma later_completions:
  assumes "mach_inv a" and "edge a"
  shows "\<exists>b rest. run_loop (mach_body pick) a = Some (Inr b) \<and> log b = logged a @ rest \<and>
    (\<forall>e\<in>set rest. now a < snd e)"
proof (cases "ending a")
  case False
  from follows_plan [OF assms(1) False assms(2)] plan_later logged_log [OF False] show ?thesis by metis
next
  case True
  note l = logged_check [of a] and c = complete_round [OF assms(1) True]
  have cn: "cur (mach_check a) = None" using True by (cases a rule: mach_check_cases) auto
  then have "logged (mach_check a) = log (mach_check a)" by (simp add: logged_def)
  with l have l: "log (mach_check a) = logged a" by simp
  show ?thesis
  proof (cases "Suc (length (log a)) = length (arr a)")
    case True
    with c l show ?thesis by auto
  next
    case False
    with c have f: "run_loop (mach_body pick) a = run_loop (mach_body pick) (mach_check a)"
      "mach_inv (mach_check a)" "\<not> ending (mach_check a)" by auto
    from follows_plan [OF f(2,3) edge_None [OF cn]] plan_later f(1) l show ?thesis
      by (metis check_keeps(4))
  qed
qed

end

end
