(* ===== verification/Nonpreemptive.thy ===== *)
theory Nonpreemptive
  imports Machine
begin

text \<open>
  The machine of \<open>Machine\<close> without preemption: a policy only contributes the choice of the next job
  when none runs (locale \<open>np_choice\<close>). Its plan jumps from one completion to the next. FIFO and SJF
  refine this machine with their own choices.
\<close>

definition np_pick :: "(int list \<Rightarrow> int list \<Rightarrow> int \<Rightarrow> nat option) \<Rightarrow> mach \<Rightarrow> mach" where
  "np_pick sel a = (case cur a of
     None \<Rightarrow> a\<lparr>cur := sel (arr a) (left a) (now a)\<rparr>
   | Some _ \<Rightarrow> a)"

abbreviation np_body :: "(int list \<Rightarrow> int list \<Rightarrow> int \<Rightarrow> nat option) \<Rightarrow> mach \<Rightarrow> (bool \<times> mach) res" where
  "np_body sel \<equiv> mach_body (np_pick sel)"

primrec np_plan :: "(int list \<Rightarrow> int list \<Rightarrow> int \<Rightarrow> nat option) \<Rightarrow> int list \<Rightarrow> string list \<Rightarrow>
    nat \<Rightarrow> int list \<Rightarrow> int \<Rightarrow> (string \<times> int) list" where
  "np_plan sel as ns 0 l t = []"
| "np_plan sel as ns (Suc k) l t =
     (let u = next_start as l t in
      case sel as l u of
        None \<Rightarrow> []
      | Some i \<Rightarrow> (ns ! i, u + l ! i) # np_plan sel as ns k (l[i := 0]) (u + l ! i))"

definition np_turn :: "(int list \<Rightarrow> int list \<Rightarrow> int \<Rightarrow> nat option) \<Rightarrow>
    int list \<Rightarrow> int list \<Rightarrow> int \<Rightarrow> nat option \<Rightarrow> nat option" where
  "np_turn sel as l t c = (case c of None \<Rightarrow> sel as l t | Some i \<Rightarrow> Some i)"

locale np_choice =
  fixes sel :: "int list \<Rightarrow> int list \<Rightarrow> int \<Rightarrow> nat option"
  assumes sel_None: "length l = length as \<Longrightarrow>
      sel as l t = None \<longleftrightarrow> (\<forall>i<length as. as ! i \<le> t \<longrightarrow> l ! i = 0)"
    and sel_Some: "length l = length as \<Longrightarrow> sel as l t = Some i \<Longrightarrow>
      i < length as \<and> as ! i \<le> t \<and> l ! i \<noteq> 0"
begin

sublocale sliced "np_pick sel" "np_turn sel" "\<lambda>as l t i. l ! i" "\<lambda>a. cur a = None"
proof
  fix a :: mach
  show "arr (np_pick sel a) = arr a" "nm (np_pick sel a) = nm a" "left (np_pick sel a) = left a"
    "now (np_pick sel a) = now a" "log (np_pick sel a) = log a"
    by (cases "cur a"; simp add: np_pick_def)+
  show "nobody a" if "mach_inv a" "cur (np_pick sel a) = None"
    using that sel_None [of "left a" "arr a" "now a"]
    by (cases "cur a") (auto simp: np_pick_def mach_inv_def)
  show some: "i < length (arr a) \<and> arr a ! i \<le> now a \<and> left a ! i \<noteq> 0"
    if "mach_inv a" "\<not> ending a" "cur (np_pick sel a) = Some i" for i
    using that sel_Some [of "left a" "arr a" "now a"]
    by (cases "cur a") (auto simp: np_pick_def mach_inv_def ending_def)
  show "0 < left a ! i \<and> left a ! i \<le> left a ! i"
    if "mach_inv a" "\<not> ending a" "cur (np_pick sel a) = Some i" for i
  proof -
    have "i < length (left a)" "left a ! i \<noteq> 0" using some [OF that] that(1) by (auto simp: mach_inv_def)
    moreover from this(1) that(1) have "0 \<le> left a ! i" by (auto simp: mach_inv_def)
    ultimately show ?thesis by simp
  qed
  show "np_pick sel a = a" if "mach_inv a" "cur a = None" "nobody a"
    using that sel_None [of "left a" "arr a" "now a"] by (simp add: np_pick_def mach_inv_def)
qed (auto simp: np_pick_def np_turn_def split: option.splits)

text \<open>The plan in terms of the choice alone.\<close>

lemma plan_np_plan:
  assumes "length l = length as" and "\<forall>x\<in>set l. 0 \<le> x" and "unfinished l = int k"
  shows "plan (np_turn sel) (\<lambda>as l t i. l ! i) as ns l None t = np_plan sel as ns k l t"
  using assms
proof (induction k arbitrary: l t)
  case 0
  then show ?case by (subst plan.simps) (simp add: unfinished_zero list_all_iff)
next
  case (Suc k)
  let ?u = "next_start as l t"
  have nz: "unfinished l \<noteq> 0" using Suc.prems(3) by simp
  then obtain i where i: "sel as l ?u = Some i"
    using next_start_props(3) [OF Suc.prems(1) nz, of t] sel_None [OF Suc.prems(1)] by (metis not_None_eq)
  have im: "i < length l" "l ! i \<noteq> 0" using sel_Some [OF Suc.prems(1) i] Suc.prems(1) by auto
  then have pos: "0 < l ! i" using Suc.prems(2) nth_mem [of i l] by (metis order_le_less)
  have "plan (np_turn sel) (\<lambda>as l t i. l ! i) as ns (l[i := 0]) None (?u + l ! i) =
      np_plan sel as ns k (l[i := 0]) (?u + l ! i)"
    using Suc.prems im set_update_subset_insert [of l i 0]
    by (intro Suc.IH) (auto simp: unfinished_update)
  moreover have "\<not> list_all (\<lambda>x. x = 0) l" using im by (auto simp: list_all_length)
  ultimately show ?case using i im pos by (subst plan.simps) (simp add: np_turn_def Let_def)
qed

lemma follows_np_plan:
  assumes "mach_inv a" and "cur a = None" and "unfinished (left a) = int k"
  shows "\<exists>b. run_loop (np_body sel) a = Some (Inr b) \<and>
    log b = log a @ np_plan sel (arr a) (nm a) k (left a) (now a) \<and> now b = snd (last (log b))"
proof -
  have "\<not> ending a" using assms(2) by (simp add: ending_def)
  moreover have "plan (np_turn sel) (\<lambda>as l t i. l ! i) (arr a) (nm a) (left a) None (now a) =
      np_plan sel (arr a) (nm a) k (left a) (now a)"
    using assms by (intro plan_np_plan) (auto simp: mach_inv_def)
  ultimately show ?thesis using follows_plan [OF assms(1)] assms(2) by simp
qed

end

end
