(* ===== verification/Makespan.thy ===== *)
theory Makespan
  imports Nonpreemptive
begin

text \<open>
  Workloads, the first-come-first-served plan in closed form, and the makespan: the time of the
  last completion, computed by going once through the processes in order of arrival. The
  non-preemptive machine with the arrival order follows the closed form, so the makespan is the
  time at which every work-conserving scheduler ends.
\<close>

abbreviation jobs_of :: "process list \<Rightarrow> job list" where
  "jobs_of ps \<equiv> map (\<lambda>p. (ready p, exec p)) ps"

text \<open>
  The inputs a scheduler is meant for: at least one process, ready times from 0 on, something to
  execute, and everything done before the \<open>int\<close> clock overflows.
\<close>

definition workload :: "process list \<Rightarrow> bool" where
  "workload ps \<longleftrightarrow> ps \<noteq> [] \<and> (\<forall>p\<in>set ps. 0 \<le> ready p \<and> 0 < exec p) \<and>
     horizon 0 (jobs_of ps) \<le> INT_MAX"

lemma workload_perm:
  assumes "mset ps = mset qs" and "workload ps"
  shows "workload qs"
proof -
  have "mset (jobs_of ps) = mset (jobs_of qs)" using assms(1) by simp
  then have "horizon 0 (jobs_of qs) = horizon 0 (jobs_of ps)"
    unfolding horizon_def using work_perm [of "jobs_of ps" "jobs_of qs"]
      last_arrival_perm [of "jobs_of ps" "jobs_of qs"] by simp
  moreover have "set ps = set qs" using assms(1) by (rule mset_eq_setD)
  then have "(qs = []) = (ps = [])" by (metis set_empty)
  ultimately show ?thesis using assms(2) \<open>set ps = set qs\<close> by (simp add: workload_def)
qed

fun fcfs_plan :: "int \<Rightarrow> process list \<Rightarrow> (string \<times> int) list" where
  "fcfs_plan t [] = []"
| "fcfs_plan t (p # ps) =
     (let f = max t (ready p) + exec p in (name p, f) # fcfs_plan f ps)"

fun finish_time :: "int \<Rightarrow> process list \<Rightarrow> int" where
  "finish_time t [] = t"
| "finish_time t (p # ps) = finish_time (max t (ready p) + exec p) ps"

definition makespan :: "process list \<Rightarrow> int" where
  "makespan ps = finish_time 0 (sort_key ready ps)"

lemma fcfs_plan_eq_Nil [simp]: "fcfs_plan t ps = [] \<longleftrightarrow> ps = []"
  by (cases ps) (auto simp: Let_def)

lemma fcfs_plan_last: "ps \<noteq> [] \<Longrightarrow> snd (last (fcfs_plan t ps)) = finish_time t ps"
proof (induction t ps rule: fcfs_plan.induct)
  case (2 t p ps)
  then show ?case by (cases "ps = []") (simp_all add: Let_def)
qed simp

lemma finish_time_mono: "\<forall>p\<in>set ps. 0 \<le> exec p \<Longrightarrow> t \<le> finish_time t ps"
proof (induction t ps rule: finish_time.induct)
  case (2 t p ps)
  then have "max t (ready p) + exec p \<le> finish_time t (p # ps)" and "0 \<le> exec p" by simp_all
  then show ?case by linarith
qed simp

section \<open>The arrival order as a choice\<close>

definition fcfs_choice :: "int list \<Rightarrow> int list \<Rightarrow> int \<Rightarrow> nat option" where
  "fcfs_choice as l t = best (\<lambda>i. as ! i \<le> t \<and> l ! i \<noteq> 0) (\<lambda>i. as ! i) (length as)"

interpretation fcfs: np_choice fcfs_choice
proof
  fix as l t i assume "length l = length as" and "fcfs_choice as l t = Some i"
  then show "i < length as \<and> as ! i \<le> t \<and> l ! i \<noteq> 0"
    by (auto simp: fcfs_choice_def dest!: best_Some)
qed (auto simp: fcfs_choice_def best_None)

text \<open>In a sorted array the next job is the first one with work left.\<close>

lemma sorted_first_unfinished:
  assumes "sorted (as :: int list)" "l ! i \<noteq> (0 :: int)" "\<forall>j<k. l ! j = 0" "i < length as"
  shows "as ! k \<le> as ! i"
  using assms by (metis not_less sorted_nth_mono)

lemma np_start_sorted:
  assumes "sorted as" "length l = length as" "k < length as" "l ! k \<noteq> 0" "\<forall>i<k. l ! i = 0"
  shows "next_start as l t = max t (as ! k)"
proof -
  have "Min ((\<lambda>i. as ! i) ` {i. i < length as \<and> l ! i \<noteq> 0}) = as ! k"
    using assms by (intro Min_eqI) (auto intro: sorted_first_unfinished)
  moreover have "set (map (\<lambda>i. as ! i) (filter (\<lambda>i. l ! i \<noteq> 0) [0..<length as]))
      = (\<lambda>i. as ! i) ` {i. i < length as \<and> l ! i \<noteq> 0}" by auto
  ultimately show ?thesis by (simp add: next_start_def)
qed

lemma fcfs_choice_sorted:
  assumes "sorted as" "length l = length as" "k < length as" "l ! k \<noteq> 0" "\<forall>i<k. l ! i = 0"
    and "as ! k \<le> t"
  shows "fcfs_choice as l t = Some k"
  unfolding fcfs_choice_def
  using assms by (intro best_SomeI) (auto intro: sorted_first_unfinished)

lemma fcfs_follows_plan:
  assumes "sorted (map ready ps)" and "k \<le> length ps" and "length l = length ps"
    and "\<forall>i<k. l ! i = 0" and "\<forall>i<length ps. k \<le> i \<longrightarrow> l ! i = exec (ps ! i) \<and> l ! i \<noteq> 0"
  shows "np_plan fcfs_choice (map ready ps) (map name ps) (length ps - k) l t = fcfs_plan t (drop k ps)"
  using assms(2-)
proof (induction "length ps - k" arbitrary: k l t)
  case 0
  then show ?case by simp
next
  case (Suc d)
  then have k: "k < length ps" and d: "length ps - k = Suc (length ps - Suc k)" by auto
  let ?u = "max t (ready (ps ! k))"
  have lk: "l ! k = exec (ps ! k)" "l ! k \<noteq> 0" using Suc.prems k by auto
  have start: "next_start (map ready ps) l t = ?u"
    using np_start_sorted [OF assms(1), of l k t] Suc.prems k lk by simp
  have pick: "fcfs_choice (map ready ps) l ?u = Some k"
    using fcfs_choice_sorted [OF assms(1), of l k ?u] Suc.prems k lk by simp
  have "np_plan fcfs_choice (map ready ps) (map name ps) (length ps - Suc k) (l[k := 0]) (?u + l ! k)
      = fcfs_plan (?u + l ! k) (drop (Suc k) ps)"
    using Suc.prems Suc.hyps(2) k
    by (intro Suc.hyps(1)) (auto simp: less_Suc_eq nth_list_update)
  moreover have "drop k ps = ps ! k # drop (Suc k) ps" using k by (rule Cons_nth_drop_Suc [symmetric])
  ultimately show ?case
    using start pick lk k by (simp add: d Let_def)
qed

definition np_init :: "process list \<Rightarrow> mach" where
  "np_init ps = \<lparr>arr = map ready ps, nm = map name ps, left = map exec ps,
     cur = None, now = 0, log = []\<rparr>"

lemma np_init_inv:
  assumes "workload ps"
  shows "mach_inv (np_init ps)" and "unfinished (left (np_init ps)) = int (length ps)"
proof -
  show "unfinished (left (np_init ps)) = int (length ps)"
    using assms unfinished_all [of "map exec ps"] by (fastforce simp: np_init_def workload_def)
  then show "mach_inv (np_init ps)"
    using assms by (fastforce simp: mach_inv_def np_init_def ending_def workload_def)
qed

lemma np_jobs_init: "mach_jobs (np_init ps) = jobs_of ps"
  by (simp add: np_init_def zip_map_map zip_same_conv_map)

lemma np_body_break_now: "np_body sel t = Inr (True, b) \<Longrightarrow> now b = now t \<and> left b = left t"
  by (cases t rule: mach_check_cases) (auto simp: mach_body_break_iff)

lemma fcfs_run_sorted:
  assumes "workload ps" and "sorted (map ready ps)"
  shows "\<exists>b. run_loop (np_body fcfs_choice) (np_init ps) = Some (Inr b) \<and> log b = fcfs_plan 0 ps \<and>
    now b = finish_time 0 ps \<and> unfinished (left b) = 0 \<and> 0 \<le> now b \<and>
    first_done (jobs_of ps) (nat (now b))"
proof -
  note inv = np_init_inv [OF assms(1)]
  from fcfs.follows_np_plan [OF inv(1) _ inv(2)] obtain b where
    b: "run_loop (np_body fcfs_choice) (np_init ps) = Some (Inr b)"
      "log b = np_plan fcfs_choice (map ready ps) (map name ps) (length ps) (map exec ps) 0"
      "now b = snd (last (log b))"
    by (auto simp: np_init_def)
  have "\<forall>i<length ps. exec (ps ! i) \<noteq> 0" using assms(1) unfolding workload_def by (metis less_irrefl nth_mem)
  then have log: "log b = fcfs_plan 0 ps"
    using fcfs_follows_plan [OF assms(2), of 0 "map exec ps" 0] b(2) by simp
  with b(3) assms(1) have now: "now b = finish_time 0 ps"
    by (simp add: fcfs_plan_last workload_def)
  from run_loop_returns [OF b(1)] obtain t where
    t: "reaches (np_body fcfs_choice) (np_init ps) t" "np_body fcfs_choice t = Inr (True, b)" by auto
  note tb = np_body_break_now [OF t(2)]
  have "mach_inv t" using fcfs.wc.reaches_I [OF t(1) inv(1)] .
  with t(2) have "unfinished (left t) = 0" by (auto simp: mach_body_break_iff mach_inv_def)
  moreover have "0 \<le> now t \<and> first_done (mach_jobs (np_init ps)) (nat (now t))"
    using fcfs.wc.leaves_first_done [OF inv(1) _ t] by (simp add: np_init_def)
  ultimately show ?thesis using b(1) log now tb by (simp add: np_jobs_init)
qed

lemma makespan_first_done:
  assumes "workload ps"
  shows "0 \<le> makespan ps" and "first_done (jobs_of ps) (nat (makespan ps))"
proof -
  let ?qs = "sort_key ready ps"
  have m: "mset ?qs = mset ps" by simp
  then have j: "mset (jobs_of ?qs) = mset (jobs_of ps)" by simp
  have "workload ?qs" using workload_perm [OF m [symmetric] assms] .
  then have "0 \<le> makespan ps \<and> first_done (jobs_of ?qs) (nat (makespan ps))"
    unfolding makespan_def using fcfs_run_sorted [of ?qs] by (metis sorted_sort_key)
  then show "0 \<le> makespan ps" and "first_done (jobs_of ps) (nat (makespan ps))"
    using first_done_perm [OF j] by blast+
qed

lemma makespan_unique:
  "workload ps \<Longrightarrow> 0 \<le> t \<Longrightarrow> first_done (jobs_of ps) (nat t) \<Longrightarrow> t = makespan ps"
  using makespan_first_done first_done_unique by (metis eq_nat_nat_iff)

lemma makespan_perm:
  assumes "mset ps = mset qs" and "workload ps"
  shows "makespan ps = makespan qs"
proof -
  have "mset (jobs_of ps) = mset (jobs_of qs)" using assms(1) by simp
  then have "first_done (jobs_of qs) (nat (makespan ps))"
    using makespan_first_done [OF assms(2)] first_done_perm by blast
  then show ?thesis
    using makespan_first_done(1) [OF assms(2)] workload_perm [OF assms]
    by (intro makespan_unique) auto
qed

text \<open>Any choice that keeps the contract: the machine follows its plan and ends at the makespan.\<close>

context np_choice
begin

lemma run_workload:
  assumes "workload ps"
  shows "\<exists>b. run_loop (np_body sel) (np_init ps) = Some (Inr b) \<and>
    log b = np_plan sel (map ready ps) (map name ps) (length ps) (map exec ps) 0 \<and>
    now b = makespan ps \<and> unfinished (left b) = 0"
proof -
  note inv = np_init_inv [OF assms]
  from follows_np_plan [OF inv(1) _ inv(2)] obtain b where
    b: "run_loop (np_body sel) (np_init ps) = Some (Inr b)"
      "log b = np_plan sel (map ready ps) (map name ps) (length ps) (map exec ps) 0"
    by (auto simp: np_init_def)
  from run_loop_returns [OF b(1)] obtain t where
    t: "reaches (np_body sel) (np_init ps) t" "np_body sel t = Inr (True, b)" by auto
  note tb = np_body_break_now [OF t(2)]
  have "mach_inv t" using wc.reaches_I [OF t(1) inv(1)] .
  with t(2) have "unfinished (left t) = 0" by (auto simp: mach_body_break_iff mach_inv_def)
  moreover have "0 \<le> now t \<and> first_done (mach_jobs (np_init ps)) (nat (now t))"
    using wc.leaves_first_done [OF inv(1) _ t] by (simp add: np_init_def)
  then have "now t = makespan ps" using assms by (intro makespan_unique) (auto simp: np_jobs_init)
  ultimately show ?thesis using b tb by auto
qed

end

lemma fcfs_run:
  assumes "workload ps" and "sorted (map ready ps)"
  shows "\<exists>b. run_loop (np_body fcfs_choice) (np_init ps) = Some (Inr b) \<and> log b = fcfs_plan 0 ps \<and>
    now b = makespan ps \<and> unfinished (left b) = 0"
  using fcfs_run_sorted [OF assms] makespan_unique [OF assms(1)] by metis

end
