(* ===== verification/Process_Table.thy ===== *)
theory Process_Table
  imports Os_Model Makespan
begin

text \<open>
  Facts about the process table and the trace that the loops share: which processes have a pid
  at a given time, what forking the processes whose time has come leaves unchanged, and the
  output of a run by format string.
\<close>

section \<open>Output by format\<close>

fun printed :: "string \<Rightarrow> trace \<Rightarrow> arg list list" where
  "printed f [] = []"
| "printed f (Printf g args # t) = (if g = f then printed f t @ [args] else printed f t)"
| "printed f (_ # t) = printed f t"

lemma printed_append: "printed f (xs @ ys) = printed f ys @ printed f xs"
proof (induction xs)
  case (Cons e xs)
  then show ?case by (cases e) auto
qed simp

lemma printed_other: "(\<And>x. x \<in> set es \<Longrightarrow> printed f [x] = []) \<Longrightarrow> printed f es = []"
proof (induction es)
  case (Cons e es)
  then show ?case using printed_append [of f "[e]" es] by simp
qed simp

text \<open>A message with a process name and a time.\<close>

fun name_time :: "arg list \<Rightarrow> string \<times> int" where
  "name_time [S n, D t] = (n, t)"
| "name_time _ = ([], 0)"

section \<open>Pids and ready times\<close>

definition live_before :: "int \<Rightarrow> process list \<Rightarrow> bool" where
  "live_before t ps \<longleftrightarrow> (\<forall>p\<in>set ps. pid p \<noteq> -1 \<longleftrightarrow> ready p < t)"

text \<open>The processes whose time has come get a pid, the others keep theirs.\<close>

definition spawned :: "int \<Rightarrow> process list \<Rightarrow> process list \<Rightarrow> bool" where
  "spawned t ps qs \<longleftrightarrow>
     list_all2 (\<lambda>p q. if ready p = t then \<exists>c>0. q = p\<lparr>pid := c\<rparr> else q = p) ps qs"

lemma spawned_Nil [simp]: "spawned t [] []"
  by (simp add: spawned_def)

lemma spawned_Cons:
  "spawned t ps qs \<Longrightarrow> (ready p = t \<and> 0 < c \<and> q = p\<lparr>pid := c\<rparr>) \<or> (ready p \<noteq> t \<and> q = p) \<Longrightarrow>
   spawned t (p # ps) (q # qs)"
  by (auto simp: spawned_def)

lemma spawned_fields:
  assumes "spawned t ps qs"
  shows "length qs = length ps" "map ready qs = map ready ps" "map name qs = map name ps"
    "map exec qs = map exec ps"
  using assms unfolding spawned_def by (induction rule: list_all2_induct) (auto split: if_splits)

lemma spawned_live:
  assumes "spawned t ps qs" and "live_before t ps"
  shows "live_before (t + 1) qs"
  using assms unfolding spawned_def live_before_def
  by (induction rule: list_all2_induct) (force split: if_splits)+

lemma live_before_update:
  assumes "live_before t ps" and "i < length ps"
  shows "live_before t (ps[i := (ps ! i)\<lparr>exec := e\<rparr>])"
  unfolding live_before_def
proof
  fix p assume "p \<in> set (ps[i := (ps ! i)\<lparr>exec := e\<rparr>])"
  then have "p = (ps ! i)\<lparr>exec := e\<rparr> \<or> p \<in> set ps"
    using set_update_subset_insert [of ps i] by blast
  then show "pid p \<noteq> -1 \<longleftrightarrow> ready p < t"
    using assms nth_mem [of i ps] by (auto simp: live_before_def)
qed

lemma live_before_nth: "live_before t ps \<Longrightarrow> i < length ps \<Longrightarrow> pid (ps ! i) \<noteq> -1 \<longleftrightarrow> ready (ps ! i) < t"
  by (simp add: live_before_def)

text \<open>A process that can run: it has been started and has work left.\<close>

definition eligible :: "process \<Rightarrow> bool" where
  "eligible p \<longleftrightarrow> pid p \<noteq> -1 \<and> exec p \<noteq> 0"

lemma eligible_iff:
  assumes "live_before (t + 1) ps" and "i < length ps"
  shows "eligible (ps ! i) \<longleftrightarrow> ready (ps ! i) \<le> t \<and> exec (ps ! i) \<noteq> 0"
  using live_before_nth [OF assms] by (auto simp: eligible_def)

lemma reset_live:
  "\<forall>p\<in>set ps. 0 \<le> ready p \<Longrightarrow> live_before 0 (map (\<lambda>p. p\<lparr>pid := -1\<rparr>) ps)"
  by (auto simp: live_before_def)

lemma jobs_of_zip: "jobs_of ps = zip (map ready ps) (map exec ps)"
  by (simp add: zip_map_map zip_same_conv_map)

lemma jobs_of_update:
  "i < length ps \<Longrightarrow>
   jobs_of (ps[i := (ps ! i)\<lparr>exec := e\<rparr>]) = (jobs_of ps)[i := (ready (ps ! i), e)]"
  by (simp add: map_update)

lemma map_update_same:
  "i < length xs \<Longrightarrow> f y = f (xs ! i) \<Longrightarrow> map f (xs[i := y]) = map f xs"
  by (simp add: map_update list_update_same_conv)

section \<open>Units of time spent\<close>

text \<open>Busy-waits of \<open>k\<close> rounds; a unit is ten times longer in PSJF than in the other schedulers.\<close>

fun units :: "int \<Rightarrow> trace \<Rightarrow> int" where
  "units k [] = 0"
| "units k (Spin i # t) = (if i = k then 1 else 0) + units k t"
| "units k (_ # t) = units k t"

section \<open>Reads outside the table\<close>

fun oob_reads :: "trace \<Rightarrow> nat" where
  "oob_reads [] = 0"
| "oob_reads (Oob_Read i # t) = Suc (oob_reads t)"
| "oob_reads (_ # t) = oob_reads t"

lemma oob_reads_append: "oob_reads (xs @ ys) = oob_reads xs + oob_reads ys"
proof (induction xs)
  case (Cons e xs)
  then show ?case by (cases e) auto
qed simp

lemma oob_reads_map_Printf [simp]: "oob_reads (map (\<lambda>p. Printf f (g p)) ps) = 0"
  by (induction ps) auto

section \<open>Spawning in any environment\<close>

text \<open>Whatever \<^verbatim>\<open>fork\<close> answers, only pids of processes whose time has come change.\<close>

definition respawned :: "int \<Rightarrow> process list \<Rightarrow> process list \<Rightarrow> bool" where
  "respawned t ps qs \<longleftrightarrow>
     list_all2 (\<lambda>p q. if ready p = t then \<exists>c. q = p\<lparr>pid := c\<rparr> else q = p) ps qs"

lemma respawned_Cons:
  "respawned t ps qs \<Longrightarrow> (ready p = t \<and> q = p\<lparr>pid := c\<rparr>) \<or> (ready p \<noteq> t \<and> q = p) \<Longrightarrow>
   respawned t (p # ps) (q # qs)"
  by (auto simp: respawned_def)

lemma respawned_nth:
  assumes "respawned t ps qs"
  shows "length qs = length ps"
    and "i < length ps \<Longrightarrow> ready (ps ! i) \<noteq> t \<Longrightarrow> qs ! i = ps ! i"
    and "i < length ps \<Longrightarrow> \<exists>c. qs ! i = (ps ! i)\<lparr>pid := c\<rparr>"
proof -
  show "length qs = length ps" using assms by (auto simp: respawned_def list_all2_lengthD)
  show "i < length ps \<Longrightarrow> ready (ps ! i) \<noteq> t \<Longrightarrow> qs ! i = ps ! i"
    using assms by (auto simp: respawned_def dest: list_all2_nthD)
  show "\<exists>c. qs ! i = (ps ! i)\<lparr>pid := c\<rparr>" if i: "i < length ps"
  proof (cases "ready (ps ! i) = t")
    case True
    with assms i show ?thesis by (auto simp: respawned_def dest: list_all2_nthD)
  next
    case False
    with assms i have "qs ! i = ps ! i" by (auto simp: respawned_def dest: list_all2_nthD)
    then show ?thesis by (intro exI [of _ "pid (ps ! i)"]) simp
  qed
qed

section \<open>The fork loop\<close>

text \<open>
  Every scheduler goes through the table and starts the processes whose ready time is now:
  \<open>for (i = 0; i < n; i++) if (proc[i].ready == tm) { \<dots> proc[i].pid = \<dots> }\<close>. What is done
  to start one process is the argument \<open>start\<close>.
\<close>

fun spawn_all :: "(process \<Rightarrow> trace \<Rightarrow> (process \<times> trace) res) \<Rightarrow> int \<Rightarrow> process list \<Rightarrow> trace \<Rightarrow>
    (process list \<times> trace) res" where
  "spawn_all start tm [] t = Inr ([], t)"
| "spawn_all start tm (p # ps) t =
     (if ready p = tm then
        bindr (start p t) (\<lambda>(q, t1).
          bindr (spawn_all start tm ps t1) (\<lambda>(qs, t2). Inr (q # qs, t2)))
      else bindr (spawn_all start tm ps t) (\<lambda>(qs, t2). Inr (p # qs, t2)))"

text \<open>What no start changes, the whole loop does not change.\<close>

lemma spawn_all_keeps:
  assumes "\<And>p t q t'. start p t = Inr (q, t') \<Longrightarrow> f t' = f t"
  shows "spawn_all start tm ps t = Inr (qs, t') \<Longrightarrow> f t' = f t"
  using assms by (induction ps arbitrary: t qs) (fastforce simp: bindr_eq_Inr split: if_splits)+

text \<open>
  The table and the kernel's view of it: pids of started processes are known and distinct, and of
  those with work left the running one is in class \<open>fg\<close> and all others are \<open>SCHED_IDLE\<close>.
\<close>

definition prio_inv :: "policy \<times> int \<Rightarrow> trace \<Rightarrow> process list \<Rightarrow> int \<Rightarrow> bool" where
  "prio_inv fg t ps run \<longleftrightarrow>
     (\<forall>i<length ps. run = int i \<longrightarrow> pid (ps ! i) \<noteq> -1) \<and>
     (\<forall>i<length ps. pid (ps ! i) \<noteq> -1 \<longrightarrow> pid (ps ! i) \<in> set (forked t) \<and>
        (exec (ps ! i) \<noteq> 0 \<longrightarrow>
          class_of t (pid (ps ! i)) = (if run = int i then fg else (SCHED_IDLE, 0)))) \<and>
     (\<forall>i<length ps. \<forall>j<length ps. i \<noteq> j \<longrightarrow> pid (ps ! i) \<noteq> -1 \<longrightarrow> pid (ps ! i) \<noteq> pid (ps ! j))"

text \<open>The contract of the code that starts one process, and what the fork loop makes of it.\<close>

locale starter =
  fixes start :: "os \<Rightarrow> int \<Rightarrow> process \<Rightarrow> trace \<Rightarrow> (process \<times> trace) res"
    and msg :: string
  assumes start_ok: "forks_ok E \<Longrightarrow> \<exists>c t'. start E tm p t = Inr (p\<lparr>pid := c\<rparr>, t') \<and> 0 < c"
    and start_any: "start E tm p t = Inr (q, t') \<Longrightarrow>
      (\<exists>c. q = p\<lparr>pid := c\<rparr>) \<and> printed msg t' = printed msg t \<and> oob_reads t' = oob_reads t"
    and start_prio: "forks_ok E \<Longrightarrow> prio_ok E \<Longrightarrow> start E tm p t = Inr (q, t') \<Longrightarrow>
      pid q = fork_ret E t \<and> set (forked t') = insert (pid q) (set (forked t)) \<and>
      (\<forall>r. class_of t' r = (if r = pid q then (SCHED_IDLE, 0) else class_of t r))"
begin

lemma spawn_any:
  "spawn_all (start E tm) time ps t = Inr (qs, t') \<Longrightarrow>
   respawned time ps qs \<and> printed msg t' = printed msg t \<and> oob_reads t' = oob_reads t"
proof (induction ps arbitrary: t qs)
  case Nil
  then show ?case by (simp add: respawned_def)
next
  case (Cons p ps)
  show ?case
  proof (cases "ready p = time")
    case True
    with Cons.prems obtain q t1 qs' where c: "start E tm p t = Inr (q, t1)"
      "spawn_all (start E tm) time ps t1 = Inr (qs', t')" "qs = q # qs'"
      by (auto simp: bindr_eq_Inr)
    from Cons.IH [OF c(2)] start_any [OF c(1)] c(3) True show ?thesis
      by (auto intro: respawned_Cons)
  next
    case False
    with Cons.prems obtain qs' where "spawn_all (start E tm) time ps t = Inr (qs', t')" "qs = p # qs'"
      by (auto simp: bindr_eq_Inr)
    with Cons.IH False show ?thesis by (auto intro: respawned_Cons)
  qed
qed

lemma spawn_ok:
  assumes "forks_ok E"
  shows "\<exists>qs t'. spawn_all (start E tm) time ps t = Inr (qs, t') \<and> spawned time ps qs"
proof (induction ps arbitrary: t)
  case (Cons p ps)
  show ?case
  proof (cases "ready p = time")
    case True
    obtain c t1 where c: "start E tm p t = Inr (p\<lparr>pid := c\<rparr>, t1)" "0 < c"
      using start_ok [OF assms] by blast
    obtain qs t' where "spawn_all (start E tm) time ps t1 = Inr (qs, t')" "spawned time ps qs"
      using Cons.IH by blast
    with True c show ?thesis by (auto intro: spawned_Cons)
  next
    case False
    obtain qs t' where "spawn_all (start E tm) time ps t = Inr (qs, t')" "spawned time ps qs"
      using Cons.IH by blast
    with False show ?thesis by (auto intro: spawned_Cons)
  qed
qed simp

lemma spawn_classes:
  assumes "forks_ok E" "prio_ok E" "fresh_pids E"
  shows "spawn_all (start E tm) time ps t = Inr (qs, t') \<Longrightarrow>
    set (forked t) \<subseteq> set (forked t') \<and>
    (stray_pid E \<notin> set (forked t) \<longrightarrow> stray_pid E \<notin> set (forked t')) \<and> (\<forall>q\<in>set (forked t). class_of t' q = class_of t q) \<and>
    (\<forall>q\<in>set qs. ready q = time \<longrightarrow> 0 < pid q \<and> pid q \<in> set (forked t') - set (forked t) \<and>
      class_of t' (pid q) = (SCHED_IDLE, 0)) \<and>
    sorted_wrt (\<lambda>a b. ready a = time \<longrightarrow> ready b = time \<longrightarrow> pid a \<noteq> pid b) qs"
proof (induction ps arbitrary: t qs)
  case (Cons p ps)
  show ?case
  proof (cases "ready p = time")
    case True
    with Cons.prems obtain q t1 qs' where c: "start E tm p t = Inr (q, t1)"
      "spawn_all (start E tm) time ps t1 = Inr (qs', t')" "qs = q # qs'"
      by (auto simp: bindr_eq_Inr)
    have pos: "0 < fork_ret E t" and new: "fork_ret E t \<notin> set (forked t)" "fork_ret E t \<noteq> stray_pid E"
      using assms by (auto simp: forks_ok_def fresh_pids_def)
    note q = start_prio [OF assms(1,2) c(1)]
    note IH = Cons.IH [OF c(2)]
    have "class_of t' (pid q) = (SCHED_IDLE, 0)" using IH q by simp
    moreover have "\<forall>r\<in>set (forked t). class_of t' r = class_of t r" using IH q new by auto
    ultimately show ?thesis using IH q pos new c(3) by auto
  next
    case False
    with Cons.prems obtain qs' where "spawn_all (start E tm) time ps t = Inr (qs', t')" "qs = p # qs'"
      by (auto simp: bindr_eq_Inr)
    with Cons.IH False show ?thesis by auto
  qed
qed simp

lemma spawn_prio:
  assumes E: "forks_ok E" "prio_ok E" "fresh_pids E"
    and sp: "spawn_all (start E tm) time ps t = Inr (qs, t')"
    and inv: "prio_inv fg t ps run" and live: "live_before time ps"
  shows "prio_inv fg t' qs run"
    and "stray_pid E \<notin> set (forked t) \<Longrightarrow> stray_pid E \<notin> set (forked t')"
proof -
  show "stray_pid E \<notin> set (forked t) \<Longrightarrow> stray_pid E \<notin> set (forked t')"
    using spawn_classes [OF E sp] by blast
  note C = spawn_classes [OF E sp]
  have re: "respawned time ps qs" using spawn_any [OF sp] by blast
  note len = respawned_nth(1) [OF re]
  have old: "qs ! i = ps ! i" if "i < length ps" "ready (qs ! i) \<noteq> time" for i
    using respawned_nth(2,3) [OF re that(1)] that(2) by (metis process.select_convs(2) process.surjective process.update_convs(5))
  have new: "pid (ps ! i) = -1" "exec (qs ! i) = exec (ps ! i)" "0 < pid (qs ! i)"
    "pid (qs ! i) \<in> set (forked t') - set (forked t)" "class_of t' (pid (qs ! i)) = (SCHED_IDLE, 0)"
    if "i < length ps" "ready (qs ! i) = time" for i
  proof -
    from respawned_nth(3) [OF re that(1)] obtain c where "qs ! i = (ps ! i)\<lparr>pid := c\<rparr>" by blast
    then show "pid (ps ! i) = -1" "exec (qs ! i) = exec (ps ! i)"
      using live_before_nth [OF live that(1)] that(2) by auto
    show "0 < pid (qs ! i)" "pid (qs ! i) \<in> set (forked t') - set (forked t)"
      "class_of t' (pid (qs ! i)) = (SCHED_IDLE, 0)"
      using C that len nth_mem [of i qs] by auto
  qed
  show "prio_inv fg t' qs run"
    unfolding prio_inv_def
  proof (intro conjI allI impI)
    fix i assume i: "i < length qs" "run = int i"
    then have "ready (qs ! i) \<noteq> time" using new(1) [of i] inv len by (auto simp: prio_inv_def)
    with i old [of i] inv len show "pid (qs ! i) \<noteq> -1" by (simp add: prio_inv_def)
  next
    fix i assume i: "i < length qs" "pid (qs ! i) \<noteq> -1"
    show "pid (qs ! i) \<in> set (forked t')"
      using i new [of i] old [of i] inv len C by (cases "ready (qs ! i) = time") (auto simp: prio_inv_def)
  next
    fix i assume i: "i < length qs" "pid (qs ! i) \<noteq> -1" "exec (qs ! i) \<noteq> 0"
    show "class_of t' (pid (qs ! i)) = (if run = int i then fg else (SCHED_IDLE, 0))"
    proof (cases "ready (qs ! i) = time")
      case True
      then have "run \<noteq> int i" using new(1) [of i] i inv len by (auto simp: prio_inv_def)
      with True new [of i] i len show ?thesis by simp
    next
      case False
      with old [of i] i inv len C show ?thesis by (auto simp: prio_inv_def)
    qed
  next
    fix i j assume ij: "i < length qs" "j < length qs" "i \<noteq> j" "pid (qs ! i) \<noteq> -1"
    show "pid (qs ! i) \<noteq> pid (qs ! j)"
    proof (cases "ready (qs ! i) = time \<and> ready (qs ! j) = time")
      case True
      have "pid (qs ! k) \<noteq> pid (qs ! l)"
        if "k < l" "l < length qs" "ready (qs ! k) = time" "ready (qs ! l) = time" for k l
        using C that by (simp add: sorted_wrt_iff_nth_less)
      from this [of i j] this [of j i] True ij show ?thesis by (cases "i < j") auto
    next
      case False
      have known: "pid (qs ! k) = -1 \<or> pid (qs ! k) \<in> set (forked t)"
        if "k < length ps" "ready (qs ! k) \<noteq> time" for k
        using that old [OF that] inv by (auto simp: prio_inv_def)
      consider "ready (qs ! i) = time" "ready (qs ! j) \<noteq> time"
        | "ready (qs ! i) \<noteq> time" "ready (qs ! j) = time"
        | "ready (qs ! i) \<noteq> time" "ready (qs ! j) \<noteq> time" using False by blast
      then show ?thesis
      proof cases
        case 1
        with new(3,4) [of i] known [of j] ij len show ?thesis by auto
      next
        case 2
        with new(3,4) [of j] known [of i] ij len show ?thesis by auto
      next
        case 3
        with old [of i] old [of j] ij inv len show ?thesis by (simp add: prio_inv_def)
      qed
    qed
  qed
qed

end

text \<open>Other processes' classes do not matter, and finished ones may be in any class.\<close>

lemma prio_inv_finished:
  "prio_inv fg t ps (int i) \<Longrightarrow> exec (ps ! i) = 0 \<Longrightarrow> prio_inv fg t ps (-1)"
  by (auto simp: prio_inv_def split: if_splits)

lemma prio_inv_unit:
  assumes "prio_inv fg t ps run" and "i < length ps" and "exec (ps ! i) \<noteq> 0"
  shows "prio_inv fg t (ps[i := (ps ! i)\<lparr>exec := e\<rparr>]) run"
  using assms unfolding prio_inv_def by (auto simp: nth_list_update)

text \<open>A switch from idle to \<open>i\<close>, and one from \<open>j\<close> to \<open>i\<close>.\<close>

lemma prio_inv_grant:
  assumes "prio_inv fg t ps (-1)" and "i < length ps" and "pid (ps ! i) \<noteq> -1"
    and "set (forked t') = set (forked t)"
    and "\<And>r. r \<in> set (forked t) \<Longrightarrow> class_of t' r = (if r = pid (ps ! i) then fg else class_of t r)"
  shows "prio_inv fg t' ps (int i)"
  using assms unfolding prio_inv_def by auto

lemma prio_inv_resume:
  assumes "prio_inv fg t ps (-1)" and "i < length ps" and "pid (ps ! i) \<noteq> -1"
    and "set (forked t') = set (forked t)" and "q \<notin> set (forked t)"
    and "\<And>r. class_of t' r = (if r = q then (SCHED_IDLE, 0) else if r = pid (ps ! i) then fg else class_of t r)"
  shows "prio_inv fg t' ps (int i)"
  using assms(1-4) by (rule prio_inv_grant) (use assms(5,6) in auto)

lemma prio_inv_switch:
  assumes "prio_inv fg t ps (int j)" and "i < length ps" "j < length ps" "i \<noteq> j" and "pid (ps ! i) \<noteq> -1"
    and "set (forked t') = set (forked t)"
    and "\<And>r. class_of t' r = (if r = pid (ps ! j) then (SCHED_IDLE, 0)
      else if r = pid (ps ! i) then fg else class_of t r)"
  shows "prio_inv fg t' ps (int i)"
proof -
  have "pid (ps ! k) \<noteq> pid (ps ! j)" if "k < length ps" "pid (ps ! k) \<noteq> -1" "k \<noteq> j" for k
    using assms(1,3) that by (auto simp: prio_inv_def)
  moreover have "pid (ps ! k) \<noteq> pid (ps ! i)" if "k < length ps" "pid (ps ! k) \<noteq> -1" "k \<noteq> i" for k
    using assms(1,2) that by (auto simp: prio_inv_def)
  ultimately show ?thesis using assms(1-6) unfolding prio_inv_def assms(7) by auto
qed

lemma prio_inv_reset:
  "prio_inv fg t (map (\<lambda>p. p\<lparr>pid := -1\<rparr>) ps) (-1)"
  by (simp add: prio_inv_def)

lemma prio_inv_trace:
  assumes "prio_inv fg t ps run" and "set (forked t') = set (forked t)"
    and "\<And>p. p \<in> set (forked t) \<Longrightarrow> class_of t' p = class_of t p"
  shows "prio_inv fg t' ps run"
  using assms by (simp add: prio_inv_def)

section \<open>Bounds\<close>

lemma workload_length:
  assumes "workload ps"
  shows "int (length ps) \<le> INT_MAX"
proof -
  have "int (length ps) \<le> work (jobs_of ps)"
  proof -
    have "\<forall>p\<in>set ps. 0 < exec p" using assms by (simp add: workload_def)
    then show ?thesis unfolding work_def by (induction ps) force+
  qed
  also have "\<dots> \<le> INT_MAX" using assms horizon_now [of 0 "jobs_of ps"] by (simp add: workload_def)
  finally show ?thesis .
qed

lemma workload_ready:
  assumes "workload ps" and "p \<in> set ps"
  shows "0 \<le> ready p \<and> ready p \<le> INT_MAX"
proof -
  have "0 \<le> work (jobs_of ps)" using assms(1) by (intro work_nonneg) (auto simp: workload_def)
  moreover have "ready p \<le> last_arrival (jobs_of ps)"
    using last_arrival_ge(1) [of "(ready p, exec p)" "jobs_of ps"] assms(2) by force
  ultimately show ?thesis using assms by (auto simp: workload_def horizon_def)
qed

section \<open>Sorting by difference\<close>

text \<open>
  SJF and RR compare ready times by subtracting them, which is a consistent order as long as no
  difference overflows.
\<close>

lemma qsort_difference:
  assumes "\<forall>p\<in>set ps. 0 \<le> ready p \<and> ready p \<le> INT_MAX" and "\<And>a b. f a b = c_int (ready a - ready b)"
  shows "run_qsort E f ps = Inr (qsort E (\<lambda>a b. projr (f a b)) ps)"
    and "key_compare ready ps (\<lambda>a b. projr (f a b))"
proof -
  have diff: "f a b = Inr (ready a - ready b)" if "a \<in> set ps" "b \<in> set ps" for a b
  proof -
    have "0 \<le> ready a" "ready a \<le> INT_MAX" "0 \<le> ready b" "ready b \<le> INT_MAX"
      using assms(1) that by auto
    then show ?thesis unfolding assms(2) by (intro c_int_ok) (auto simp: INT_MAX_def INT_MIN_def)
  qed
  then show "run_qsort E f ps = Inr (qsort E (\<lambda>a b. projr (f a b)) ps)"
    by (intro run_qsort_total) blast
  show "key_compare ready ps (\<lambda>a b. projr (f a b))"
    using diff by (auto simp: key_compare_def)
qed

text \<open>A comparison that is made and overflows.\<close>

lemma qsort_overflow:
  assumes "a \<in> set ps" and "b \<in> set ps" and "INT_MAX + 1 < ready a - ready b"
    and "qsort_asks E (\<lambda>x y. projr (f x y)) ps a b \<or> qsort_asks E (\<lambda>x y. projr (f x y)) ps b a"
    and "\<And>a b. f a b = c_int (ready a - ready b)"
  shows "run_qsort E f ps = Inl (Undefined Signed_Overflow)"
proof -
  let ?bad = "filter (\<lambda>(x, y). qsort_asks E (\<lambda>x y. projr (f x y)) ps x y \<and> isl (f x y)) (List.product ps ps)"
  have bad: "isl (f x y) \<Longrightarrow> projl (f x y) = Undefined Signed_Overflow" for x y
    unfolding assms(5) by (auto simp: c_int_def split: if_splits)
  have "isl (f a b)" "isl (f b a)" using assms(3,5) by (auto simp: c_int_def INT_MAX_def INT_MIN_def)
  then have "(a, b) \<in> set ?bad \<or> (b, a) \<in> set ?bad" using assms(1,2,4) by auto
  then have "?bad \<noteq> []" by (metis empty_iff empty_set)
  then obtain z r where "?bad = z # r" unfolding neq_Nil_conv by blast
  moreover obtain x y where "z = (x, y)" by (cases z)
  ultimately have r: "?bad = (x, y) # r" by simp
  then have "(x, y) \<in> set ?bad" by simp
  then have "isl (f x y)" by simp
  with bad r show ?thesis by (simp add: run_qsort_def Let_def)
qed

section \<open>A small workload\<close>

text \<open>Two processes, not in order of arrival, with a gap before the second one ends.\<close>

definition demo_procs :: "process list" where
  "demo_procs =
     [\<lparr>name = ''P2'', ready = 1, exec = 1, waiting = 0, pid = 0\<rparr>,
      \<lparr>name = ''P1'', ready = 0, exec = 2, waiting = 0, pid = 0\<rparr>]"

lemma workload_demo [simp]: "workload demo_procs"
  by (simp add: workload_def demo_procs_def horizon_def last_arrival_def work_def INT_MAX_def)

lemma length_demo [simp]: "length demo_procs = 2"
  by (simp add: demo_procs_def)

lemma makespan_demo [simp]: "makespan demo_procs = 3"
  by (simp add: makespan_def demo_procs_def)

lemmas demo_simps = forks_ok_demo fresh_pids_demo prio_ok_demo qsort_demo workload_demo length_demo
  makespan_demo

end
