(* ===== verification/Bookkeeping.thy ===== *)
theory Bookkeeping
  imports Process_Table
begin

text \<open>
  What the loops of FIFO, SJF and RR do to their books in any environment: the table, the process that
  runs, the count of those that ended, and the clock, whatever the kernel answers. A loop that is left
  only by counting the last process has run all of them.
\<close>

section \<open>Steps\<close>

record book =
  entries :: "process list"
  active :: int
  counted :: int
  clock :: int

definition charge :: "process list \<Rightarrow> nat \<Rightarrow> process list" where
  "charge ps i = ps[i := (ps ! i)\<lparr>exec := exec (ps ! i) - 1\<rparr>]"

text \<open>
  The process that has nothing left is counted; a unit of time passes with nobody running, or with the
  process that ran already or any other that has been started and has work left.
\<close>

inductive book_step :: "book \<Rightarrow> book \<Rightarrow> bool" where
  collect: "active b = int i \<Longrightarrow> exec (entries b ! i) = 0 \<Longrightarrow>
    book_step b (b\<lparr>active := -1, counted := counted b + 1\<rparr>)"
| idle: "active b = -1 \<Longrightarrow> respawned (clock b) (entries b) ps \<Longrightarrow>
    book_step b (b\<lparr>entries := ps, clock := clock b + 1\<rparr>)"
| serve: "respawned (clock b) (entries b) ps \<Longrightarrow> i < length ps \<Longrightarrow> active b = int i \<or> eligible (ps ! i) \<Longrightarrow>
    (\<And>j. active b = int j \<Longrightarrow> exec (entries b ! j) \<noteq> 0) \<Longrightarrow>
    book_step b (b\<lparr>entries := charge ps i, active := int i, clock := clock b + 1\<rparr>)"

inductive_cases book_stepE: "book_step b c"

text \<open>A round as the code has it: spawn, choose, charge.\<close>

lemma book_unit:
  assumes "respawned (clock b) (entries b) ps" and "\<And>i. active b = int i \<Longrightarrow> exec (entries b ! i) \<noteq> 0"
    and "next = active b \<or> (\<exists>i < length ps. next = int i \<and> eligible (ps ! i))"
    and "next = -1 \<and> qs = ps \<or> (\<exists>i < length ps. next = int i \<and> qs = charge ps i)"
  shows "book_step b \<lparr>entries = qs, active = next, counted = counted b, clock = clock b + 1\<rparr>"
proof (cases "next = -1")
  case True
  with assms(3,4) have a: "active b = -1" "qs = ps" by auto
  then have "\<lparr>entries = qs, active = next, counted = counted b, clock = clock b + 1\<rparr> =
      b\<lparr>entries := ps, clock := clock b + 1\<rparr>" using True by (cases b) simp
  with idle [OF a(1) assms(1)] show ?thesis by simp
next
  case False
  with assms(4) obtain i where i: "i < length ps" "next = int i" "qs = charge ps i" by auto
  with assms(3) have "active b = int i \<or> eligible (ps ! i)" by auto
  from serve [OF assms(1) i(1) this assms(2)]
  have "book_step b (b\<lparr>entries := charge ps i, active := int i, clock := clock b + 1\<rparr>)" .
  moreover have "\<lparr>entries = qs, active = next, counted = counted b, clock = clock b + 1\<rparr> =
      b\<lparr>entries := charge ps i, active := int i, clock := clock b + 1\<rparr>" using i by (cases b) simp
  ultimately show ?thesis by simp
qed

section \<open>What has been counted\<close>

text \<open>An entry \<open>p\<close> of the table that has run, \<open>q\<close> being the entry the workload gave.\<close>

definition touched :: "process \<Rightarrow> process \<Rightarrow> bool" where
  "touched q p \<longleftrightarrow> pid p \<noteq> -1 \<and> exec q \<noteq> 0 \<and> (0 < exec q \<longleftrightarrow> 0 \<le> exec p)"

text \<open>\<open>K\<close> is the set of the processes that have been counted.\<close>

definition ledger :: "process list \<Rightarrow> book \<Rightarrow> nat set \<Rightarrow> bool" where
  "ledger qs b K \<longleftrightarrow> length (entries b) = length qs \<and> K \<subseteq> {..<length qs} \<and> counted b = int (card K) \<and>
     0 \<le> clock b \<and> -1 \<le> active b \<and> active b < int (length qs) \<and>
     (\<forall>i<length qs. ready (entries b ! i) = ready (qs ! i) \<and>
        (pid (entries b ! i) \<noteq> -1 \<longrightarrow> 0 \<le> ready (qs ! i) \<and> ready (qs ! i) < clock b)) \<and>
     (\<forall>i\<in>K. exec (entries b ! i) = 0 \<and> pid (entries b ! i) \<noteq> -1 \<and> 0 < exec (qs ! i)) \<and>
     (\<forall>i<length qs. i \<notin> K \<longrightarrow> exec (entries b ! i) = exec (qs ! i) \<or> touched (qs ! i) (entries b ! i)) \<and>
     (\<forall>i. active b = int i \<longrightarrow> i \<notin> K \<and> touched (qs ! i) (entries b ! i))"

lemma ledger_start:
  "ledger qs \<lparr>entries = map (\<lambda>p. p\<lparr>pid := -1\<rparr>) qs, active = -1, counted = 0, clock = 0\<rparr> {}"
  by (simp add: ledger_def)

lemma ledger_collect:
  assumes "ledger qs b K" and "active b = int i" and "exec (entries b ! i) = 0"
  shows "ledger qs (b\<lparr>active := -1, counted := counted b + 1\<rparr>) (insert i K)"
proof -
  have "finite K" using assms(1) by (auto simp: ledger_def intro: finite_subset)
  with assms show ?thesis by (auto simp: ledger_def touched_def)
qed

text \<open>Only processes whose time has come get a pid.\<close>

lemma ledger_respawned:
  assumes "ledger qs b K" and "respawned (clock b) (entries b) ps"
  shows "ledger qs (b\<lparr>entries := ps, clock := clock b + 1\<rparr>) K"
    and "i < length ps \<Longrightarrow> exec (ps ! i) = exec (entries b ! i)"
proof -
  note len = respawned_nth(1) [OF assms(2)]
  have old: "ready (ps ! i) = ready (entries b ! i) \<and> exec (ps ! i) = exec (entries b ! i) \<and>
      (pid (ps ! i) = pid (entries b ! i) \<or> pid (entries b ! i) = -1 \<and> ready (entries b ! i) = clock b)"
    if i: "i < length qs" for i
  proof -
    have i': "i < length (entries b)" using i assms(1) by (simp add: ledger_def)
    from respawned_nth(3) [OF assms(2) i'] obtain c where c: "ps ! i = (entries b ! i)\<lparr>pid := c\<rparr>" by blast
    have "pid (entries b ! i) = -1" if "ready (entries b ! i) = clock b"
      using that i assms(1) by (auto simp: ledger_def)
    with c respawned_nth(2) [OF assms(2) i'] show ?thesis by (cases "ready (entries b ! i) = clock b") auto
  qed
  show "i < length ps \<Longrightarrow> exec (ps ! i) = exec (entries b ! i)"
    using old [of i] len assms(1) by (simp add: ledger_def)
  have keeps: "pid (ps ! i) = pid (entries b ! i)" if "i < length qs" "pid (entries b ! i) \<noteq> -1" for i
    using old [OF that(1)] that(2) by auto
  note I = assms(1) [unfolded ledger_def]
  have "ready (ps ! i) = ready (qs ! i) \<and>
      (pid (ps ! i) \<noteq> -1 \<longrightarrow> 0 \<le> ready (qs ! i) \<and> ready (qs ! i) < clock b + 1)" if "i < length qs" for i
    using old [OF that] I that by fastforce
  moreover have "exec (ps ! i) = 0 \<and> pid (ps ! i) \<noteq> -1 \<and> 0 < exec (qs ! i)" if "i \<in> K" for i
  proof -
    have "i < length qs" using I that by blast
    with old [of i] keeps [of i] I that show ?thesis by simp
  qed
  moreover have t: "touched (qs ! i) (ps ! i)" if "i < length qs" "touched (qs ! i) (entries b ! i)" for i
    using old [OF that(1)] that(2) by (auto simp: touched_def)
  then have "exec (ps ! i) = exec (qs ! i) \<or> touched (qs ! i) (ps ! i)" if "i < length qs" "i \<notin> K" for i
    using old [OF that(1)] I that by auto
  moreover have "i \<notin> K \<and> touched (qs ! i) (ps ! i)" if "active b = int i" for i
    using t [of i] I that by auto
  ultimately show "ledger qs (b\<lparr>entries := ps, clock := clock b + 1\<rparr>) K"
    using I len unfolding ledger_def by simp
qed

lemma ledger_charge:
  assumes "ledger qs b K" and "i < length (entries b)" and "active b = int i \<or> eligible (entries b ! i)"
    and "exec (entries b ! i) \<noteq> 0"
  shows "ledger qs (b\<lparr>entries := charge (entries b) i, active := int i\<rparr>) K"
proof -
  note I = assms(1) [unfolded ledger_def]
  have len: "i < length qs" using assms(1,2) by (simp add: ledger_def)
  have K: "i \<notin> K" using I assms(4) by auto
  have t: "touched (qs ! i) (entries b ! i)"
    using assms(3)
  proof
    assume "eligible (entries b ! i)"
    with I len K show ?thesis by (auto simp: eligible_def touched_def)
  qed (use I in blast)
  then have "touched (qs ! i) ((entries b ! i)\<lparr>exec := exec (entries b ! i) - 1\<rparr>)"
    using assms(4) by (auto simp: touched_def)
  then show ?thesis using I len K assms(2) unfolding ledger_def charge_def by (auto simp: nth_list_update)
qed

lemma ledger_step:
  assumes "book_step b c" and "ledger qs b K"
  shows "\<exists>K'. ledger qs c K'"
  using assms
proof (cases rule: book_step.cases)
  case (collect i)
  with ledger_collect [OF assms(2)] show ?thesis by blast
next
  case (idle ps)
  with ledger_respawned(1) [OF assms(2)] show ?thesis by blast
next
  case (serve ps i)
  let ?b = "b\<lparr>entries := ps, clock := clock b + 1\<rparr>"
  note r = ledger_respawned [OF assms(2) serve(2)]
  have "exec (ps ! i) \<noteq> 0"
    using serve(3,4) serve(5) [of i] r(2) [OF serve(3)] by (auto simp: eligible_def)
  with ledger_charge [OF r(1), of i] serve(3,4) have "ledger qs (?b\<lparr>entries := charge ps i, active := int i\<rparr>) K"
    by simp
  moreover have "?b\<lparr>entries := charge ps i, active := int i\<rparr> = c" unfolding serve(1) by (cases b) simp
  ultimately show ?thesis by auto
qed

lemma ledger_steps: "book_step\<^sup>*\<^sup>* b c \<Longrightarrow> ledger qs b K \<Longrightarrow> \<exists>K'. ledger qs c K'"
  by (induction arbitrary: K rule: rtranclp_induct) (use ledger_step in blast)+

section \<open>Loops that keep such books\<close>

text \<open>
  \<open>go\<close> is a round that stays in the loop, \<open>stop\<close> one that leaves it, \<open>view\<close> the books of a state
  and \<open>n\<close> the number of processes.
\<close>

locale booked =
  fixes go stop :: "'s \<Rightarrow> 's \<Rightarrow> bool" and view :: "'s \<Rightarrow> book" and n :: int
  assumes goes: "go s s' \<Longrightarrow> book_step\<^sup>*\<^sup>* (view s) (view s')"
    and stops: "stop s s' \<Longrightarrow> book_step (view s) (view s') \<and> active (view s') = -1 \<and> active (view s) \<noteq> -1 \<and>
      counted (view s') = n"
begin

lemma rounds: "go\<^sup>*\<^sup>* s s' \<Longrightarrow> book_step\<^sup>*\<^sup>* (view s) (view s')"
proof (induction rule: rtranclp_induct)
  case (step t u)
  from step.IH goes [OF step.hyps(2)] show ?case by (rule rtranclp_trans)
qed simp

lemma all_ran:
  assumes "go\<^sup>*\<^sup>* s0 t" and "stop t s" and "n = int (length qs)"
    and "view s0 = \<lparr>entries = map (\<lambda>p. p\<lparr>pid := -1\<rparr>) qs, active = -1, counted = 0, clock = 0\<rparr>"
  shows "qs \<noteq> []" and "\<forall>q\<in>set qs. 0 \<le> ready q \<and> 0 < exec q"
    and "\<forall>p\<in>set (entries (view s)). pid p \<noteq> -1 \<and> exec p = 0"
proof -
  note st = stops [OF assms(2)]
  from ledger_steps [OF rounds [OF assms(1)]] ledger_start [of qs] obtain K0 where K0: "ledger qs (view t) K0"
    unfolding assms(4) by blast
  from st obtain i where i: "active (view t) = int i" "exec (entries (view t) ! i) = 0"
    "view s = (view t)\<lparr>active := -1, counted := counted (view t) + 1\<rparr>"
    by (auto elim!: book_stepE)
  have K: "ledger qs (view s) (insert i K0)" unfolding i(3) by (rule ledger_collect [OF K0 i(1,2)])
  then have "insert i K0 = {..<length qs}"
    using st assms(3) by (intro card_subset_eq) (auto simp: ledger_def)
  note K = K [unfolded this]
  show "qs \<noteq> []" using K0 i(1) by (auto simp: ledger_def)
  show "\<forall>q\<in>set qs. 0 \<le> ready q \<and> 0 < exec q" "\<forall>p\<in>set (entries (view s)). pid p \<noteq> -1 \<and> exec p = 0"
    using K by (auto simp: in_set_conv_nth ledger_def)
qed

end

section \<open>The endless loops\<close>

lemma reaches_rtranclp: "reaches body s t \<Longrightarrow> (\<lambda>u v. body u = Inr (False, v))\<^sup>*\<^sup>* s t"
  by (induction rule: reaches.induct) (auto intro: rtranclp.rtrancl_into_rtrancl)

lemma run_loopo_returns:
  assumes "run_loopo body s = Some (Inr u)"
  shows "\<exists>t. (\<lambda>u v. body u = Some (Inr (False, v)))\<^sup>*\<^sup>* s t \<and> body t = Some (Inr (True, u))"
proof (rule run_loopo.raw_induct [where P = "\<lambda>body s r. \<forall>u. r = Inr u \<longrightarrow>
    (\<exists>t. (\<lambda>u v. body u = Some (Inr (False, v)))\<^sup>*\<^sup>* s t \<and> body t = Some (Inr (True, u)))", OF _ assms, rule_format])
  fix f :: "('s \<Rightarrow> (bool \<times> 's) res option) \<Rightarrow> 's \<Rightarrow> 's res option" and body s r u
  assume IH: "\<And>body s r u. f body s = Some r \<Longrightarrow> r = Inr u \<Longrightarrow>
      \<exists>t. (\<lambda>u v. body u = Some (Inr (False, v)))\<^sup>*\<^sup>* s t \<and> body t = Some (Inr (True, u))"
    and eq: "Option.bind (body s) (\<lambda>r. case r of Inl e \<Rightarrow> Some (Inl e)
      | Inr p \<Rightarrow> (if fst p then Some (Inr (snd p)) else f body (snd p))) = Some r" and r: "r = Inr u"
  show "\<exists>t. (\<lambda>u v. body u = Some (Inr (False, v)))\<^sup>*\<^sup>* s t \<and> body t = Some (Inr (True, u))"
  proof (cases "\<exists>s'. body s = Some (Inr (False, s'))")
    case True
    then obtain s' where s': "body s = Some (Inr (False, s'))" by blast
    with eq have "f body s' = Some r" by simp
    from IH [OF this r] s' show ?thesis by (blast intro: converse_rtranclp_into_rtranclp)
  next
    case False
    from eq obtain y where y: "body s = Some y" by (auto simp: bind_eq_Some_conv)
    with eq r False have "y = Inr (True, u)" by (cases y) (auto split: if_splits)
    with y show ?thesis by blast
  qed
qed simp

end
