(* ===== verification/FIFO_Sched.thy ===== *)
theory FIFO_Sched
  imports Bookkeeping
begin

text \<open>
  \<^verbatim>\<open>FIFO.c\<close>: first come, first served. The parent sorts the processes by ready time, forks
  each one when its time comes, and lets the earliest one run to its end. Definitions in the order
  of the file, then the properties: the comparison function, the selection, one round of the loop
  as a refinement of the abstract non-preemptive machine, and what the whole scheduler does.
\<close>

section \<open>The code\<close>

definition PARENT_CPU :: int where "PARENT_CPU = 0"
definition CHILD_CPU :: int where "CHILD_CPU = 1"

text \<open>The process table, the globals \<open>running\<close>, \<open>finish\<close> and \<open>time_cnt\<close>, and the trace.\<close>

record fifo_state =
  procs :: "process list"
  running :: int
  finish :: int
  time_cnt :: int
  trace :: trace

definition time_unit :: "trace \<Rightarrow> trace" where
  "time_unit t = Spin (spin_loop 1000000 0 0) # t"

text \<open>Three \<open>if\<close>s; falling off the end would be undefined.\<close>

definition compare :: "process \<Rightarrow> process \<Rightarrow> int res" where
  "compare p1 p2 =
     (if ready p1 < ready p2 then Inr (-1)
      else if ready p1 = ready p2 then Inr 0
      else if ready p1 > ready p2 then Inr 1
      else Inl (Undefined Missing_Return))"

definition proc_assign_cpu :: "os \<Rightarrow> int \<Rightarrow> int \<Rightarrow> trace \<Rightarrow> (int \<times> trace) res" where
  "proc_assign_cpu E p core t =
     (case sched_setaffinity E p (cpu_mask core) t of (r, t1) \<Rightarrow>
        if r < 0 then Inl (Exited 1 (Fprintf_stderr ''sched_setaffinity error\<newline>'' # t1))
        else Inr (0, t1))"

definition proc_wakeup :: "os \<Rightarrow> int \<Rightarrow> trace \<Rightarrow> int \<times> trace" where
  "proc_wakeup E p t =
     (case sched_setscheduler E p SCHED_OTHER 0 t of (ret, t1) \<Rightarrow>
        if ret < 0 then (-1, Fprintf_stderr ''------wake up error------\<newline>'' # t1)
        else (ret, t1))"

text \<open>The child's loop \<open>for (i = 0; i < proc.exec; i++) time_unit();\<close>\<close>

function child_units :: "int \<Rightarrow> int \<Rightarrow> trace \<Rightarrow> trace" where
  "child_units i n t = (if i < n then child_units (i + 1) n (time_unit t) else t)"
  by pat_completeness auto
termination by (relation "measure (\<lambda>(i, n, t). nat (n - i))") auto

text \<open>
  \<^verbatim>\<open>fork\<close> returns in two processes, so \<open>proc_exec\<close> is run once with each answer: with \<open>0\<close>
  it is the child, which ends in \<open>exit(0)\<close>, with a pid it is the parent.
\<close>

definition proc_exec :: "os \<Rightarrow> process \<Rightarrow> int \<Rightarrow> trace \<Rightarrow> (int \<times> trace) res" where
  "proc_exec E proc time t =
     (let p = fork_ret E t; t1 = Fork p # t in
      if p < 0 then Inr (-1, Fprintf_stderr ''fork failed\<newline>'' # t1)
      else if p = 0 then
        (let t2 = Printf ''process %s forked    time : %d   pid: %d\<newline>''
               [S (name proc), D time, D (getpid_ret E t1)] # t1;
             t3 = child_units 0 (exec proc) t2
         in Inl (Exited 0
              (Printf ''process %s exited     time : %d\<newline>'' [S (name proc), D time] # t3)))
      else bindr (proc_assign_cpu E p CHILD_CPU t1) (\<lambda>(_, t2). Inr (p, t2)))"

definition proc_block :: "os \<Rightarrow> int \<Rightarrow> trace \<Rightarrow> int \<times> trace" where
  "proc_block E p t =
     (case sched_setscheduler E p SCHED_IDLE 0 t of (ret, t1) \<Rightarrow>
        if ret < 0 then (-1, Fprintf_stderr ''sched idle error\<newline>'' # t1)
        else (ret, t1))"

text \<open>The loop of \<open>next_proc\<close> from index \<open>i\<close> on, with its variable \<open>ret\<close>.\<close>

function next_scan :: "process list \<Rightarrow> nat \<Rightarrow> int \<Rightarrow> int" where
  "next_scan ps i ret =
     (if i < length ps then
        (if pid (ps ! i) = -1 \<or> exec (ps ! i) = 0 then next_scan ps (Suc i) ret
         else if ret = -1 \<or> ready (ps ! i) < ready (ps ! nat ret) then next_scan ps (Suc i) (int i)
         else next_scan ps (Suc i) ret)
      else ret)"
  by pat_completeness auto
termination by (relation "measure (\<lambda>(ps, i, ret). length ps - i)") auto

definition next_proc :: "int \<Rightarrow> process list \<Rightarrow> int" where
  "next_proc run ps = (if run \<noteq> -1 then run else next_scan ps 0 (-1))"

text \<open>The body of \<open>while(1)\<close>, part by part: a process that has ended,\<close>

definition fifo_check :: "int \<Rightarrow> fifo_state \<Rightarrow> (bool \<times> fifo_state) res" where
  "fifo_check n_proc s =
     (if running s \<noteq> -1 then
        bindr (arr_get (procs s) (running s)) (\<lambda>p.
          if exec p = 0 then
            bindr (c_int (finish s + 1)) (\<lambda>f.
              Inr (f = n_proc,
                s\<lparr>trace := Printf ''process %s ended     time : %d\<newline>'' [S (name p), D (time_cnt s)]
                    # Waitpid (pid p) # trace s,
                  running := -1, finish := f\<rparr>))
          else Inr (False, s))
      else Inr (False, s))"

text \<open>forking the processes whose time has come,\<close>

definition fifo_start :: "os \<Rightarrow> int \<Rightarrow> process \<Rightarrow> trace \<Rightarrow> (process \<times> trace) res" where
  "fifo_start E time p t =
     bindr (proc_exec E p time t) (\<lambda>(c, t1). Inr (p\<lparr>pid := c\<rparr>, snd (proc_block E c t1)))"

definition fifo_spawn :: "os \<Rightarrow> int \<Rightarrow> process list \<Rightarrow> trace \<Rightarrow> (process list \<times> trace) res" where
  "fifo_spawn E time ps t = spawn_all (fifo_start E time) time ps t"

text \<open>choosing and switching,\<close>

definition fifo_switch :: "os \<Rightarrow> fifo_state \<Rightarrow> fifo_state res" where
  "fifo_switch E s =
     (let next = next_proc (running s) (procs s) in
      if next \<noteq> -1 then
        if running s \<noteq> next then
          bindr (arr_get (procs s) next) (\<lambda>p.
            let t1 = snd (proc_wakeup E (pid p) (Printf ''!!!!!!context switch!!!!!!\<newline>'' [] # trace s)) in
            bindr (pid_at E (procs s) (running s) t1) (\<lambda>(old, t2).
              Inr (s\<lparr>trace := snd (proc_block E old t2), running := next\<rparr>)))
        else Inr s
      else Inr s)"

text \<open>and the unit of time.\<close>

definition fifo_tick :: "fifo_state \<Rightarrow> fifo_state res" where
  "fifo_tick s =
     bindr (c_int (time_cnt s + 1)) (\<lambda>time.
       let s1 = s\<lparr>trace := time_unit (trace s), time_cnt := time\<rparr> in
       if running s1 \<noteq> -1 then
         bindr (arr_get (procs s1) (running s1)) (\<lambda>p.
           bindr (c_int (exec p - 1)) (\<lambda>e.
             bindr (arr_set (procs s1) (running s1) (p\<lparr>exec := e\<rparr>)) (\<lambda>ps.
               Inr (s1\<lparr>procs := ps\<rparr>))))
       else Inr s1)"

definition fifo_body :: "os \<Rightarrow> int \<Rightarrow> fifo_state \<Rightarrow> (bool \<times> fifo_state) res" where
  "fifo_body E n_proc s =
     bindr (fifo_check n_proc s) (\<lambda>(brk, s1).
       if brk then Inr (True, s1)
       else bindr (fifo_spawn E (time_cnt s1) (procs s1) (trace s1)) (\<lambda>(ps, t).
         bindr (fifo_switch E (s1\<lparr>procs := ps, trace := t\<rparr>)) (\<lambda>s2.
           bindr (fifo_tick s2) (\<lambda>s3. Inr (False, s3)))))"

text \<open>What comes before the loop.\<close>

definition fifo_init :: "os \<Rightarrow> process list \<Rightarrow> trace \<Rightarrow> fifo_state res" where
  "fifo_init E proc t =
     bindr (run_qsort E compare proc) (\<lambda>ps.
       let t1 = rev (map (\<lambda>p. Printf ''%s %d %d\<newline>'' [S (name p), D (ready p), D (exec p)]) ps) @ t;
           ps1 = map (\<lambda>p. p\<lparr>pid := -1\<rparr>) ps in
       bindr (proc_assign_cpu E (getpid_ret E t1) PARENT_CPU t1) (\<lambda>(_, t2).
         let t3 = snd (proc_wakeup E (getpid_ret E t2) t2) in
         Inr \<lparr>procs = ps1, running = -1, finish = 0, time_cnt = 0,
              trace = Printf ''parent CPU assigned\<newline>'' [] # t3\<rparr>))"

definition FIFO :: "os \<Rightarrow> process list \<Rightarrow> int \<Rightarrow> trace \<Rightarrow> fifo_state res option" where
  "FIFO E proc n_proc t =
     (case fifo_init E proc t of
        Inl e \<Rightarrow> Some (Inl e)
      | Inr s \<Rightarrow> run_loop (fifo_body E n_proc) s)"

declare child_units.simps [simp del] next_scan.simps [simp del]

section \<open>The functions of the file\<close>

lemma compare_eq: "compare p q = Inr (sgn (ready p - ready q))"
  by (auto simp: compare_def)

text \<open>\<open>next_scan\<close> is the search for the first eligible process with the least ready time.\<close>

lemma next_scan_best:
  assumes "i \<le> length ps"
  shows "next_scan ps i (enc (best (\<lambda>j. eligible (ps ! j)) (\<lambda>j. ready (ps ! j)) i)) =
    enc (best (\<lambda>j. eligible (ps ! j)) (\<lambda>j. ready (ps ! j)) (length ps))"
  using assms
proof (induction "length ps - i" arbitrary: i)
  case 0
  then show ?case by (simp add: next_scan.simps [of ps i])
next
  case (Suc d)
  then have "i < length ps" by simp
  with Suc.hyps(1) [of "Suc i"] Suc.hyps(2) show ?case
    by (subst next_scan.simps)
      (cases "best (\<lambda>j. eligible (ps ! j)) (\<lambda>j. ready (ps ! j)) i"; auto simp: eligible_def)
qed

lemma next_proc_best:
  "next_proc run ps = (if run \<noteq> -1 then run
     else enc (best (\<lambda>j. eligible (ps ! j)) (\<lambda>j. ready (ps ! j)) (length ps)))"
  using next_scan_best [of 0 ps] by (simp add: next_proc_def)

lemma printed_block [simp]: "printed f (snd (proc_block E p t)) = printed f t"
  by (simp add: proc_block_def sched_setscheduler_def Let_def)

lemma printed_wakeup [simp]: "printed f (snd (proc_wakeup E p t)) = printed f t"
  by (simp add: proc_wakeup_def sched_setscheduler_def Let_def)

lemma printed_unit [simp]: "printed f (time_unit t) = printed f t"
  by (simp add: time_unit_def)

lemma oob_reads_calls [simp]:
  "oob_reads (snd (proc_block E p t)) = oob_reads t"
  "oob_reads (snd (proc_wakeup E p t)) = oob_reads t"
  "oob_reads (time_unit t) = oob_reads t"
  by (simp_all add: proc_block_def proc_wakeup_def time_unit_def sched_setscheduler_def Let_def)

lemma forked_calls [simp]:
  "forked (snd (proc_block E p t)) = forked t"
  "forked (snd (proc_wakeup E p t)) = forked t"
  "forked (time_unit t) = forked t"
  by (simp_all add: proc_block_def proc_wakeup_def time_unit_def sched_setscheduler_def Let_def)

lemma class_of_calls:
  assumes "prio_ok E"
  shows "class_of (snd (proc_block E p t)) q = (if q = p then (SCHED_IDLE, 0) else class_of t q)"
    and "class_of (snd (proc_wakeup E p t)) q = (if q = p then (SCHED_OTHER, 0) else class_of t q)"
proof -
  have "\<not> setscheduler_ret E t p pol prio < 0" for pol prio
    using assms by (simp add: prio_ok_def not_less)
  then show "class_of (snd (proc_block E p t)) q = (if q = p then (SCHED_IDLE, 0) else class_of t q)"
    and "class_of (snd (proc_wakeup E p t)) q = (if q = p then (SCHED_OTHER, 0) else class_of t q)"
    by (auto simp: proc_block_def proc_wakeup_def sched_setscheduler_def Let_def not_less)
qed

lemma child_units_replicate:
  "child_units i n t = replicate (nat (n - i)) (Spin 1000000) @ t"
proof (induction i n t rule: child_units.induct)
  case (1 i n t)
  show ?case
  proof (cases "i < n")
    case True
    then have "nat (n - i) = Suc (nat (n - (i + 1)))" by simp
    with 1 [OF True] True show ?thesis
      by (simp add: child_units.simps [of i n] time_unit_def replicate_append_same
          flip: replicate_Suc append_Cons append_assoc)
  next
    case False
    then show ?thesis by (simp add: child_units.simps [of i n])
  qed
qed

text \<open>\<open>proc_exec\<close> in the parent.\<close>

lemma proc_exec_parent:
  assumes "forks_ok E"
  shows "proc_exec E p time t = Inr (fork_ret E t,
    Setaffinity (fork_ret E t) [1] (setaffinity_ret E (Fork (fork_ret E t) # t) (fork_ret E t) [1])
      # Fork (fork_ret E t) # t)"
proof -
  have "0 < fork_ret E t" using assms by (simp add: forks_ok_def)
  then have "\<not> fork_ret E t < 0" "fork_ret E t \<noteq> 0" by simp_all
  moreover have "\<not> setaffinity_ret E u c m < 0" for u c m
    using assms by (simp add: forks_ok_def not_less)
  ultimately show ?thesis
    by (simp add: proc_exec_def proc_assign_cpu_def sched_setaffinity_def cpu_mask_def CHILD_CPU_def Let_def)
qed

lemma proc_exec_trace:
  "proc_exec E p time t = Inr (c, t') \<Longrightarrow>
   oob_reads t' = oob_reads t \<and> (\<forall>f. printed f t' = printed f t)"
  by (auto simp: proc_exec_def proc_assign_cpu_def sched_setaffinity_def Let_def bindr_eq_Inr
      split: if_splits)

abbreviation ended_msg :: string where
  "ended_msg \<equiv> ''process %s ended     time : %d\<newline>''"

interpretation fifo: starter fifo_start ended_msg
proof
  fix E time p t assume "forks_ok E"
  then show "\<exists>c t'. fifo_start E time p t = Inr (p\<lparr>pid := c\<rparr>, t') \<and> 0 < c"
    by (auto simp: fifo_start_def proc_exec_parent forks_ok_def intro!: exI [of _ "fork_ret E t"])
next
  fix E time p t q t' assume "fifo_start E time p t = Inr (q, t')"
  then show "(\<exists>c. q = p\<lparr>pid := c\<rparr>) \<and> printed ended_msg t' = printed ended_msg t \<and> oob_reads t' = oob_reads t"
    by (auto simp: fifo_start_def bindr_eq_Inr dest!: proc_exec_trace)
next
  fix E time p t q t' assume "forks_ok E" "prio_ok E" "fifo_start E time p t = Inr (q, t')"
  then show "pid q = fork_ret E t \<and> set (forked t') = insert (pid q) (set (forked t)) \<and>
      (\<forall>r. class_of t' r = (if r = pid q then (SCHED_IDLE, 0) else class_of t r))"
    by (auto simp: fifo_start_def proc_exec_parent class_of_calls)
qed

section \<open>Refinement of the non-preemptive machine\<close>

definition completions :: "trace \<Rightarrow> (string \<times> int) list" where
  "completions t = map name_time (printed ended_msg t)"

definition fifo_abs :: "fifo_state \<Rightarrow> mach" where
  "fifo_abs s = \<lparr>arr = map ready (procs s), nm = map name (procs s), left = map exec (procs s),
     cur = (if running s = -1 then None else Some (nat (running s))), now = time_cnt s,
     log = completions (trace s)\<rparr>"

definition fifo_inv :: "os \<Rightarrow> int \<Rightarrow> fifo_state \<Rightarrow> bool" where
  "fifo_inv E n s \<longleftrightarrow> forks_ok E \<and> n = int (length (procs s)) \<and> n \<le> INT_MAX \<and>
     mach_inv (fifo_abs s) \<and> live_before (time_cnt s) (procs s) \<and> -1 \<le> running s \<and>
     finish s = int (length (completions (trace s))) \<and> 0 \<le> time_cnt s \<and>
     horizon (time_cnt s) (jobs_of (procs s)) \<le> INT_MAX"

lemma fifo_abs_jobs: "mach_jobs (fifo_abs s) = jobs_of (procs s)"
  by (simp add: fifo_abs_def jobs_of_zip)

lemma completions_simps [simp]:
  "completions (Printf ended_msg [S n, D t] # tr) = completions tr @ [(n, t)]"
  "completions (Waitpid p # tr) = completions tr"
  "completions (time_unit tr) = completions tr"
  "completions (snd (proc_block E p tr)) = completions tr"
  "completions (snd (proc_wakeup E p tr)) = completions tr"
  "f \<noteq> ended_msg \<Longrightarrow> completions (Printf f as # tr) = completions tr"
  "completions (Oob_Read i # tr) = completions tr"
  by (simp_all add: completions_def)

lemma fifo_check_ok:
  assumes "fifo_inv E n s"
  shows "\<exists>b s1. fifo_check n s = Inr (b, s1) \<and> fifo_abs s1 = mach_check (fifo_abs s) \<and>
    (b \<longleftrightarrow> ending (fifo_abs s) \<and> Suc (length (log (fifo_abs s))) = length (arr (fifo_abs s))) \<and>
    procs s1 = procs s \<and> time_cnt s1 = time_cnt s \<and> -1 \<le> running s1 \<and>
    finish s1 = int (length (completions (trace s1)))"
proof (cases "running s = -1")
  case True
  with assms show ?thesis
    by (auto simp: fifo_check_def mach_check_def fifo_abs_def ending_def fifo_inv_def)
next
  case False
  define i where "i = nat (running s)"
  have r: "running s = int i" "i < length (procs s)"
    using assms False by (auto simp: fifo_inv_def mach_inv_def fifo_abs_def i_def)
  have len: "int (length (completions (trace s))) < n" "n \<le> INT_MAX"
    using assms by (auto simp: fifo_inv_def mach_inv_def fifo_abs_def)
  then have "c_int (finish s + 1) = Inr (finish s + 1)"
    using assms by (intro c_int_nonneg) (auto simp: fifo_inv_def)
  with r assms show ?thesis
    by (auto simp: fifo_check_def mach_check_def fifo_abs_def ending_def fifo_inv_def)
qed

lemma next_proc_choice:
  assumes "live_before (time_cnt s + 1) (procs s)" and "running s = -1"
  shows "next_proc (running s) (procs s) =
    enc (fcfs_choice (map ready (procs s)) (map exec (procs s)) (time_cnt s))"
proof -
  have "best (\<lambda>j. eligible (procs s ! j)) (\<lambda>j. ready (procs s ! j)) (length (procs s)) =
      fcfs_choice (map ready (procs s)) (map exec (procs s)) (time_cnt s)"
    unfolding fcfs_choice_def using eligible_iff [OF assms(1)] by (auto intro!: best_cong)
  then show ?thesis using assms(2) by (simp add: next_proc_best)
qed

lemma fifo_switch_ok:
  assumes "mach_inv (fifo_abs s)" and "live_before (time_cnt s + 1) (procs s)" and "-1 \<le> running s"
  shows "\<exists>s1. fifo_switch E s = Inr s1 \<and> fifo_abs s1 = np_pick fcfs_choice (fifo_abs s) \<and>
    procs s1 = procs s \<and> time_cnt s1 = time_cnt s \<and> -1 \<le> running s1 \<and> finish s1 = finish s \<and>
    completions (trace s1) = completions (trace s)"
proof (cases "running s = -1")
  case False
  then show ?thesis
    using assms by (simp add: fifo_switch_def next_proc_def np_pick_def fifo_abs_def)
next
  case True
  let ?r = "fcfs_choice (map ready (procs s)) (map exec (procs s)) (time_cnt s)"
  show ?thesis
  proof (cases ?r)
    case None
    with True next_proc_choice [OF assms(2) True] assms(3) show ?thesis
      by (simp add: fifo_switch_def np_pick_def fifo_abs_def)
  next
    case (Some i)
    then have "i < length (procs s)" using fcfs.sel_Some [of "map exec (procs s)" "map ready (procs s)"] by simp
    with Some True next_proc_choice [OF assms(2) True] show ?thesis
      by (simp add: fifo_switch_def np_pick_def fifo_abs_def pid_at_def Let_def)
  qed
qed

lemma fifo_tick_ok:
  assumes "mach_inv (fifo_abs s)" and "\<not> ending (fifo_abs s)" and "-1 \<le> running s"
    and "0 \<le> time_cnt s" and "time_cnt s + work (jobs_of (procs s)) \<le> INT_MAX"
    and "0 < work (jobs_of (procs s))"
  shows "\<exists>s1. fifo_tick s = Inr s1 \<and> fifo_abs s1 = mach_tick (fifo_abs s) \<and>
    (live_before t (procs s) \<longrightarrow> live_before t (procs s1)) \<and> length (procs s1) = length (procs s) \<and>
    time_cnt s1 = time_cnt s + 1 \<and> running s1 = running s \<and> finish s1 = finish s \<and>
    completions (trace s1) = completions (trace s)"
proof -
  have time: "c_int (time_cnt s + 1) = Inr (time_cnt s + 1)"
    using assms(4-6) by (intro c_int_nonneg) auto
  show ?thesis
  proof (cases "running s = -1")
    case True
    with time show ?thesis by (simp add: fifo_tick_def fifo_abs_def mach_tick_def Let_def)
  next
    case False
    define i where "i = nat (running s)"
    have r: "running s = int i" "i < length (procs s)" "0 \<le> exec (procs s ! i)" "exec (procs s ! i) \<noteq> 0"
      using assms(1-3) False by (auto simp: mach_inv_def fifo_abs_def i_def ending_def)
    have "exec (procs s ! i) \<le> work (jobs_of (procs s))"
      using member_le_work [of "jobs_of (procs s)" "(ready (procs s ! i), exec (procs s ! i))"]
        assms(1) r(2) by (auto simp: mach_inv_def fifo_abs_def)
    then have "c_int (exec (procs s ! i) - 1) = Inr (exec (procs s ! i) - 1)"
      using assms(4,5) r by (intro c_int_nonneg) auto
    with time r show ?thesis
      by (simp add: fifo_tick_def fifo_abs_def mach_tick_def Let_def map_update live_before_update
          list_update_same_conv)
  qed
qed

lemma fifo_body_refines:
  assumes inv: "fifo_inv E n s"
  shows "\<exists>b s'. fifo_body E n s = Inr (b, s') \<and> np_body fcfs_choice (fifo_abs s) = Inr (b, fifo_abs s') \<and>
    (\<not> b \<longrightarrow> fifo_inv E n s')"
proof -
  from fifo_check_ok [OF inv] obtain b s1 where s1: "fifo_check n s = Inr (b, s1)"
    "fifo_abs s1 = mach_check (fifo_abs s)"
    "b \<longleftrightarrow> ending (fifo_abs s) \<and> Suc (length (log (fifo_abs s))) = length (arr (fifo_abs s))"
    "procs s1 = procs s" "time_cnt s1 = time_cnt s" "-1 \<le> running s1"
    "finish s1 = int (length (completions (trace s1)))" by blast
  have ninv: "mach_inv (fifo_abs s)" and E: "forks_ok E" using inv by (auto simp: fifo_inv_def)
  show ?thesis
  proof (cases b)
    case True
    with s1 have "np_body fcfs_choice (fifo_abs s) = Inr (True, fifo_abs s1)"
      by (simp add: mach_body_break_iff)
    with s1(1) True show ?thesis by (auto simp: fifo_body_def)
  next
    case False
    with s1 have nb: "\<not> (ending (fifo_abs s) \<and> Suc (length (log (fifo_abs s))) = length (arr (fifo_abs s)))"
      by simp
    from fifo.spawn_ok [OF E] obtain qs t where
      sp: "fifo_spawn E (time_cnt s1) (procs s1) (trace s1) = Inr (qs, t)"
        "spawned (time_cnt s1) (procs s1) qs" unfolding fifo_spawn_def by blast
    have "printed ended_msg t = printed ended_msg (trace s1)"
      using fifo.spawn_any [OF sp(1) [unfolded fifo_spawn_def]] by blast
    define s2 where "s2 = s1\<lparr>procs := qs, trace := t\<rparr>"
    have c2: "completions (trace s2) = completions (trace s1)"
      using \<open>printed ended_msg t = _\<close> by (simp add: s2_def completions_def)
    then have "fifo_abs s2 = fifo_abs s1"
      using spawned_fields [OF sp(2)] by (simp add: s2_def fifo_abs_def)
    with s1(2) have a2: "fifo_abs s2 = mach_check (fifo_abs s)" by simp
    note ci = check_inv [OF ninv nb, folded a2]
    have live: "live_before (time_cnt s2 + 1) (procs s2)"
      using spawned_live [OF sp(2)] inv s1(4,5) by (simp add: fifo_inv_def s2_def)
    have j2: "jobs_of (procs s2) = jobs_of (procs s)"
      using spawned_fields [OF sp(2)] s1(4) by (simp add: jobs_of_zip s2_def)
    from fifo_switch_ok [OF ci(1) live, of E] s1(6) obtain s3 where
      s3: "fifo_switch E s2 = Inr s3" "fifo_abs s3 = np_pick fcfs_choice (fifo_abs s2)" "procs s3 = procs s2"
        "time_cnt s3 = time_cnt s2" "-1 \<le> running s3" "finish s3 = finish s2"
        "completions (trace s3) = completions (trace s2)" by (auto simp: s2_def)
    have go: "np_body fcfs_choice (fifo_abs s) = Inr (False, mach_tick (fifo_abs s3))"
      using mach_body_go [OF nb] a2 s3(2) by simp
    note wc = fcfs.wc.goes [OF ninv go]
    have wpos: "0 < work (jobs_of (procs s3))" using wc j2 s3(3) by (simp add: fifo_abs_jobs)
    have time: "0 \<le> time_cnt s3" "time_cnt s3 = time_cnt s"
      using inv s1(5) s3(4) by (auto simp: fifo_inv_def s2_def)
    have bound: "time_cnt s3 + work (jobs_of (procs s3)) \<le> INT_MAX"
      using inv horizon_now [of "time_cnt s" "jobs_of (procs s)"] time(2) j2 s3(3) by (simp add: fifo_inv_def)
    note pi = fcfs.pick_inv [OF ci, folded s3(2)]
    from fifo_tick_ok [OF pi(1,2) s3(5) time(1) bound wpos, of "time_cnt s3 + 1"] obtain s4 where
      s4: "fifo_tick s3 = Inr s4" "fifo_abs s4 = mach_tick (fifo_abs s3)"
        "live_before (time_cnt s3 + 1) (procs s3) \<longrightarrow> live_before (time_cnt s3 + 1) (procs s4)"
        "length (procs s4) = length (procs s3)" "time_cnt s4 = time_cnt s3 + 1" "running s4 = running s3"
        "finish s4 = finish s3" "completions (trace s4) = completions (trace s3)" by blast
    have body: "fifo_body E n s = Inr (False, s4)"
      using s1(1) False sp(1) s3(1) s4(1) by (simp add: fifo_body_def flip: s2_def)
    have "horizon (time_cnt s + 1) (jobs_of (procs s4)) \<le> horizon (time_cnt s) (jobs_of (procs s))"
      using wc horizon_served [of "time_cnt s" "jobs_of (procs s)" "jobs_of (procs s4)"]
      by (simp add: fifo_abs_jobs flip: s4(2)) (simp add: fifo_abs_def)
    moreover have "length (procs s4) = length (procs s)"
      using s4(4) s3(3) spawned_fields(1) [OF sp(2)] s1(4) by (simp add: s2_def)
    ultimately have "fifo_inv E n s4"
      using inv wc s1(7) s3(3-) s4 live time c2 by (simp add: fifo_inv_def s2_def)
    with body go s4(2) show ?thesis by auto
  qed
qed

lemma fifo_body_inv:
  "fifo_inv E n s \<Longrightarrow> fifo_body E n s = Inr (False, s1) \<Longrightarrow> fifo_inv E n s1"
  by (auto dest: fifo_body_refines)

lemma fifo_check_finish: "fifo_check n s = Inr (True, s') \<Longrightarrow> finish s' = n"
  by (auto simp: fifo_check_def bindr_eq_Inr split: if_splits)

section \<open>Before the loop\<close>

lemma compare_key: "key_compare ready xs (\<lambda>a b. projr (compare a b))"
  by (auto simp: key_compare_def compare_eq sgn_if)

lemma fifo_init_ok:
  assumes "c_qsort (qsort E)" and "forks_ok E"
  shows "\<exists>qs t. mset qs = mset ps \<and> sorted (map ready qs) \<and> fifo_init E ps t0 = Inr
    \<lparr>procs = map (\<lambda>p. p\<lparr>pid := -1\<rparr>) qs, running = -1, finish = 0, time_cnt = 0, trace = t\<rparr> \<and>
    completions t = completions t0"
proof -
  define qs where "qs = qsort E (\<lambda>a b. projr (compare a b)) ps"
  have qs: "mset qs = mset ps" "sorted (map ready qs)"
    using c_qsort.qs_mset [OF assms(1)] c_qsort.qs_ordered [OF assms(1) compare_key]
    by (auto simp: qs_def)
  have run: "run_qsort E compare ps = Inr qs"
    unfolding qs_def by (rule run_qsort_total) (simp add: compare_eq)
  have aff: "\<not> setaffinity_ret E u c m < 0" for u c m
    using assms(2) by (simp add: forks_ok_def not_less)
  have "completions (rev (map (\<lambda>p. Printf ''%s %d %d\<newline>'' [S (name p), D (ready p), D (exec p)]) qs) @ t0)
      = completions t0"
    unfolding completions_def printed_append by (subst printed_other) auto
  then have "\<exists>t. fifo_init E ps t0 = Inr
      \<lparr>procs = map (\<lambda>p. p\<lparr>pid := -1\<rparr>) qs, running = -1, finish = 0, time_cnt = 0, trace = t\<rparr> \<and>
      completions t = completions t0"
    by (simp add: fifo_init_def run proc_assign_cpu_def sched_setaffinity_def aff Let_def)
      (simp add: completions_def)
  with qs show ?thesis by blast
qed

lemma np_init_reset: "np_init (map (\<lambda>p. p\<lparr>pid := -1\<rparr>) qs) = np_init qs"
  by (simp add: np_init_def comp_def)

lemma jobs_of_reset: "jobs_of (map (\<lambda>p. p\<lparr>pid := -1\<rparr>) qs) = jobs_of qs"
  by simp

text \<open>The state the loop starts from satisfies the invariant and abstracts to the plan's start.\<close>

lemma fifo_start_inv:
  assumes "workload qs" and "forks_ok E" and "completions t = []"
  shows "fifo_inv E (int (length qs))
      \<lparr>procs = map (\<lambda>p. p\<lparr>pid := -1\<rparr>) qs, running = -1, finish = 0, time_cnt = 0, trace = t\<rparr>"
    and "fifo_abs
      \<lparr>procs = map (\<lambda>p. p\<lparr>pid := -1\<rparr>) qs, running = -1, finish = 0, time_cnt = 0, trace = t\<rparr> = np_init qs"
proof -
  show abs: "fifo_abs
      \<lparr>procs = map (\<lambda>p. p\<lparr>pid := -1\<rparr>) qs, running = -1, finish = 0, time_cnt = 0, trace = t\<rparr> = np_init qs"
    using assms(3) by (simp add: fifo_abs_def np_init_def comp_def)
  have live: "live_before 0 (map (\<lambda>p. p\<lparr>pid := -1\<rparr>) qs)"
    using assms(1) by (intro reset_live) (simp add: workload_def)
  show "fifo_inv E (int (length qs))
      \<lparr>procs = map (\<lambda>p. p\<lparr>pid := -1\<rparr>) qs, running = -1, finish = 0, time_cnt = 0, trace = t\<rparr>"
    using np_init_inv(1) [OF assms(1)] live workload_length [OF assms(1)] assms
    by (simp add: fifo_inv_def abs workload_def comp_def)
qed

section \<open>What the scheduler does\<close>

lemma FIFO_runs:
  assumes "forks_ok E" and "c_qsort (qsort E)" and "workload ps"
  shows "\<exists>qs s. mset qs = mset ps \<and> sorted (map ready qs) \<and>
    FIFO E ps (int (length ps)) [] = Some (Inr s) \<and>
    completions (trace s) = fcfs_plan 0 qs \<and> time_cnt s = makespan ps \<and>
    (\<forall>p\<in>set (procs s). exec p = 0) \<and> finish s = int (length ps)"
proof -
  from fifo_init_ok [OF assms(2,1), of ps "[]"] obtain qs t where
    qs: "mset qs = mset ps" "sorted (map ready qs)"
    and init: "fifo_init E ps [] = Inr
      \<lparr>procs = map (\<lambda>p. p\<lparr>pid := -1\<rparr>) qs, running = -1, finish = 0, time_cnt = 0, trace = t\<rparr>"
      (is "_ = Inr ?s0") and t: "completions t = []" by (auto simp: completions_def)
  have wl: "workload qs" using workload_perm [OF qs(1) [symmetric] assms(3)] .
  have len: "length qs = length ps" using qs(1) by (metis size_mset)
  note inv = fifo_start_inv [OF wl assms(1) t]
  from fcfs_run [OF wl qs(2)] obtain a where
    a: "run_loop (np_body fcfs_choice) (np_init qs) = Some (Inr a)" "log a = fcfs_plan 0 qs"
      "now a = makespan qs" "unfinished (left a) = 0" by blast
  from run_loop_refines [of "fifo_inv E (int (length qs))" "fifo_body E (int (length qs))"
      "np_body fcfs_choice" fifo_abs, OF fifo_body_refines inv(1)] a(1) inv(2)
  obtain u s where s: "fifo_inv E (int (length qs)) u" "fifo_body E (int (length qs)) u = Inr (True, s)"
    "fifo_abs s = a" "run_loop (fifo_body E (int (length qs))) ?s0 = Some (Inr s)" by auto
  have "finish s = int (length qs)" using s(2) fifo_check_finish by (fastforce simp: fifo_body_def bindr_eq_Inr split: if_splits)
  moreover have "FIFO E ps (int (length ps)) [] = Some (Inr s)"
    using s(4) len by (simp add: FIFO_def init)
  moreover have "completions (trace s) = fcfs_plan 0 qs" "time_cnt s = makespan ps"
    "\<forall>p\<in>set (procs s). exec p = 0"
    using a(2-) makespan_perm [OF qs(1) wl]
    by (auto simp: fifo_abs_def unfinished_zero simp flip: s(3))
  ultimately show ?thesis using qs len by metis
qed

lemma fifo_demo_runs: "\<exists>s. FIFO demo_os demo_procs 2 [] = Some (Inr s)"
  using FIFO_runs [of demo_os demo_procs] libc.c_qsort_axioms by auto

text \<open>
  C4: \<open>FIFO\<close> on a proper workload returns, and the messages "process \<dots> ended" come out
  exactly as first come, first served demands: in the order of the sorted array, each process
  ending at the larger of its ready time and the previous end, plus its execution time; the clock
  stops at the last of them, every process has been run to zero and \<open>finish\<close> is the number of
  processes. Any environment whose forks and affinity calls succeed, any conforming
  \<^verbatim>\<open>qsort\<close>.
\<close>

theorem FIFO_schedule:
  assumes "forks_ok E" and "c_qsort (qsort E)" and "workload ps"
  shows "\<exists>qs s. mset qs = mset ps \<and> sorted (map ready qs) \<and>
    FIFO E ps (int (length ps)) [] = Some (Inr s) \<and>
    completions (trace s) = fcfs_plan 0 qs \<and> time_cnt s = makespan ps \<and>
    (\<forall>p\<in>set (procs s). exec p = 0) \<and> finish s = int (length ps)"
  using FIFO_runs [OF assms] .

theorem FIFO_schedule_witness:
  "\<exists>qs s. mset qs = mset demo_procs \<and> FIFO demo_os demo_procs 2 [] = Some (Inr s) \<and>
    completions (trace s) = fcfs_plan 0 qs \<and> time_cnt s = 3 \<and> finish s = 2"
  using FIFO_schedule [of demo_os demo_procs] libc.c_qsort_axioms by auto

section \<open>The switch\<close>

text \<open>A switch happens only from the idle state, to an eligible process.\<close>

lemma fifo_switch_cases:
  assumes "fifo_switch E s = Inr s1"
  obtains "s1 = s"
  | i where "running s = -1" "i < length (procs s)" "eligible (procs s ! i)"
      "s1 = s\<lparr>running := int i, trace := snd (proc_block E (stray_pid E) (Oob_Read (-1) #
         snd (proc_wakeup E (pid (procs s ! i)) (Printf ''!!!!!!context switch!!!!!!\<newline>'' [] # trace s))))\<rparr>"
proof (cases "running s = -1")
  case False
  with assms that(1) show ?thesis by (simp add: fifo_switch_def next_proc_def)
next
  case True
  let ?b = "best (\<lambda>j. eligible (procs s ! j)) (\<lambda>j. ready (procs s ! j)) (length (procs s))"
  show ?thesis
  proof (cases ?b)
    case None
    with assms that(1) True show ?thesis by (simp add: fifo_switch_def next_proc_best)
  next
    case (Some i)
    from best_Some [OF this] have "i < length (procs s)" "eligible (procs s ! i)" by auto
    with assms that(2) True Some show ?thesis
      by (auto simp: fifo_switch_def next_proc_best pid_at_def Let_def)
  qed
qed

section \<open>In any environment\<close>

text \<open>No assumption about the kernel: whatever the calls answer, a round keeps the books.\<close>

definition fifo_book :: "fifo_state \<Rightarrow> book" where
  "fifo_book s = \<lparr>entries = procs s, active = running s, counted = finish s, clock = time_cnt s\<rparr>"

lemma fifo_book_fields [simp]:
  "entries (fifo_book s) = procs s" "active (fifo_book s) = running s"
  "counted (fifo_book s) = finish s" "clock (fifo_book s) = time_cnt s"
  by (simp_all add: fifo_book_def)

lemma fifo_check_book:
  assumes "fifo_check n s = Inr (b, s1)"
  shows "\<not> b \<and> s1 = s \<and> (\<forall>i. running s = int i \<longrightarrow> exec (procs s ! i) \<noteq> 0) \<or>
    book_step (fifo_book s) (fifo_book s1) \<and> running s \<noteq> -1 \<and> running s1 = -1 \<and> (b \<longrightarrow> finish s1 = n) \<and>
      oob_reads (trace s1) = oob_reads (trace s) \<and> finish s1 = finish s + 1"
proof (cases "running s = -1 \<or> exec (procs s ! nat (running s)) \<noteq> 0")
  case True
  with assms show ?thesis by (auto simp: fifo_check_def bindr_eq_Inr arr_get_Inr split: if_splits)
next
  case False
  define i where "i = nat (running s)"
  have r: "running s = int i" "exec (procs s ! i) = 0"
    using assms False by (auto simp: fifo_check_def bindr_eq_Inr arr_get_Inr i_def)
  then have "book_step (fifo_book s) ((fifo_book s)\<lparr>active := -1, counted := counted (fifo_book s) + 1\<rparr>)"
    by (intro book_step.collect) simp_all
  with assms r show ?thesis
    by (auto simp: fifo_check_def bindr_eq_Inr arr_get_Inr c_int_Inr fifo_book_def)
qed

lemma fifo_tick_book:
  assumes "fifo_tick s = Inr s1"
  shows "running s1 = running s \<and> finish s1 = finish s \<and> time_cnt s1 = time_cnt s + 1 \<and>
    oob_reads (trace s1) = oob_reads (trace s) \<and>
    (running s = -1 \<and> procs s1 = procs s \<or>
     (\<exists>i < length (procs s). running s = int i \<and> procs s1 = charge (procs s) i))"
proof (cases "running s = -1")
  case True
  with assms show ?thesis by (auto simp: fifo_tick_def bindr_eq_Inr c_int_Inr Let_def)
next
  case False
  with assms have "0 \<le> running s" by (auto simp: fifo_tick_def bindr_eq_Inr arr_get_Inr Let_def)
  then obtain i where "running s = int i" by (metis nonneg_int_cases)
  with assms show ?thesis
    by (auto simp: fifo_tick_def bindr_eq_Inr c_int_Inr arr_get_Inr arr_set_Inr Let_def charge_def)
qed

lemma fifo_switch_book:
  assumes "fifo_switch E s = Inr s1"
  shows "procs s1 = procs s \<and> finish s1 = finish s \<and> time_cnt s1 = time_cnt s \<and>
    (running s1 = running s \<and> oob_reads (trace s1) = oob_reads (trace s) \<or>
     (\<exists>i < length (procs s). running s = -1 \<and> running s1 = int i \<and> eligible (procs s ! i) \<and>
        oob_reads (trace s1) = Suc (oob_reads (trace s))))"
  using assms by (cases rule: fifo_switch_cases) auto

text \<open>The reads outside the table are one for each switch.\<close>

definition strays_counted :: "fifo_state \<Rightarrow> bool" where
  "strays_counted s \<longleftrightarrow> int (oob_reads (trace s)) = finish s + (if running s = -1 then 0 else 1)"

lemma fifo_body_book:
  assumes "fifo_body E n s = Inr (False, s1)"
  shows "book_step\<^sup>*\<^sup>* (fifo_book s) (fifo_book s1) \<and> (strays_counted s \<longrightarrow> strays_counted s1)"
proof -
  from assms obtain s2 ps t s3 where c: "fifo_check n s = Inr (False, s2)"
    and sp: "fifo_spawn E (time_cnt s2) (procs s2) (trace s2) = Inr (ps, t)"
    and sw: "fifo_switch E (s2\<lparr>procs := ps, trace := t\<rparr>) = Inr s3" and tk: "fifo_tick s3 = Inr s1"
    by (auto simp: fifo_body_def bindr_eq_Inr split: if_splits)
  have re: "respawned (time_cnt s2) (procs s2) ps" and oob: "oob_reads t = oob_reads (trace s2)"
    using fifo.spawn_any [OF sp [unfolded fifo_spawn_def]] by auto
  note ch = fifo_check_book [OF c]
  note tick = fifo_tick_book [OF tk] and switch = fifo_switch_book [OF sw]
  have "book_step\<^sup>*\<^sup>* (fifo_book s) (fifo_book s2)" using ch by auto
  moreover have "book_step (fifo_book s2)
      \<lparr>entries = procs s1, active = running s1, counted = counted (fifo_book s2), clock = clock (fifo_book s2) + 1\<rparr>"
    by (rule book_unit [where ps = ps]) (use ch re switch tick in auto)
  then have "book_step (fifo_book s2) (fifo_book s1)"
    using switch tick by (simp add: fifo_book_def)
  moreover have "strays_counted s \<longrightarrow> strays_counted s1"
    using ch oob switch tick by (auto simp: strays_counted_def)
  ultimately show ?thesis by (meson rtranclp.rtrancl_into_rtrancl)
qed

lemma fifo_body_stop:
  assumes "fifo_body E n s = Inr (True, s1)"
  shows "book_step (fifo_book s) (fifo_book s1) \<and> running s1 = -1 \<and> running s \<noteq> -1 \<and> finish s1 = n \<and>
    (strays_counted s \<longrightarrow> strays_counted s1)"
proof -
  have "fifo_check n s = Inr (True, s1)"
    using assms by (auto simp: fifo_body_def bindr_eq_Inr split: if_splits)
  from fifo_check_book [OF this] show ?thesis by (auto simp: strays_counted_def)
qed

interpretation fifo_books: booked "\<lambda>s s1. fifo_body E n s = Inr (False, s1)"
  "\<lambda>s s1. fifo_body E n s = Inr (True, s1)" fifo_book n for E n
proof
  fix s s1 assume "fifo_body E n s = Inr (False, s1)"
  then show "book_step\<^sup>*\<^sup>* (fifo_book s) (fifo_book s1)" using fifo_body_book by blast
next
  fix s s1 assume "fifo_body E n s = Inr (True, s1)"
  from fifo_body_stop [OF this] show "book_step (fifo_book s) (fifo_book s1) \<and> active (fifo_book s1) = -1 \<and>
      active (fifo_book s) \<noteq> -1 \<and> counted (fifo_book s1) = n" by simp
qed

lemma fifo_init_any:
  assumes "fifo_init E ps t = Inr s"
  shows "\<exists>tr. s = \<lparr>procs = map (\<lambda>p. p\<lparr>pid := -1\<rparr>) (qsort E (\<lambda>a b. projr (compare a b)) ps),
      running = -1, finish = 0, time_cnt = 0, trace = tr\<rparr> \<and> oob_reads tr = oob_reads t"
proof -
  have "run_qsort E compare ps = Inr (qsort E (\<lambda>a b. projr (compare a b)) ps)"
    by (rule run_qsort_total) (simp add: compare_eq)
  with assms show ?thesis
    by (auto simp: fifo_init_def bindr_eq_Inr Let_def proc_assign_cpu_def sched_setaffinity_def
        oob_reads_append rev_map split: if_splits)
qed

text \<open>
  C11: whatever the kernel answers, if \<open>FIFO\<close> returns normally then every process had a
  non-negative ready time and a positive execution time, was forked successfully, and has been run
  down to zero. So a failed fork, a process with nothing to execute or with a negative ready time
  is never silently skipped: \<open>FIFO\<close> does not return (it loops until the clock overflows). And
  a normal run has read \<open>proc[-1].pid\<close>, outside the table, once per process.
\<close>

theorem FIFO_returns_only_when_all_ran:
  assumes "c_qsort (qsort E)" and "FIFO E ps (int (length ps)) [] = Some (Inr s)"
  shows "ps \<noteq> [] \<and> (\<forall>p\<in>set ps. 0 \<le> ready p \<and> 0 < exec p) \<and>
    (\<forall>p\<in>set (procs s). pid p \<noteq> -1 \<and> exec p = 0) \<and> oob_reads (trace s) = length ps"
proof -
  define qs where "qs = qsort E (\<lambda>a b. projr (compare a b)) ps"
  have qs: "set qs = set ps" "length qs = length ps"
    using c_qsort.qs_set [OF assms(1)] c_qsort.qs_length [OF assms(1)] by (auto simp: qs_def)
  from assms(2) obtain s0 where init: "fifo_init E ps [] = Inr s0"
    and run: "run_loop (fifo_body E (int (length ps))) s0 = Some (Inr s)"
    by (auto simp: FIFO_def split: sum.splits)
  from fifo_init_any [OF init] have s0: "strays_counted s0"
    "fifo_book s0 = \<lparr>entries = map (\<lambda>p. p\<lparr>pid := -1\<rparr>) qs, active = -1, counted = 0, clock = 0\<rparr>"
    by (auto simp: fifo_book_def strays_counted_def qs_def)
  from run_loop_returns [OF run] obtain u where
    u: "reaches (fifo_body E (int (length ps))) s0 u" "fifo_body E (int (length ps)) u = Inr (True, s)" by auto
  have n: "int (length ps) = int (length qs)" using qs(2) by simp
  note all = fifo_books.all_ran [OF reaches_rtranclp [OF u(1)] u(2) n s0(2)]
  have "ps \<noteq> []" "\<forall>p\<in>set ps. 0 \<le> ready p \<and> 0 < exec p" using all(1,2) qs by auto
  moreover have "\<forall>p\<in>set (procs s). pid p \<noteq> -1 \<and> exec p = 0" using all(3) by simp
  moreover have "strays_counted u"
    by (rule reaches_invariant [OF u(1)]) (use s0(1) fifo_body_book in blast)+
  then have "oob_reads (trace s) = length ps"
    using fifo_body_stop [OF u(2)] by (auto simp: strays_counted_def)
  ultimately show ?thesis by blast
qed

theorem FIFO_returns_only_when_all_ran_witness:
  "\<exists>s. FIFO demo_os demo_procs 2 [] = Some (Inr s) \<and> (\<forall>p\<in>set (procs s). pid p \<noteq> -1 \<and> exec p = 0) \<and>
    oob_reads (trace s) = 2"
proof -
  obtain s where s: "FIFO demo_os demo_procs (int (length demo_procs)) [] = Some (Inr s)"
    using fifo_demo_runs by auto
  from FIFO_returns_only_when_all_ran [OF _ s] libc.c_qsort_axioms s show ?thesis by auto
qed

section \<open>Time spent and time counted\<close>

lemma units_append: "units 1000000 (xs @ ys) = units 1000000 xs + units 1000000 ys"
proof (induction xs)
  case (Cons e xs)
  then show ?case by (cases e) auto
qed simp

lemma units_calls [simp]:
  "units 1000000 (snd (proc_block E p t)) = units 1000000 t" "units 1000000 (snd (proc_wakeup E p t)) = units 1000000 t"
  "units 1000000 (time_unit t) = units 1000000 t + 1"
  by (simp_all add: proc_block_def proc_wakeup_def time_unit_def sched_setscheduler_def Let_def)

lemma fifo_start_units: "fifo_start E tm p t = Inr (q, t') \<Longrightarrow> units 1000000 t' = units 1000000 t"
  by (auto simp: fifo_start_def proc_exec_def proc_assign_cpu_def sched_setaffinity_def Let_def
      bindr_eq_Inr split: if_splits)

lemma fifo_body_units:
  assumes "fifo_body E n s = Inr (b, s1)"
  shows "units 1000000 (trace s1) - time_cnt s1 = units 1000000 (trace s) - time_cnt s"
proof -
  from assms obtain brk s2 where c: "fifo_check n s = Inr (brk, s2)"
    and rest: "if brk then s1 = s2 else (\<exists>ps t s3. fifo_spawn E (time_cnt s2) (procs s2) (trace s2) = Inr (ps, t) \<and>
      fifo_switch E (s2\<lparr>procs := ps, trace := t\<rparr>) = Inr s3 \<and> fifo_tick s3 = Inr s1)"
    by (auto simp: fifo_body_def bindr_eq_Inr split: if_splits)
  have s2: "units 1000000 (trace s2) = units 1000000 (trace s)" "time_cnt s2 = time_cnt s"
    using c by (auto simp: fifo_check_def bindr_eq_Inr split: if_splits)
  show ?thesis
  proof (cases brk)
    case False
    with rest obtain ps t s3 where sp: "fifo_spawn E (time_cnt s2) (procs s2) (trace s2) = Inr (ps, t)"
      and sw: "fifo_switch E (s2\<lparr>procs := ps, trace := t\<rparr>) = Inr s3" and tk: "fifo_tick s3 = Inr s1" by auto
    have "units 1000000 t = units 1000000 (trace s2)"
      by (rule spawn_all_keeps [OF _ sp [unfolded fifo_spawn_def]]) (rule fifo_start_units)
    moreover have "units 1000000 (trace s3) = units 1000000 t \<and> time_cnt s3 = time_cnt s2"
      using sw by (cases rule: fifo_switch_cases) auto
    moreover have "units 1000000 (trace s1) = units 1000000 (trace s3) + 1 \<and> time_cnt s1 = time_cnt s3 + 1"
      using tk by (auto simp: fifo_tick_def bindr_eq_Inr c_int_Inr Let_def split: if_splits)
    ultimately show ?thesis using s2 by simp
  qed (use rest s2 in simp)
qed

lemma FIFO_units:
  assumes "FIFO E ps n [] = Some (Inr s)"
  shows "units 1000000 (trace s) = time_cnt s"
proof -
  from assms obtain s0 where init: "fifo_init E ps [] = Inr s0" and run: "run_loop (fifo_body E n) s0 = Some (Inr s)"
    by (auto simp: FIFO_def split: sum.splits)
  have "units 1000000 (rev (map (\<lambda>p. Printf f (g p)) qs)) = 0" for f and g :: "process \<Rightarrow> arg list" and qs
    by (induction qs) (auto simp: units_append)
  then have "units 1000000 (trace s0) = 0" "time_cnt s0 = 0"
    using init by (auto simp: fifo_init_def bindr_eq_Inr Let_def proc_assign_cpu_def
        sched_setaffinity_def split: if_splits)
  then have i0: "units 1000000 (trace s0) - time_cnt s0 = 0" by simp
  from run_loop_returns [OF run] obtain u where
    u: "reaches (fifo_body E n) s0 u" "fifo_body E n u = Inr (True, s)" by auto
  have "units 1000000 (trace u) - time_cnt u = 0"
    by (rule reaches_invariant [OF u(1)]) (use i0 fifo_body_units in auto)
  with fifo_body_units [OF u(2)] show ?thesis by simp
qed

section \<open>Scheduling classes\<close>

lemma fifo_check_any:
  assumes "fifo_check n s = Inr (b, s1)"
  shows "procs s1 = procs s \<and> time_cnt s1 = time_cnt s \<and> forked (trace s1) = forked (trace s) \<and>
    (\<forall>r. class_of (trace s1) r = class_of (trace s) r) \<and>
    (running s1 \<noteq> -1 \<longrightarrow> exec (procs s ! nat (running s)) \<noteq> 0) \<and>
    (running s1 = running s \<or> running s1 = -1 \<and> 0 \<le> running s \<and> exec (procs s ! nat (running s)) = 0)"
  using assms by (auto simp: fifo_check_def bindr_eq_Inr arr_get_Inr split: if_splits)

abbreviation fifo_prio :: "os \<Rightarrow> fifo_state \<Rightarrow> bool" where
  "fifo_prio E s \<equiv> prio_inv (SCHED_OTHER, 0) (trace s) (procs s) (running s) \<and>
     stray_pid E \<notin> set (forked (trace s))"

lemma fifo_check_prio:
  assumes "fifo_prio E s" and "fifo_check n s = Inr (b, s1)"
  shows "fifo_prio E s1 \<and> (\<forall>i. running s1 = int i \<longrightarrow> exec (procs s1 ! i) \<noteq> 0)"
proof -
  note c = fifo_check_any [OF assms(2)]
  have "prio_inv (SCHED_OTHER, 0) (trace s) (procs s) (running s1)"
  proof (cases "running s1 = running s")
    case False
    with c have "running s = int (nat (running s))" "running s1 = -1"
      "exec (procs s ! nat (running s)) = 0" by auto
    with assms(1) prio_inv_finished show ?thesis by metis
  qed (use assms(1) in simp)
  then have "prio_inv (SCHED_OTHER, 0) (trace s1) (procs s) (running s1)"
    by (rule prio_inv_trace) (use c in auto)
  with c assms(1) show ?thesis by auto
qed

lemma fifo_switch_prio:
  assumes E: "prio_ok E" and inv: "fifo_prio E s" and sw: "fifo_switch E s = Inr s1"
    and nz: "\<forall>i. running s = int i \<longrightarrow> exec (procs s ! i) \<noteq> 0"
  shows "fifo_prio E s1 \<and> procs s1 = procs s \<and> (\<forall>i. running s1 = int i \<longrightarrow> exec (procs s1 ! i) \<noteq> 0)"
  using sw
proof (cases rule: fifo_switch_cases)
  case 1
  with inv nz show ?thesis by simp
next
  case (2 i)
  have "prio_inv (SCHED_OTHER, 0) (trace s1) (procs s) (int i)"
    by (rule prio_inv_resume [where t = "trace s" and q = "stray_pid E"])
      (use 2 inv in \<open>auto simp: eligible_def class_of_calls [OF E]\<close>)
  with 2 inv show ?thesis by (auto simp: eligible_def)
qed

lemma fifo_tick_prio:
  assumes "fifo_prio E s" and "fifo_tick s = Inr s1"
    and "\<forall>i. running s = int i \<longrightarrow> exec (procs s ! i) \<noteq> 0"
  shows "fifo_prio E s1"
proof (cases "running s = -1")
  case True
  then have s1: "s1 = s\<lparr>trace := time_unit (trace s), time_cnt := time_cnt s + 1\<rparr>"
    using assms(2) by (auto simp: fifo_tick_def bindr_eq_Inr c_int_Inr Let_def)
  have "prio_inv (SCHED_OTHER, 0) (time_unit (trace s)) (procs s) (running s)"
    by (rule prio_inv_trace [of _ "trace s"]) (use assms(1) in \<open>auto simp: time_unit_def\<close>)
  with s1 assms(1) show ?thesis by simp
next
  case False
  obtain i where r: "running s = int i" "i < length (procs s)"
    and s1: "s1 = s\<lparr>trace := time_unit (trace s), time_cnt := time_cnt s + 1,
      procs := (procs s)[i := (procs s ! i)\<lparr>exec := exec (procs s ! i) - 1\<rparr>]\<rparr>"
    using assms(2) False
    by (auto simp: fifo_tick_def bindr_eq_Inr c_int_Inr arr_get_Inr arr_set_Inr Let_def) (metis nat_less_iff nat_0_le int_nat_eq)
  have "prio_inv (SCHED_OTHER, 0) (time_unit (trace s)) (procs s) (running s)"
    by (rule prio_inv_trace [of _ "trace s"]) (use assms(1) in \<open>auto simp: time_unit_def\<close>)
  from prio_inv_unit [OF this r(2)] assms(1,3) r s1 show ?thesis by simp
qed

lemma fifo_body_prio:
  assumes E: "forks_ok E" "prio_ok E" "fresh_pids E"
    and inv: "fifo_inv E n s" "fifo_prio E s" and body: "fifo_body E n s = Inr (False, s1)"
  shows "fifo_prio E s1"
proof -
  from body obtain s2 ps t s3 where c: "fifo_check n s = Inr (False, s2)"
    and sp: "fifo_spawn E (time_cnt s2) (procs s2) (trace s2) = Inr (ps, t)"
    and sw: "fifo_switch E (s2\<lparr>procs := ps, trace := t\<rparr>) = Inr s3" and tk: "fifo_tick s3 = Inr s1"
    by (auto simp: fifo_body_def bindr_eq_Inr split: if_splits)
  note c1 = fifo_check_prio [OF inv(2) c] and c2 = fifo_check_any [OF c]
  have live: "live_before (time_cnt s2) (procs s2)" using inv(1) c2 by (simp add: fifo_inv_def)
  note sp' = sp [unfolded fifo_spawn_def]
  let ?s = "s2\<lparr>procs := ps, trace := t\<rparr>"
  have "fifo_prio E ?s"
    using fifo.spawn_prio [OF E sp' _ live] c1 by auto
  moreover have "exec (ps ! i) \<noteq> 0" if "running s2 = int i" for i
  proof -
    have "map exec ps = map exec (procs s2)"
      using fifo.spawn_ok [OF E(1)] sp' spawned_fields(4) by (metis Pair_inject sum.inject(2))
    moreover have "i < length (procs s2)"
      using that inv(1) c2 by (auto simp: fifo_inv_def mach_inv_def fifo_abs_def)
    ultimately show ?thesis using c1 that by (metis length_map nth_map)
  qed
  ultimately have "fifo_prio E s3 \<and> (\<forall>i. running s3 = int i \<longrightarrow> exec (procs s3 ! i) \<noteq> 0)"
    using fifo_switch_prio [OF E(2) _ sw] by auto
  then show ?thesis using fifo_tick_prio [OF _ tk] by blast
qed

lemma fifo_init_prio:
  assumes "fifo_init E ps [] = Inr s"
  shows "fifo_prio E s"
proof -
  have "forked (rev (map (\<lambda>p. Printf f (g p)) qs)) = []" for f and g :: "process \<Rightarrow> arg list" and qs
    by (induction qs rule: rev_induct) auto
  moreover have "run_qsort E compare ps = Inr (qsort E (\<lambda>a b. projr (compare a b)) ps)"
    by (rule run_qsort_total) (simp add: compare_eq)
  ultimately show ?thesis
    using assms by (auto simp: fifo_init_def bindr_eq_Inr Let_def proc_assign_cpu_def
        sched_setaffinity_def prio_inv_reset split: if_splits)
qed

text \<open>
  C24: at the top of every round of \<open>FIFO\<close> on a proper workload, the kernel has the processes
  in the intended classes: of the started processes with work left, the running one is
  \<open>SCHED_OTHER\<close> and every other one \<open>SCHED_IDLE\<close>. For fresh pids, succeeding priority
  requests, and a stray pid that is no child's.
\<close>

theorem FIFO_priorities:
  assumes "forks_ok E" and "prio_ok E" and "fresh_pids E" and "c_qsort (qsort E)" and "workload ps"
    and "fifo_init E ps [] = Inr s0" and "reaches (fifo_body E (int (length ps))) s0 s"
    and "i < length ps" and "pid (procs s ! i) \<noteq> -1" and "exec (procs s ! i) \<noteq> 0"
  shows "class_of (trace s) (pid (procs s ! i)) =
    (if running s = int i then (SCHED_OTHER, 0) else (SCHED_IDLE, 0))"
proof -
  from fifo_init_ok [OF assms(4,1), of ps "[]"] assms(6) obtain qs t where
    qs: "mset qs = mset ps" and s0: "s0 = \<lparr>procs = map (\<lambda>p. p\<lparr>pid := -1\<rparr>) qs, running = -1, finish = 0,
      time_cnt = 0, trace = t\<rparr>" and t: "completions t = []" by (auto simp: completions_def)
  have wl: "workload qs" using workload_perm [OF qs [symmetric] assms(5)] .
  have len: "length qs = length ps" using qs by (metis size_mset)
  have "fifo_inv E (int (length ps)) s0"
    using fifo_start_inv(1) [OF wl assms(1) t] len by (simp add: s0)
  with fifo_init_prio [OF assms(6)] have s0_inv: "fifo_inv E (int (length ps)) s0 \<and> fifo_prio E s0" by blast
  have "fifo_inv E (int (length ps)) s \<and> fifo_prio E s"
    by (rule reaches_invariant [OF assms(7), where I = "\<lambda>s. fifo_inv E (int (length ps)) s \<and> fifo_prio E s"])
      (use s0_inv fifo_body_inv fifo_body_prio [OF assms(1-3)] in blast)+
  then show ?thesis using assms(8-10) by (auto simp: fifo_inv_def prio_inv_def)
qed

text \<open>
  C39: every context switch of \<open>FIFO\<close> reads \<open>proc[-1].pid\<close>: \<open>next_proc\<close> keeps a running
  process, so a switch starts from \<open>running == -1\<close>, and the \<open>proc_block(proc[running].pid)\<close> that
  is meant for the process switched from is handed the four bytes in front of the array.
\<close>

theorem fifo_switch_blocks_stray:
  assumes "fifo_switch E s = Inr s1" and "running s1 \<noteq> running s"
  shows "running s = -1 \<and> (\<exists>i < length (procs s). running s1 = int i \<and> eligible (procs s ! i) \<and>
    trace s1 = snd (proc_block E (stray_pid E) (Oob_Read (-1) #
      snd (proc_wakeup E (pid (procs s ! i)) (Printf ''!!!!!!context switch!!!!!!\<newline>'' [] # trace s)))))"
  using assms(1) by (cases rule: fifo_switch_cases) (use assms(2) in auto)

text \<open>
  The child's side of \<open>proc_exec\<close>: with \<^verbatim>\<open>fork\<close> answering 0 it announces itself,
  spins exactly \<open>exec\<close> units of a million rounds each, announces its end and exits with status 0;
  it never returns to the scheduler.
\<close>

lemma proc_exec_child:
  assumes "fork_ret E t = 0"
  shows "proc_exec E p time t = Inl (Exited 0
    (Printf ''process %s exited     time : %d\<newline>'' [S (name p), D time] #
     replicate (nat (exec p)) (Spin 1000000) @
     Printf ''process %s forked    time : %d   pid: %d\<newline>'' [S (name p), D time, D (getpid_ret E (Fork 0 # t))] #
     Fork 0 # t))"
  using assms by (simp add: proc_exec_def child_units_replicate Let_def)

text \<open>
  When the kernel refuses the affinity of the parent, \<open>FIFO\<close> reports it on \<open>stderr\<close> and
  ends the program with status 1 before any process is forked.
\<close>

lemma FIFO_affinity_failure:
  assumes "\<And>u p m. setaffinity_ret E u p m < 0"
  shows "\<exists>tr. FIFO E ps n [] = Some (Inl (Exited 1 (Fprintf_stderr ''sched_setaffinity error\<newline>'' # tr))) \<and>
    forked tr = []"
proof -
  have "forked (rev (map (\<lambda>p. Printf f (g p)) qs)) = []" for f and g :: "process \<Rightarrow> arg list" and qs
    by (induction qs rule: rev_induct) auto
  moreover have "run_qsort E compare ps = Inr (qsort E (\<lambda>a b. projr (compare a b)) ps)"
    by (rule run_qsort_total) (simp add: compare_eq)
  ultimately show ?thesis
    using assms by (simp add: FIFO_def fifo_init_def proc_assign_cpu_def sched_setaffinity_def Let_def)
qed

text \<open>
  \<open>next_proc\<close> keeps the running process; otherwise it returns the first process in the
  table with the least ready time among those forked with work left, and -1 exactly when there is
  none.
\<close>

lemma next_proc_spec:
  shows "next_proc run ps =
    (if run \<noteq> -1 then run
     else case filter (\<lambda>i. eligible (ps ! i) \<and> (\<forall>j<length ps. eligible (ps ! j) \<longrightarrow> ready (ps ! i) \<le> ready (ps ! j)))
            [0..<length ps] of [] \<Rightarrow> -1 | i # _ \<Rightarrow> int i)"
  by (simp add: next_proc_best best_filter enc_def split: option.split list.split)

section \<open>Witnesses\<close>

theorem FIFO_priorities_witness:
  "\<exists>s0 s. fifo_init demo_os demo_procs [] = Inr s0 \<and> reaches (fifo_body demo_os 2) s0 s \<and>
     pid (procs s ! 0) \<noteq> -1 \<and> class_of (trace s) (pid (procs s ! 0)) = (SCHED_OTHER, 0)"
proof -
  let ?init = "projr (fifo_init demo_os demo_procs [])"
  let ?s = "snd (projr (fifo_body demo_os 2 ?init))"
  have init: "fifo_init demo_os demo_procs [] = Inr ?init" by (rule res_ok) code_simp
  have "fifo_body demo_os 2 ?init = Inr (False, ?s)" by (rule res_go) code_simp+
  then have r: "reaches (fifo_body demo_os 2) ?init ?s" by (rule reaches_step [OF _ reaches.start])
  have f: "pid (procs ?s ! 0) \<noteq> -1" "exec (procs ?s ! 0) \<noteq> 0" "running ?s = int 0" by code_simp+
  have "class_of (trace ?s) (pid (procs ?s ! 0)) = (SCHED_OTHER, 0)"
    using FIFO_priorities [of demo_os demo_procs ?init ?s 0] init r f libc.c_qsort_axioms by simp
  with init r f(1) show ?thesis by blast
qed

theorem fifo_switch_blocks_stray_witness:
  "\<exists>s s1. fifo_switch demo_os s = Inr s1 \<and> running s1 \<noteq> running s \<and> running s = -1 \<and> running s1 = int 0"
proof -
  let ?s = "\<lparr>procs = [\<lparr>name = ''P1'', ready = 0, exec = 2, waiting = 0, pid = 100\<rparr>], running = -1,
    finish = 0, time_cnt = 0, trace = []\<rparr>"
  let ?next = "projr (fifo_switch demo_os ?s)"
  have s: "fifo_switch demo_os ?s = Inr ?next" by (rule res_ok) code_simp
  have r: "running ?next \<noteq> running ?s" "running ?next = int 0" by code_simp+
  with fifo_switch_blocks_stray [OF s r(1)] s show ?thesis by blast
qed

end
