(* ===== verification/Shortest_Remaining.thy ===== *)
theory Shortest_Remaining
  imports Work_Conserving Selection
begin

text \<open>
  Shortest remaining time first on bare jobs, and why it is worth having: at every moment it has
  completed at least as many jobs as any other schedule, with or without idling, could have. The
  proof compares, for every set of jobs, the work left in it with the work SRTF has left in some
  set of the same size.
\<close>

section \<open>The policy\<close>

text \<open>The policy on bare jobs: serve the first of the arrived jobs with the least work left.\<close>

definition srtf_choice :: "int \<Rightarrow> job list \<Rightarrow> nat option" where
  "srtf_choice t js =
     best (\<lambda>i. fst (js ! i) \<le> t \<and> 0 < snd (js ! i)) (\<lambda>i. snd (js ! i)) (length js)"

definition srtf_step :: "int \<Rightarrow> job list \<Rightarrow> job list" where
  "srtf_step t js = (case srtf_choice t js of
     None \<Rightarrow> js | Some i \<Rightarrow> js[i := (fst (js ! i), snd (js ! i) - 1)])"

lemma srtf_served: "served t js (srtf_step t js)"
proof (cases "srtf_choice t js")
  case None
  then have "\<forall>i<length js. \<not> (fst (js ! i) \<le> t \<and> 0 < snd (js ! i))"
    by (simp add: srtf_choice_def best_None)
  then have "\<And>j. j \<in> set js \<Longrightarrow> 0 < snd j \<Longrightarrow> t < fst j" by (metis in_set_conv_nth not_less)
  with None show ?thesis by (simp add: srtf_step_def served_idle)
next
  case (Some i)
  then have "i < length js" "fst (js ! i) \<le> t" "0 < snd (js ! i)"
    by (auto simp: srtf_choice_def dest!: best_Some)
  with Some show ?thesis by (simp add: srtf_step_def served_busy)
qed

primrec srtf_run :: "job list \<Rightarrow> nat \<Rightarrow> job list" where
  "srtf_run js 0 = js"
| "srtf_run js (Suc k) = srtf_step (int k) (srtf_run js k)"

text \<open>Any schedule: in each unit it serves some arrived job, or none.\<close>

inductive any_schedule :: "job list \<Rightarrow> nat \<Rightarrow> job list \<Rightarrow> bool" for js where
  begin_schedule: "any_schedule js 0 js"
| idle_unit: "any_schedule js k ks \<Longrightarrow> any_schedule js (Suc k) ks"
| serve_unit: "any_schedule js k ks \<Longrightarrow> i < length ks \<Longrightarrow> fst (ks ! i) \<le> int k \<Longrightarrow> 0 < snd (ks ! i) \<Longrightarrow>
    any_schedule js (Suc k) (ks[i := (fst (ks ! i), snd (ks ! i) - 1)])"

definition completed :: "job list \<Rightarrow> nat" where
  "completed js = length (filter (\<lambda>j. snd j = 0) js)"

section \<open>Comparing what is left\<close>

definition dominates :: "nat \<Rightarrow> (nat \<Rightarrow> int) \<Rightarrow> (nat \<Rightarrow> int) \<Rightarrow> bool" where
  "dominates n a b \<longleftrightarrow> (\<forall>S \<subseteq> {..<n}. \<exists>T \<subseteq> {..<n}. card T = card S \<and> sum a T \<le> sum b S)"

lemma dominates_refl: "dominates n a a"
  by (auto simp: dominates_def)

lemma dominates_cong:
  assumes "dominates n a b" and "\<And>i. i < n \<Longrightarrow> a i = a' i" and "\<And>i. i < n \<Longrightarrow> b i = b' i"
  shows "dominates n a' b'"
proof -
  have "sum a T = sum a' T" "sum b T = sum b' T" if "T \<subseteq> {..<n}" for T
    using that assms(2,3) by (auto intro!: sum.cong)
  then show ?thesis using assms(1) unfolding dominates_def by metis
qed

lemma sum_swap:
  assumes "finite T" "j \<in> T" "i \<notin> T"
  shows "card (insert i (T - {j})) = card T" and "sum a (insert i (T - {j})) = sum a T - a j + (a i :: int)"
proof -
  have "Suc (card (T - {j})) = card T" using assms(1,2) by (rule card_Suc_Diff1)
  then show "card (insert i (T - {j})) = card T" using assms(1,3) by simp
  show "sum a (insert i (T - {j})) = sum a T - a j + a i"
    using assms by (simp add: sum_diff1)
qed

lemma sum_dec:
  fixes a :: "nat \<Rightarrow> int"
  assumes "finite T"
  shows "sum (a(i := a i - 1)) T = sum a T - (if i \<in> T then 1 else 0)"
proof -
  have "sum (a(i := a i - 1)) T = (\<Sum>x\<in>T. a x - (if x = i then 1 else 0))"
    by (intro sum.cong) auto
  also have "\<dots> = sum a T - (if i \<in> T then 1 else 0)"
    using assms by (simp add: sum_subtractf)
  finally show ?thesis .
qed

text \<open>Serving the smallest positive amount keeps the lead over anything that serves one unit.\<close>

lemma dominates_serve:
  assumes dom: "dominates n a b" and nn: "\<And>k. k < n \<Longrightarrow> 0 \<le> a k" "\<And>k. k < n \<Longrightarrow> 0 \<le> b' k"
    and i: "i < n" "0 < a i" "\<And>k. k < n \<Longrightarrow> 0 < a k \<Longrightarrow> a i \<le> a k"
    and b': "\<And>S. S \<subseteq> {..<n} \<Longrightarrow> sum b S - 1 \<le> sum b' S"
  shows "dominates n (a(i := a i - 1)) b'"
  unfolding dominates_def
proof (intro allI impI)
  fix S assume S: "S \<subseteq> {..<n}"
  from dom S obtain T where T: "T \<subseteq> {..<n}" "card T = card S" "sum a T \<le> sum b S"
    unfolding dominates_def by blast
  have fin: "finite T" using T(1) finite_subset by blast
  show "\<exists>T \<subseteq> {..<n}. card T = card S \<and> sum (a(i := a i - 1)) T \<le> sum b' S"
  proof (cases "\<exists>j\<in>T. 0 < a j")
    case False
    then have zero: "\<And>k. k \<in> T \<Longrightarrow> a k = 0" using T(1) nn(1) by (force simp: not_less)
    then have "i \<notin> T" using i(2) by auto
    moreover have "sum a T = 0" using zero by simp
    moreover have "0 \<le> sum b' S" using S nn(2) by (intro sum_nonneg) auto
    moreover have "sum (a(i := a i - 1)) T = sum a T"
      using sum_dec [OF fin, of a i] \<open>i \<notin> T\<close> by simp
    ultimately have "sum (a(i := a i - 1)) T \<le> sum b' S" by simp
    with T(1,2) show ?thesis by blast
  next
    case True
    then obtain j where j: "j \<in> T" "0 < a j" by blast
    let ?T = "if i \<in> T then T else insert i (T - {j})"
    have "?T \<subseteq> {..<n}" "card ?T = card S" "i \<in> ?T" "finite ?T"
      using T(1,2) fin i(1) j(1) sum_swap(1) [of T j i] by auto
    moreover have "sum a ?T \<le> sum a T"
      using i(3) [of j] j T(1) fin sum_swap(2) [of T j i a] by auto
    then have "sum (a(i := a i - 1)) ?T \<le> sum b' S"
      using sum_dec [OF \<open>finite ?T\<close>, of a i] \<open>i \<in> ?T\<close> T(3) b' [OF S] by simp
    ultimately show ?thesis by blast
  qed
qed

text \<open>The same amount arriving at the same place on both sides keeps the lead.\<close>

lemma sum_arrive:
  fixes a :: "nat \<Rightarrow> int"
  assumes "finite T" and "a i = 0"
  shows "sum (a(i := e)) T = sum a T + (if i \<in> T then e else 0)"
proof -
  have "sum (a(i := e)) T = (\<Sum>x\<in>T. a x + (if x = i then e else 0))"
    using assms(2) by (intro sum.cong) auto
  also have "\<dots> = sum a T + (if i \<in> T then e else 0)"
    using assms(1) by (simp add: sum.distrib)
  finally show ?thesis .
qed

lemma dominates_arrive:
  assumes dom: "dominates n a b" and nn: "\<And>k. k < n \<Longrightarrow> 0 \<le> a k"
    and i: "i < n" "a i = 0" "b i = 0"
  shows "dominates n (a(i := e)) (b(i := e))"
  unfolding dominates_def
proof (intro allI impI)
  fix S assume S: "S \<subseteq> {..<n}"
  then have finS: "finite S" using finite_subset by blast
  have bi: "sum b (insert i S) = sum b S" using finS i(3) by (simp add: sum.insert_if)
  from dom S i(1) obtain T where T: "T \<subseteq> {..<n}" "card T = card (insert i S)" "sum a T \<le> sum b S"
    unfolding dominates_def by (metis bi insert_subset lessThan_iff)
  have finT: "finite T" using T(1) finite_subset by blast
  have "T \<noteq> {}" using T(2) finS by auto
  then obtain j where j: "j \<in> T" "i \<in> T \<Longrightarrow> j = i" by blast
  have aj: "0 \<le> a j" using j(1) T(1) nn by blast
  let ?U = "T - {j}"
  have U: "?U \<subseteq> {..<n}" "finite ?U" "i \<notin> ?U" "sum a ?U \<le> sum a T"
    using T(1) finT j aj by (auto simp: sum_diff1)
  show "\<exists>T \<subseteq> {..<n}. card T = card S \<and> sum (a(i := e)) T \<le> sum (b(i := e)) S"
  proof (cases "i \<in> S")
    case True
    have "sum a (insert i ?U) \<le> sum a T" using U i(2) by (simp add: sum.insert_if)
    moreover have "card (insert i ?U) = card S"
      using T(2) True U(2,3) card_Suc_Diff1 [OF finT j(1)] by (simp add: insert_absorb)
    moreover have "sum (a(i := e)) (insert i ?U) = sum a (insert i ?U) + e"
      using sum_arrive [of "insert i ?U" a i e] U(2) i(2) by simp
    moreover have "sum (b(i := e)) S = sum b S + e"
      using sum_arrive [of S b i e] finS i(3) True by simp
    ultimately have "sum (a(i := e)) (insert i ?U) \<le> sum (b(i := e)) S" using T(3) by linarith
    moreover have "insert i ?U \<subseteq> {..<n}" using U(1) i(1) by simp
    ultimately show ?thesis using \<open>card (insert i ?U) = card S\<close> by blast
  next
    case False
    then have "card ?U = card S" using T(2) finS finT j(1) by simp
    moreover have "sum (a(i := e)) ?U = sum a ?U" using sum_arrive [of ?U a i e] U(2,3) i(2) by (simp only: if_False diff_add_cancel add_0_right)
    moreover have "sum (b(i := e)) S = sum b S" using sum_arrive [of S b i e] finS i(3) False by simp
    ultimately have "sum (a(i := e)) ?U \<le> sum (b(i := e)) S" using U(4) T(3) by linarith
    with \<open>card ?U = card S\<close> U(1) show ?thesis by blast
  qed
qed

lemma dominates_zeros:
  assumes "dominates n a b" and "\<And>k. k < n \<Longrightarrow> 0 \<le> a k"
  shows "card {i. i < n \<and> b i = 0} \<le> card {i. i < n \<and> a i = 0}"
proof -
  have "{i. i < n \<and> b i = 0} \<subseteq> {..<n}" by auto
  then obtain T where T: "T \<subseteq> {..<n}" "card T = card {i. i < n \<and> b i = 0}"
    "sum a T \<le> sum b {i. i < n \<and> b i = 0}"
    using assms(1) unfolding dominates_def by meson
  have fin: "finite T" using T(1) finite_subset by blast
  have nn: "\<And>k. k \<in> T \<Longrightarrow> 0 \<le> a k" using T(1) assms(2) by blast
  have "sum b {i. i < n \<and> b i = 0} = 0" by (rule sum.neutral) blast
  then have "sum a T = 0" using T(3) sum_nonneg [of T a] nn by fastforce
  then have "\<forall>k\<in>T. a k = 0" using sum_nonneg_eq_0_iff [OF fin, of a] nn by blast
  then have "T \<subseteq> {i. i < n \<and> a i = 0}" using T(1) by auto
  then have "card T \<le> card {i. i < n \<and> a i = 0}" by (intro card_mono) auto
  then show ?thesis using T(2) by simp
qed

section \<open>The lead of shortest remaining time first\<close>

text \<open>What of each job is visible at time \<open>t\<close>: nothing before it has arrived.\<close>

definition seen :: "int \<Rightarrow> job list \<Rightarrow> nat \<Rightarrow> int" where
  "seen t js i = (if fst (js ! i) \<le> t then snd (js ! i) else 0)"

text \<open>Several arrivals at once.\<close>

lemma dominates_arrivals:
  assumes "finite A"
  shows "dominates n a b \<Longrightarrow> (\<And>k. k < n \<Longrightarrow> 0 \<le> a k) \<Longrightarrow>
    (\<And>i. i \<in> A \<Longrightarrow> i < n \<and> a i = 0 \<and> b i = 0 \<and> 0 \<le> e i) \<Longrightarrow>
    dominates n (\<lambda>i. if i \<in> A then e i else a i) (\<lambda>i. if i \<in> A then e i else b i)"
  using assms
proof (induction A rule: finite_induct)
  case empty
  then show ?case by simp
next
  case (insert x A)
  let ?a = "\<lambda>i. if i \<in> A then e i else a i" and ?b = "\<lambda>i. if i \<in> A then e i else b i"
  have "dominates n ?a ?b" using insert.prems insert.IH by auto
  moreover have "0 \<le> ?a k" if "k < n" for k using insert.prems(2,3) that by auto
  ultimately have "dominates n (?a(x := e x)) (?b(x := e x))"
    using insert.prems(3) [of x] insert.hyps(2) by (intro dominates_arrive) auto
  then show ?case by (rule dominates_cong) auto
qed

text \<open>The two schedules see the same jobs arrive.\<close>

lemma srtf_step_arrivals: "length (srtf_step t js) = length js \<and> map fst (srtf_step t js) = map fst js"
  using served_arrivals [OF srtf_served] by (metis length_map)

lemma srtf_run_props:
  assumes "\<forall>j\<in>set js. 0 \<le> snd j"
  shows "length (srtf_run js k) = length js" and "map fst (srtf_run js k) = map fst js"
    and "\<forall>j\<in>set (srtf_run js k). 0 \<le> snd j"
    and "i < length js \<Longrightarrow> int k \<le> fst (js ! i) \<Longrightarrow> snd (srtf_run js k ! i) = snd (js ! i)"
proof -
  have "length (srtf_run js k) = length js \<and> map fst (srtf_run js k) = map fst js \<and>
    (\<forall>j\<in>set (srtf_run js k). 0 \<le> snd j) \<and>
    (\<forall>i<length js. int k \<le> fst (js ! i) \<longrightarrow> snd (srtf_run js k ! i) = snd (js ! i))"
    using assms
  proof (induction k)
    case (Suc k)
    let ?js = "srtf_run js k"
    have IH: "length ?js = length js" "map fst ?js = map fst js" "\<forall>j\<in>set ?js. 0 \<le> snd j"
      "\<forall>i<length js. int k \<le> fst (js ! i) \<longrightarrow> snd (?js ! i) = snd (js ! i)" using Suc by auto
    have same: "fst (?js ! i) = fst (js ! i)" if "i < length js" for i
      using that IH(1,2) by (metis nth_map)
    show ?case
    proof (cases "srtf_choice (int k) ?js")
      case None
      with IH show ?thesis by (simp add: srtf_step_def)
    next
      case (Some i)
      then have i: "i < length js" "fst (?js ! i) \<le> int k" "0 < snd (?js ! i)"
        using IH(1) by (auto simp: srtf_choice_def dest!: best_Some)
      have "\<forall>j\<in>set (?js[i := (fst (?js ! i), snd (?js ! i) - 1)]). 0 \<le> snd j"
        using IH(3) i(3) set_update_subset_insert [of ?js i] by fastforce
      moreover have "\<forall>j<length js. int (Suc k) \<le> fst (js ! j) \<longrightarrow>
          snd (?js[i := (fst (?js ! i), snd (?js ! i) - 1)] ! j) = snd (js ! j)"
        using IH(1,4) i same by (auto simp: nth_list_update)
      ultimately show ?thesis
        using Some IH(1,2) srtf_step_arrivals [of "int k" ?js] by (simp add: srtf_step_def)
    qed
  qed simp
  then show "length (srtf_run js k) = length js" "map fst (srtf_run js k) = map fst js"
    "\<forall>j\<in>set (srtf_run js k). 0 \<le> snd j"
    "i < length js \<Longrightarrow> int k \<le> fst (js ! i) \<Longrightarrow> snd (srtf_run js k ! i) = snd (js ! i)" by auto
qed

lemma any_schedule_props:
  assumes "any_schedule js k ks" and "\<forall>j\<in>set js. 0 \<le> snd j"
  shows "length ks = length js \<and> map fst ks = map fst js \<and> (\<forall>j\<in>set ks. 0 \<le> snd j) \<and>
    (\<forall>i<length js. int k \<le> fst (js ! i) \<longrightarrow> snd (ks ! i) = snd (js ! i))"
  using assms
proof (induction rule: any_schedule.induct)
  case (serve_unit k ks i)
  then have IH: "length ks = length js" "map fst ks = map fst js" "\<forall>j\<in>set ks. 0 \<le> snd j"
    "\<forall>i<length js. int k \<le> fst (js ! i) \<longrightarrow> snd (ks ! i) = snd (js ! i)" by auto
  have same: "fst (ks ! i) = fst (js ! i)" if "i < length js" for i
    using that IH(1,2) by (metis nth_map)
  have "\<forall>j\<in>set (ks[i := (fst (ks ! i), snd (ks ! i) - 1)]). 0 \<le> snd j"
    using IH(3) serve_unit.hyps(4) set_update_subset_insert [of ks i] by fastforce
  moreover have "map fst (ks[i := (fst (ks ! i), snd (ks ! i) - 1)]) = map fst ks"
    using serve_unit.hyps(2) by (simp add: map_update) (metis list_update_id nth_map)
  ultimately show ?case
    using IH same serve_unit.hyps(2,3) by (auto simp: nth_list_update)
qed auto

text \<open>One unit.\<close>

lemma seen_nonneg: "\<forall>j\<in>set js. 0 \<le> snd j \<Longrightarrow> i < length js \<Longrightarrow> 0 \<le> seen t js i"
  by (simp add: seen_def)

lemma seen_serve:
  assumes "i < length js" and "fst (js ! i) \<le> t" and "k < length js"
  shows "seen t (js[i := (fst (js ! i), snd (js ! i) - 1)]) k = ((seen t js)(i := seen t js i - 1)) k"
  using assms by (simp add: seen_def nth_list_update)

lemma srtf_step_leads:
  assumes dom: "dominates n (seen t js) b" and len: "length js = n"
    and nn: "\<forall>j\<in>set js. 0 \<le> snd j" "\<And>k. k < n \<Longrightarrow> 0 \<le> b' k"
    and b': "\<And>S. S \<subseteq> {..<n} \<Longrightarrow> sum b S - 1 \<le> sum b' S"
  shows "dominates n (seen t (srtf_step t js)) b'"
proof (cases "srtf_choice t js")
  case None
  then have "\<forall>i<n. \<not> (fst (js ! i) \<le> t \<and> 0 < snd (js ! i))"
    using len by (simp add: srtf_choice_def best_None)
  then have zero: "seen t js i = 0" if "i < n" for i
    using that nn(1) len nth_mem [of i js] by (fastforce simp: seen_def not_less)
  have "sum (seen t js) S = 0" "0 \<le> sum b' S" if "S \<subseteq> {..<n}" for S
    using that zero nn(2) by (auto intro!: sum.neutral sum_nonneg)
  then have "\<exists>T \<subseteq> {..<n}. card T = card S \<and> sum (seen t js) T \<le> sum b' S" if "S \<subseteq> {..<n}" for S
    using that by (intro exI [of _ S]) simp
  then show ?thesis using None by (simp add: srtf_step_def dominates_def)
next
  case (Some i)
  note best = best_Some [OF Some [unfolded srtf_choice_def]]
  have i: "i < n" "fst (js ! i) \<le> t" "0 < snd (js ! i)" using best len by auto
  have "seen t js i \<le> seen t js k" if "k < n" "0 < seen t js k" for k
    using that best i len by (auto simp: seen_def split: if_splits)
  then have "dominates n ((seen t js)(i := seen t js i - 1)) b'"
    using i nn len by (intro dominates_serve [OF dom _ _ i(1) _ _ b'] seen_nonneg) (auto simp: seen_def)
  then show ?thesis
    by (rule dominates_cong) (use Some i len seen_serve [of i js t] in \<open>auto simp: srtf_step_def\<close>)
qed

text \<open>The arrivals of the next unit.\<close>

lemma seen_next:
  assumes "\<And>i. i < n \<Longrightarrow> fst (ks ! i) = fst (js ! i)"
    and "\<And>i. i < n \<Longrightarrow> t + 1 \<le> fst (js ! i) \<Longrightarrow> snd (ks ! i) = snd (js ! i)" and "i < n"
  shows "(if i \<in> {i. i < n \<and> fst (js ! i) = t + 1} then snd (js ! i) else seen t ks i) = seen (t + 1) ks i"
  using assms by (auto simp: seen_def)

lemma any_schedule_serves:
  assumes "any_schedule js (Suc k) ks" and "\<forall>j\<in>set js. 0 \<le> snd j"
  shows "\<exists>ks0. any_schedule js k ks0 \<and>
    (\<forall>S\<subseteq>{..<length js}. sum (seen (int k) ks0) S - 1 \<le> sum (seen (int k) ks) S)"
  using assms(1)
proof (cases rule: any_schedule.cases)
  case idle_unit
  then show ?thesis by (intro exI [of _ ks]) simp
next
  case (serve_unit ks0 i)
  have len: "length ks0 = length js" using any_schedule_props [OF serve_unit(2) assms(2)] by blast
  have "sum (seen (int k) ks0) S - 1 \<le> sum (seen (int k) ks) S" if S: "S \<subseteq> {..<length js}" for S
  proof -
    have fin: "finite S" using S finite_subset by blast
    have "sum (seen (int k) ks) S = sum ((seen (int k) ks0)(i := seen (int k) ks0 i - 1)) S"
      using seen_serve [of i ks0 "int k"] serve_unit S len by (intro sum.cong) auto
    then show ?thesis using sum_dec [OF fin, of "seen (int k) ks0" i] by simp
  qed
  with serve_unit(2) show ?thesis by blast
qed

lemma srtf_leads:
  assumes nn: "\<forall>j\<in>set js. 0 \<le> snd j" and "any_schedule js k ks"
  shows "dominates (length js) (seen (int k) (srtf_run js k)) (seen (int k) ks)"
  using assms(2)
proof (induction k arbitrary: ks)
  case 0
  then have "ks = js" by (auto elim: any_schedule.cases)
  then show ?case by (simp add: dominates_refl)
next
  case (Suc k)
  let ?n = "length js" and ?A = "{i. i < length js \<and> fst (js ! i) = int k + 1}"
  let ?next = "\<lambda>a i. if i \<in> ?A then snd (js ! i) else a i"
  note sp = srtf_run_props [OF nn] and ap = any_schedule_props [OF Suc.prems nn]
  from any_schedule_serves [OF Suc.prems nn] obtain ks0 where
    ks0: "any_schedule js k ks0"
      "\<And>S. S\<subseteq>{..<?n} \<Longrightarrow> sum (seen (int k) ks0) S - 1 \<le> sum (seen (int k) ks) S" by blast
  have "dominates ?n (seen (int k) (srtf_step (int k) (srtf_run js k))) (seen (int k) ks)"
    using ap by (intro srtf_step_leads [OF Suc.IH [OF ks0(1)] sp(1) sp(3) _ ks0(2)] seen_nonneg) auto
  then have d: "dominates ?n (seen (int k) (srtf_run js (Suc k))) (seen (int k) ks)" by simp
  have fst_eq: "fst (srtf_run js l ! i) = fst (js ! i)" "fst (ks ! i) = fst (js ! i)" if "i < ?n" for i l
    using that sp(1,2) [of l] ap by (metis nth_map)+
  have "dominates ?n (?next (seen (int k) (srtf_run js (Suc k)))) (?next (seen (int k) ks))"
  proof (rule dominates_arrivals [OF _ d])
    show "0 \<le> seen (int k) (srtf_run js (Suc k)) i" if "i < ?n" for i
      using that sp(1,3) [of "Suc k"] by (intro seen_nonneg) (auto simp del: srtf_run.simps)
    show "i < ?n \<and> seen (int k) (srtf_run js (Suc k)) i = 0 \<and> seen (int k) ks i = 0 \<and> 0 \<le> snd (js ! i)"
      if "i \<in> ?A" for i
      using that fst_eq(1) [of i "Suc k"] fst_eq(2) [of i] nn unfolding seen_def by auto
  qed simp
  then have "dominates ?n (seen (int k + 1) (srtf_run js (Suc k))) (seen (int k + 1) ks)"
  proof (rule dominates_cong)
    fix i assume i: "i < ?n"
    show "?next (seen (int k) (srtf_run js (Suc k))) i = seen (int k + 1) (srtf_run js (Suc k)) i"
      by (rule seen_next [OF _ _ i]) (use fst_eq sp(4) [of _ "Suc k"] in \<open>auto simp del: srtf_run.simps\<close>)
    show "?next (seen (int k) ks) i = seen (int k + 1) ks i"
      by (rule seen_next [OF _ _ i]) (use fst_eq ap in auto)
  qed
  then show ?case by (simp add: add.commute)
qed

lemma completed_seen:
  assumes "length ks = length js" and "map fst ks = map fst js"
    and "\<forall>i<length js. t \<le> fst (js ! i) \<longrightarrow> snd (ks ! i) = snd (js ! i)"
  shows "completed ks + card {i. i < length js \<and> t < fst (js ! i) \<and> snd (js ! i) \<noteq> 0} =
    card {i. i < length js \<and> seen t ks i = 0}"
proof -
  have f: "fst (ks ! i) = fst (js ! i)" if "i < length js" for i using that assms(1,2) by (metis nth_map)
  have "completed ks = card {i. i < length js \<and> snd (ks ! i) = 0}"
    using assms(1) by (simp add: completed_def length_filter_conv_card)
  moreover have "{i. i < length js \<and> seen t ks i = 0} =
      {i. i < length js \<and> snd (ks ! i) = 0} \<union> {i. i < length js \<and> t < fst (js ! i) \<and> snd (js ! i) \<noteq> 0}"
    using f assms(3) by (auto simp: seen_def split: if_splits)
  moreover have "card ({i. i < length js \<and> snd (ks ! i) = 0} \<union>
      {i. i < length js \<and> t < fst (js ! i) \<and> snd (js ! i) \<noteq> 0}) =
    card {i. i < length js \<and> snd (ks ! i) = 0} +
      card {i. i < length js \<and> t < fst (js ! i) \<and> snd (js ! i) \<noteq> 0}"
    using assms(3) by (intro card_Un_disjoint) auto
  ultimately show ?thesis by simp
qed

text \<open>At every moment shortest remaining time first has completed the most jobs.\<close>

lemma srtf_optimal:
  assumes nn: "\<forall>j\<in>set js. 0 \<le> snd j" and "any_schedule js k ks"
  shows "completed ks \<le> completed (srtf_run js k)"
proof -
  note sp = srtf_run_props [OF nn] and ap = any_schedule_props [OF assms(2) nn]
  let ?u = "card {i. i < length js \<and> int k < fst (js ! i) \<and> snd (js ! i) \<noteq> 0}"
  have "0 \<le> seen (int k) (srtf_run js k) i" if "i < length js" for i
    using that sp(1,3) by (intro seen_nonneg) auto
  note z = dominates_zeros [OF srtf_leads [OF assms] this]
  have "completed ks + ?u = card {i. i < length js \<and> seen (int k) ks i = 0}"
    using ap by (intro completed_seen) auto
  moreover have "completed (srtf_run js k) + ?u = card {i. i < length js \<and> seen (int k) (srtf_run js k) i = 0}"
    by (rule completed_seen) (use sp in auto)
  ultimately show ?thesis using z by linarith
qed

end
