(* ===== verification/PSJF_Sched.thy ===== *)
theory PSJF_Sched
  imports Process_Table Shortest_Remaining
begin

text \<open>
  \<^verbatim>\<open>PSJF.c\<close>: preemptive shortest job first. Every unit of time the parent forks the
  processes whose time has come and charges the unit to the process with the least remaining
  execution time. Definitions in the order of the file, then the properties: the searches, one
  round as a round of shortest-remaining-time-first, the whole run, and what the priority requests
  and the uninitialised field \<open>waiting\<close> do.
\<close>

section \<open>The code\<close>

record psjf_state =
  procs :: "process list"
  time :: int
  pre_running :: int
  running :: int
  finished_process :: int
  trace :: trace

definition unit_time :: "trace \<Rightarrow> trace" where
  "unit_time t = Spin (spin_loop 10000000 0 0) # t"

text \<open>
  The test \<open>core > sizeof(cpu_set_t)\<close> compares as unsigned 64-bit numbers, and the size is 128.
\<close>

definition proc_assign_cpu :: "os \<Rightarrow> int \<Rightarrow> int \<Rightarrow> trace \<Rightarrow> (int \<times> trace) res" where
  "proc_assign_cpu E p core t =
     (if (128 :: 64 word) < word_of_int core then Inr (-1, Fprintf_stderr ''Core index error.'' # t)
      else case sched_setaffinity E p (cpu_mask core) t of (r, t1) \<Rightarrow>
        if r < 0 then Inl (Exited 1 (Perror ''sched_setaffinity'' # t1)) else Inr (0, t1))"

function child_units :: "int \<Rightarrow> int \<Rightarrow> trace \<Rightarrow> trace" where
  "child_units i n t = (if i < n then child_units (i + 1) n (unit_time t) else t)"
  by pat_completeness auto
termination by (relation "measure (\<lambda>(i, n, t). nat (n - i))") auto

definition process_ready :: "os \<Rightarrow> process \<Rightarrow> trace \<Rightarrow> (int \<times> trace) res" where
  "process_ready E pros t =
     (let p = fork_ret E t; t1 = Fork p # t in
      if p = 0 then
        (let t2 = Printf ''I am a child process my name is: %s\<newline>'' [S (name pros)] # t1;
             t3 = child_units 0 (exec pros) t2
         in Inl (Exited 0 (Printf ''process name:%s is finished\<newline>'' [S (name pros)] # t3)))
      else bindr (proc_assign_cpu E p 1 t1) (\<lambda>(_, t2). Inr (p, t2)))"

text \<open>The loop of \<open>find_min_index\<close> with its variables \<open>i\<close>, \<open>index\<close> and \<open>min\<close>.\<close>

function find_min_scan :: "process list \<Rightarrow> nat \<Rightarrow> int \<Rightarrow> int \<Rightarrow> int" where
  "find_min_scan ps i index least =
     (if i < length ps then
        (let value = exec (ps ! i) in
         if value < least \<and> waiting (ps ! i) = 1 then find_min_scan ps (Suc i) (int i) value
         else find_min_scan ps (Suc i) index least)
      else index)"
  by pat_completeness auto
termination by (relation "measure (\<lambda>(ps, i, index, least). length ps - i)") (auto simp: Let_def)

definition find_min_index :: "process list \<Rightarrow> int" where
  "find_min_index ps = find_min_scan ps 0 0 INT_MAX"

fun some_process_is_ready :: "process list \<Rightarrow> bool" where
  "some_process_is_ready [] = False"
| "some_process_is_ready (p # ps) = (if waiting p = 1 then True else some_process_is_ready ps)"

text \<open>One process whose time has come.\<close>

definition psjf_start :: "os \<Rightarrow> process \<Rightarrow> trace \<Rightarrow> (process \<times> trace) res" where
  "psjf_start E p t =
     bindr (process_ready E p t) (\<lambda>(c, t1).
       let t2 = Printf ''%d\<newline>'' [D c] # t1 in
       case sched_setscheduler E c SCHED_FIFO 10 t2 of (ret, t3) \<Rightarrow>
         Inr (p\<lparr>pid := c, waiting := 1\<rparr>, if ret = -1 then Printf ''block error\<newline>'' [] # t3 else t3))"

definition psjf_spawn :: "os \<Rightarrow> int \<Rightarrow> process list \<Rightarrow> trace \<Rightarrow> (process list \<times> trace) res" where
  "psjf_spawn E tm ps t = spawn_all (psjf_start E) tm ps t"

text \<open>The priority requests when another process is chosen.\<close>

definition psjf_requests :: "os \<Rightarrow> int \<Rightarrow> int \<Rightarrow> trace \<Rightarrow> trace" where
  "psjf_requests E run pre t =
     (if run \<noteq> pre then
        let t1 = (if pre \<noteq> -1 then
              (case sched_setscheduler E pre SCHED_FIFO 90 t of (ret2, u) \<Rightarrow>
                 if ret2 = -1 then Printf ''pre_running error%d'' [D pre] # u else u)
            else t)
        in (case sched_setscheduler E run SCHED_FIFO 10 t1 of (ret3, u) \<Rightarrow>
              if ret3 = -1 then Printf ''running error:%d '' [D run] # u else u)
      else t)"

text \<open>Choosing, switching and charging the unit.\<close>

definition psjf_select :: "os \<Rightarrow> psjf_state \<Rightarrow> psjf_state res" where
  "psjf_select E s =
     (if some_process_is_ready (procs s) then
        (let index = find_min_index (procs s) in
         bindr (arr_get (procs s) index) (\<lambda>p.
           let run = pid p; t1 = psjf_requests E run (pre_running s) (trace s) in
           bindr (c_int (exec p - 1)) (\<lambda>e.
             if e = 0 then
               bindr (arr_set (procs s) index (p\<lparr>exec := e, waiting := 0\<rparr>)) (\<lambda>ps.
                 bindr (c_int (finished_process s + 1)) (\<lambda>f.
                   Inr (s\<lparr>procs := ps, running := run, pre_running := run, trace := t1, finished_process := f\<rparr>)))
             else
               bindr (arr_set (procs s) index (p\<lparr>exec := e\<rparr>)) (\<lambda>ps.
                 Inr (s\<lparr>procs := ps, running := run, pre_running := run, trace := t1\<rparr>)))))
      else Inr s)"

text \<open>One round of \<open>while (finished_process != n_proc)\<close>.\<close>

definition psjf_body :: "os \<Rightarrow> int \<Rightarrow> psjf_state \<Rightarrow> (bool \<times> psjf_state) res" where
  "psjf_body E n_proc s =
     (if finished_process s \<noteq> n_proc then
        bindr (psjf_spawn E (time s) (procs s) (trace s)) (\<lambda>(ps, t).
          bindr (psjf_select E (s\<lparr>procs := ps, trace := t\<rparr>)) (\<lambda>s1.
            bindr (c_int (time s1 + 1)) (\<lambda>tm.
              Inr (False, s1\<lparr>trace := unit_time (trace s1), time := tm\<rparr>))))
      else Inr (True, s))"

definition psjf_init :: "os \<Rightarrow> process list \<Rightarrow> trace \<Rightarrow> psjf_state res" where
  "psjf_init E proc t =
     bindr (proc_assign_cpu E (getpid_ret E t) 0 t) (\<lambda>(_, t1).
       Inr \<lparr>procs = proc, time = 0, pre_running = -1, running = -1, finished_process = 0, trace = t1\<rparr>)"

definition PSJF :: "os \<Rightarrow> process list \<Rightarrow> int \<Rightarrow> trace \<Rightarrow> psjf_state res option" where
  "PSJF E proc n_proc t =
     (case psjf_init E proc t of
        Inl e \<Rightarrow> Some (Inl e)
      | Inr s \<Rightarrow> run_loop (psjf_body E n_proc) s)"

declare child_units.simps [simp del] find_min_scan.simps [simp del]

section \<open>The functions of the file\<close>

lemma some_ready_iff: "some_process_is_ready ps \<longleftrightarrow> (\<exists>p\<in>set ps. waiting p = 1)"
  by (induction ps) auto

lemma psjf_child_units:
  "child_units i n t = replicate (nat (n - i)) (Spin 10000000) @ t"
proof (induction i n t rule: child_units.induct)
  case (1 i n t)
  show ?case
  proof (cases "i < n")
    case True
    then have "nat (n - i) = Suc (nat (n - (i + 1)))" by simp
    with 1 [OF True] True show ?thesis
      by (simp add: child_units.simps [of i n] unit_time_def replicate_append_same
          flip: replicate_Suc append_Cons append_assoc)
  next
    case False
    then show ?thesis by (simp add: child_units.simps [of i n])
  qed
qed

lemma find_min_scan_best:
  assumes "i \<le> length ps"
    and "r = best (\<lambda>j. waiting (ps ! j) = 1 \<and> exec (ps ! j) < INT_MAX) (\<lambda>j. exec (ps ! j)) i"
  shows "find_min_scan ps i (case r of None \<Rightarrow> 0 | Some j \<Rightarrow> int j)
      (case r of None \<Rightarrow> INT_MAX | Some j \<Rightarrow> exec (ps ! j)) =
    (case best (\<lambda>j. waiting (ps ! j) = 1 \<and> exec (ps ! j) < INT_MAX) (\<lambda>j. exec (ps ! j)) (length ps) of
       None \<Rightarrow> 0 | Some j \<Rightarrow> int j)"
  using assms
proof (induction "length ps - i" arbitrary: i r)
  case 0
  then show ?case by (simp add: find_min_scan.simps [of ps i])
next
  case (Suc d)
  then have i: "i < length ps" by simp
  let ?b = "best (\<lambda>j. waiting (ps ! j) = 1 \<and> exec (ps ! j) < INT_MAX) (\<lambda>j. exec (ps ! j))"
  have IH: "find_min_scan ps (Suc i) (case ?b (Suc i) of None \<Rightarrow> 0 | Some j \<Rightarrow> int j)
      (case ?b (Suc i) of None \<Rightarrow> INT_MAX | Some j \<Rightarrow> exec (ps ! j)) =
    (case ?b (length ps) of None \<Rightarrow> 0 | Some j \<Rightarrow> int j)"
    using Suc.hyps(2) i by (intro Suc.hyps(1)) auto
  show ?case
  proof (cases r)
    case None
    with IH i Suc.prems(2) show ?thesis
      by (subst find_min_scan.simps) (auto simp: Let_def split: if_splits)
  next
    case (Some j)
    then have "?b i = Some j" using Suc.prems(2) by simp
    then have "exec (ps ! j) < INT_MAX" by (blast dest: best_Some)
    with Some IH i Suc.prems(2) show ?thesis
      by (subst find_min_scan.simps) (auto simp: Let_def split: if_splits)
  qed
qed

lemma find_min_index_best:
  "find_min_index ps =
    (case best (\<lambda>j. waiting (ps ! j) = 1 \<and> exec (ps ! j) < INT_MAX) (\<lambda>j. exec (ps ! j)) (length ps) of
       None \<Rightarrow> 0 | Some j \<Rightarrow> int j)"
  using find_min_scan_best [of 0 ps None] by (simp add: find_min_index_def)

section \<open>Shortest remaining time first\<close>

definition psjf_spawned :: "int \<Rightarrow> process list \<Rightarrow> process list \<Rightarrow> bool" where
  "psjf_spawned t ps qs \<longleftrightarrow>
     list_all2 (\<lambda>p q. if ready p = t then \<exists>c>0. q = p\<lparr>pid := c, waiting := 1\<rparr> else q = p) ps qs"

lemma psjf_start_ok:
  assumes "forks_ok E"
  shows "\<exists>t'. psjf_start E p t = Inr (p\<lparr>pid := fork_ret E t, waiting := 1\<rparr>, t')"
proof -
  have "0 < fork_ret E t" using assms by (simp add: forks_ok_def)
  then have "fork_ret E t \<noteq> 0" by simp
  moreover have "\<not> setaffinity_ret E u c m < 0" for u c m
    using assms by (simp add: forks_ok_def not_less)
  ultimately show ?thesis
    by (simp add: psjf_start_def process_ready_def proc_assign_cpu_def sched_setaffinity_def
        sched_setscheduler_def Let_def)
qed

lemma psjf_spawn_ok:
  assumes "forks_ok E"
  shows "\<exists>qs t'. psjf_spawn E tm ps t = Inr (qs, t') \<and> psjf_spawned tm ps qs"
  unfolding psjf_spawn_def
proof (induction ps arbitrary: t)
  case Nil
  then show ?case by (simp add: psjf_spawned_def)
next
  case (Cons p ps)
  show ?case
  proof (cases "ready p = tm")
    case True
    obtain t1 where c: "psjf_start E p t = Inr (p\<lparr>pid := fork_ret E t, waiting := 1\<rparr>, t1)"
      using psjf_start_ok [OF assms] by blast
    obtain qs t' where "spawn_all (psjf_start E) tm ps t1 = Inr (qs, t')" "psjf_spawned tm ps qs"
      using Cons.IH by blast
    moreover have "0 < fork_ret E t" using assms by (simp add: forks_ok_def)
    ultimately show ?thesis using True c by (auto simp: psjf_spawned_def)
  next
    case False
    obtain qs t' where "spawn_all (psjf_start E) tm ps t = Inr (qs, t')" "psjf_spawned tm ps qs"
      using Cons.IH by blast
    with False show ?thesis by (auto simp: psjf_spawned_def)
  qed
qed

text \<open>Which processes are marked as waiting: those that have arrived and are not finished.\<close>

definition marked :: "int \<Rightarrow> process list \<Rightarrow> bool" where
  "marked t ps \<longleftrightarrow> (\<forall>p\<in>set ps. 0 \<le> exec p \<and> (waiting p = 1 \<longleftrightarrow> ready p < t \<and> 0 < exec p) \<and>
     (t \<le> ready p \<longrightarrow> 0 < exec p))"

lemma psjf_spawned_props:
  assumes "psjf_spawned t ps qs"
  shows "length qs = length ps" and "jobs_of qs = jobs_of ps" and "map exec qs = map exec ps"
    and "marked t ps \<Longrightarrow> marked (t + 1) qs"
proof -
  show "length qs = length ps" "jobs_of qs = jobs_of ps" "map exec qs = map exec ps"
    using assms unfolding psjf_spawned_def by (induction rule: list_all2_induct; auto split: if_splits)+
  show "marked (t + 1) qs" if "marked t ps"
    using assms that unfolding psjf_spawned_def marked_def
    by (induction rule: list_all2_induct) (force split: if_splits)+
qed

definition psjf_inv :: "os \<Rightarrow> int \<Rightarrow> psjf_state \<Rightarrow> bool" where
  "psjf_inv E n s \<longleftrightarrow> forks_ok E \<and> n = int (length (procs s)) \<and> n \<le> INT_MAX \<and> 0 \<le> time s \<and>
     horizon (time s) (jobs_of (procs s)) < INT_MAX \<and> marked (time s) (procs s) \<and>
     finished_process s = n - unfinished (map exec (procs s))"

lemma psjf_work_zero:
  "psjf_inv E n s \<Longrightarrow> work (jobs_of (procs s)) = 0 \<longleftrightarrow> finished_process s = n"
  using mach_work_zero [of "map exec (procs s)" "map ready (procs s)"]
  by (auto simp: psjf_inv_def marked_def jobs_of_zip)

text \<open>The search finds the job that the policy serves.\<close>

lemma psjf_choice:
  assumes "marked (t + 1) ps" and "\<forall>p\<in>set ps. exec p < INT_MAX"
  shows "some_process_is_ready ps \<longleftrightarrow> srtf_choice t (jobs_of ps) \<noteq> None"
    and "srtf_choice t (jobs_of ps) = Some i \<Longrightarrow> find_min_index ps = int i"
proof -
  have eq: "best (\<lambda>j. waiting (ps ! j) = 1 \<and> exec (ps ! j) < INT_MAX) (\<lambda>j. exec (ps ! j)) (length ps)
      = srtf_choice t (jobs_of ps)"
    unfolding srtf_choice_def using assms by (auto simp: marked_def intro!: best_cong)
  then show "srtf_choice t (jobs_of ps) = Some i \<Longrightarrow> find_min_index ps = int i"
    by (simp add: find_min_index_best)
  have "(\<exists>p\<in>set ps. waiting p = 1) \<longleftrightarrow> (\<exists>i<length ps. waiting (ps ! i) = 1 \<and> exec (ps ! i) < INT_MAX)"
    using assms(2) by (metis in_set_conv_nth)
  then show "some_process_is_ready ps \<longleftrightarrow> srtf_choice t (jobs_of ps) \<noteq> None"
    unfolding some_ready_iff eq [symmetric] best_None by blast
qed

lemma marked_update:
  assumes "marked (t + 1) ps" and "i < length ps" and "ready (ps ! i) \<le> t" and "0 < exec (ps ! i)"
  shows "marked (t + 1) (ps[i := (ps ! i)\<lparr>exec := exec (ps ! i) - 1,
    waiting := if exec (ps ! i) = 1 then 0 else waiting (ps ! i)\<rparr>])"
  unfolding marked_def
proof
  fix p assume "p \<in> set (ps[i := (ps ! i)\<lparr>exec := exec (ps ! i) - 1,
    waiting := if exec (ps ! i) = 1 then 0 else waiting (ps ! i)\<rparr>])"
  then have "p = (ps ! i)\<lparr>exec := exec (ps ! i) - 1,
      waiting := if exec (ps ! i) = 1 then 0 else waiting (ps ! i)\<rparr> \<or> p \<in> set ps"
    using set_update_subset_insert [of ps i] by blast
  moreover have "waiting (ps ! i) = 1" using assms by (simp add: marked_def)
  ultimately show "0 \<le> exec p \<and> (waiting p = 1 \<longleftrightarrow> ready p < t + 1 \<and> 0 < exec p) \<and> (t + 1 \<le> ready p \<longrightarrow> 0 < exec p)"
    using assms by (cases "exec (ps ! i) = 1") (auto simp: marked_def)
qed

lemma psjf_select_ok:
  assumes "marked (time s + 1) (procs s)" and "\<forall>p\<in>set (procs s). exec p < INT_MAX"
    and "0 \<le> finished_process s" and "finished_process s < INT_MAX"
    and "finished_process s = n - unfinished (map exec (procs s))"
  shows "\<exists>s1. psjf_select E s = Inr s1 \<and> jobs_of (procs s1) = srtf_step (time s) (jobs_of (procs s)) \<and>
    time s1 = time s \<and> length (procs s1) = length (procs s) \<and> marked (time s + 1) (procs s1) \<and>
    finished_process s1 = n - unfinished (map exec (procs s1))"
proof (cases "srtf_choice (time s) (jobs_of (procs s))")
  case None
  with assms psjf_choice(1) [OF assms(1,2)] show ?thesis
    by (simp add: psjf_select_def srtf_step_def)
next
  case (Some i)
  then have i: "i < length (procs s)" "ready (procs s ! i) \<le> time s" "0 < exec (procs s ! i)"
    by (auto simp: srtf_choice_def dest!: best_Some)
  have e: "c_int (exec (procs s ! i) - 1) = Inr (exec (procs s ! i) - 1)"
  proof -
    have "exec (procs s ! i) < INT_MAX" using assms(2) i(1) by simp
    then show ?thesis using i by (intro c_int_nonneg) auto
  qed
  have f: "c_int (finished_process s + 1) = Inr (finished_process s + 1)"
    using assms(3,4) by (intro c_int_nonneg) auto
  let ?q = "(procs s ! i)\<lparr>exec := exec (procs s ! i) - 1,
    waiting := if exec (procs s ! i) = 1 then 0 else waiting (procs s ! i)\<rparr>"
  have "\<exists>run t. psjf_select E s = Inr (s\<lparr>procs := (procs s)[i := ?q], running := run, pre_running := run, trace := t,
      finished_process := finished_process s + (if exec (procs s ! i) = 1 then 1 else 0)\<rparr>)"
    using psjf_choice [OF assms(1,2)] Some i(1) e f
    by (cases "exec (procs s ! i) = 1") (auto simp: psjf_select_def Let_def)
  moreover have "jobs_of ((procs s)[i := ?q]) = srtf_step (time s) (jobs_of (procs s))"
    using Some i(1) by (simp add: srtf_step_def map_update)
  moreover have "map exec ((procs s)[i := ?q]) = (map exec (procs s))[i := exec (procs s ! i) - 1]"
    by (simp add: map_update)
  then have "finished_process s + (if exec (procs s ! i) = 1 then 1 else 0) =
      n - unfinished (map exec ((procs s)[i := ?q]))"
    using assms(5) i by (simp add: unfinished_update)
  ultimately show ?thesis using marked_update [OF assms(1) i] by auto
qed

text \<open>One round of the loop is one unit of shortest remaining time first.\<close>

lemma psjf_body_go:
  assumes inv: "psjf_inv E n s" and "finished_process s \<noteq> n"
  shows "\<exists>s1. psjf_body E n s = Inr (False, s1) \<and> psjf_inv E n s1 \<and> time s1 = time s + 1 \<and>
    jobs_of (procs s1) = srtf_step (time s) (jobs_of (procs s))"
proof -
  have E: "forks_ok E" using inv by (simp add: psjf_inv_def)
  have nn: "\<forall>j\<in>set (jobs_of (procs s)). 0 \<le> snd j" using inv by (auto simp: psjf_inv_def marked_def)
  have wpos: "0 < work (jobs_of (procs s))"
    using psjf_work_zero [OF inv] assms(2) work_nonneg [of "jobs_of (procs s)"] nn by fastforce
  have bound: "time s + work (jobs_of (procs s)) < INT_MAX"
    using inv horizon_now [of "time s" "jobs_of (procs s)"] by (simp add: psjf_inv_def)
  from psjf_spawn_ok [OF E] obtain ps t where
    sp: "psjf_spawn E (time s) (procs s) (trace s) = Inr (ps, t)" "psjf_spawned (time s) (procs s) ps" by blast
  note sp' = psjf_spawned_props [OF sp(2)]
  have small: "\<forall>p\<in>set ps. exec p < INT_MAX"
  proof
    fix p assume "p \<in> set ps"
    then have "(ready p, exec p) \<in> set (jobs_of (procs s))" unfolding sp'(2) [symmetric] by force
    then have "exec p \<le> work (jobs_of (procs s))" using member_le_work [OF nn] by fastforce
    with bound inv show "exec p < INT_MAX" by (simp add: psjf_inv_def)
  qed
  let ?s = "s\<lparr>procs := ps, trace := t\<rparr>"
  have un: "1 \<le> unfinished (map exec ps)" "unfinished (map exec ps) \<le> n"
    using assms sp' unfinished_nonneg [of "map exec ps"] unfinished_le [of "map exec ps"]
    by (auto simp: psjf_inv_def)
  have "\<exists>s1. psjf_select E ?s = Inr s1 \<and> jobs_of (procs s1) = srtf_step (time ?s) (jobs_of (procs ?s)) \<and>
    time s1 = time ?s \<and> length (procs s1) = length (procs ?s) \<and> marked (time ?s + 1) (procs s1) \<and>
    finished_process s1 = n - unfinished (map exec (procs s1))"
    by (rule psjf_select_ok) (use inv sp' small un in \<open>auto simp: psjf_inv_def\<close>)
  then obtain s1 where s1: "psjf_select E ?s = Inr s1"
    "jobs_of (procs s1) = srtf_step (time s) (jobs_of (procs s))" "time s1 = time s"
    "length (procs s1) = length (procs s)" "marked (time s + 1) (procs s1)"
    "finished_process s1 = n - unfinished (map exec (procs s1))" using sp' by auto
  have tm: "c_int (time s1 + 1) = Inr (time s1 + 1)"
    using bound wpos inv s1(3) by (intro c_int_nonneg) (auto simp: psjf_inv_def)
  have "horizon (time s + 1) (jobs_of (procs s1)) \<le> horizon (time s) (jobs_of (procs s))"
    unfolding s1(2) by (rule horizon_served [OF srtf_served wpos])
  then have "psjf_inv E n (s1\<lparr>trace := unit_time (trace s1), time := time s1 + 1\<rparr>)"
    using inv s1 by (simp add: psjf_inv_def)
  moreover have "psjf_body E n s = Inr (False, s1\<lparr>trace := unit_time (trace s1), time := time s1 + 1\<rparr>)"
    using assms(2) sp(1) s1(1) tm by (simp add: psjf_body_def)
  ultimately show ?thesis using s1(2,3) by auto
qed

interpretation psjf: work_conserving "psjf_body E n" "\<lambda>s. jobs_of (procs s)" time "psjf_inv E n" for E n
proof
  fix s assume inv: "psjf_inv E n s"
  show "\<exists>b s'. psjf_body E n s = Inr (b, s')"
  proof (cases "finished_process s = n")
    case True
    then show ?thesis by (auto simp: psjf_body_def)
  next
    case False
    then show ?thesis using psjf_body_go [OF inv] by blast
  qed
next
  fix s s' assume inv: "psjf_inv E n s" and "psjf_body E n s = Inr (True, s')"
  then have "finished_process s = n" by (auto simp: psjf_body_def bindr_eq_Inr split: if_splits)
  with psjf_work_zero [OF inv] show "work (jobs_of (procs s)) = 0" by blast
next
  fix s s' assume inv: "psjf_inv E n s" and go: "psjf_body E n s = Inr (False, s')"
  then have ne: "finished_process s \<noteq> n" by (auto simp: psjf_body_def)
  have "0 \<le> work (jobs_of (procs s))"
    using inv by (intro work_nonneg) (auto simp: psjf_inv_def marked_def)
  with ne psjf_work_zero [OF inv] have "0 < work (jobs_of (procs s))" by linarith
  with psjf_body_go [OF inv ne] go srtf_served show "psjf_inv E n s' \<and> 0 < work (jobs_of (procs s)) \<and>
      time s' = time s + 1 \<and> served (time s) (jobs_of (procs s)) (jobs_of (procs s'))" by auto
next
  fix s j assume "psjf_inv E n s" and "j \<in> set (jobs_of (procs s))"
  then show "0 \<le> snd j" by (auto simp: psjf_inv_def marked_def)
qed

section \<open>What the scheduler does\<close>

text \<open>
  A table that is fit for \<open>PSJF\<close>: a proper workload that ends before the clock overflows, with no
  entry marked as waiting beforehand.
\<close>

definition psjf_workload :: "process list \<Rightarrow> bool" where
  "psjf_workload ps \<longleftrightarrow> workload ps \<and> horizon 0 (jobs_of ps) < INT_MAX \<and> (\<forall>p\<in>set ps. waiting p \<noteq> 1)"

lemma psjf_init_ok:
  assumes "forks_ok E" and "psjf_workload ps"
  shows "\<exists>s. psjf_init E ps t = Inr s \<and> procs s = ps \<and> time s = 0 \<and> pre_running s = -1 \<and>
    psjf_inv E (int (length ps)) s"
proof -
  have "\<not> setaffinity_ret E u c m < 0" for u c m
    using assms(1) by (simp add: forks_ok_def not_less)
  then obtain t1 where init: "psjf_init E ps t = Inr
      \<lparr>procs = ps, time = 0, pre_running = -1, running = -1, finished_process = 0, trace = t1\<rparr>"
    by (simp add: psjf_init_def proc_assign_cpu_def sched_setaffinity_def Let_def)
  have "unfinished (map exec ps) = int (length ps)"
    using assms(2) unfinished_all [of "map exec ps"] by (fastforce simp: psjf_workload_def workload_def)
  moreover have "marked 0 ps" using assms(2) by (auto simp: marked_def psjf_workload_def workload_def)
  ultimately show ?thesis
    using init assms workload_length [of ps] by (auto simp: psjf_inv_def psjf_workload_def)
qed

lemma psjf_leaves: "psjf_body E n s = Inr (True, s1) \<Longrightarrow> s1 = s \<and> finished_process s = n"
  by (auto simp: psjf_body_def bindr_eq_Inr split: if_splits)

lemma PSJF_runs:
  assumes "forks_ok E" and "psjf_workload ps"
  shows "\<exists>s. PSJF E ps (int (length ps)) t = Some (Inr s) \<and> time s = makespan ps \<and>
    (\<forall>p\<in>set (procs s). exec p = 0 \<and> waiting p \<noteq> 1) \<and> finished_process s = int (length ps)"
proof -
  let ?n = "int (length ps)"
  from psjf_init_ok [OF assms, of t] obtain s0 where
    s0: "psjf_init E ps t = Inr s0" "procs s0 = ps" "time s0 = 0" "psjf_inv E ?n s0" by blast
  from psjf.terminates [OF s0(4)] obtain s u where
    s: "reaches (psjf_body E ?n) s0 s" "psjf_inv E ?n s" "psjf_body E ?n s = Inr (True, u)"
      "run_loop (psjf_body E ?n) s0 = Some (Inr u)" by blast
  note l = psjf_leaves [OF s(3)]
  have "work (jobs_of (procs s)) = 0" using psjf.stops [OF s(2,3)] .
  then have "exec p = 0" if "p \<in> set (procs s)" for p
    using work_zero_D [of "jobs_of (procs s)" "(ready p, exec p)"] that s(2)
    by (auto simp: psjf_inv_def marked_def)
  moreover have "0 \<le> time s \<and> first_done (jobs_of ps) (nat (time s))"
    using psjf.leaves_first_done [OF s0(4) _ s(1,3)] s0(2,3) by simp
  then have "time s = makespan ps" using assms(2) by (intro makespan_unique) (auto simp: psjf_workload_def)
  ultimately show ?thesis
    using s l s0(1) by (auto simp: PSJF_def psjf_inv_def marked_def)
qed

lemma psjf_srtf:
  assumes "psjf_inv E n s0" and "time s0 = 0" and "reaches (psjf_body E n) s0 s"
  shows "psjf_inv E n s \<and> jobs_of (procs s) = srtf_run (jobs_of (procs s0)) (nat (time s))"
  using assms(3,1,2)
proof (induction rule: reaches.induct)
  case start
  then show ?case by simp
next
  case (iterate s0 t u)
  then have I: "psjf_inv E n t" "jobs_of (procs t) = srtf_run (jobs_of (procs s0)) (nat (time t))" by auto
  have "finished_process t \<noteq> n" using iterate.hyps(2) by (auto simp: psjf_body_def)
  from psjf_body_go [OF I(1) this] iterate.hyps(2) have
    "psjf_inv E n u" "time u = time t + 1" "jobs_of (procs u) = srtf_step (time t) (jobs_of (procs t))" by auto
  moreover have "0 \<le> time t" using I(1) by (simp add: psjf_inv_def)
  moreover from calculation have "nat (time u) = Suc (nat (time t))" by simp
  ultimately show ?case using I(2) by simp
qed

text \<open>
  C29: \<open>PSJF\<close> on a proper workload returns, at the same time as every other work-conserving
  scheduler (the makespan), with every process run to zero and counted, for any environment whose
  forks and affinity calls succeed.
\<close>

theorem PSJF_completes:
  assumes "forks_ok E" and "psjf_workload ps"
  shows "\<exists>s. PSJF E ps (int (length ps)) t = Some (Inr s) \<and> time s = makespan ps \<and>
    (\<forall>p\<in>set (procs s). exec p = 0 \<and> waiting p \<noteq> 1) \<and> finished_process s = int (length ps)"
  using PSJF_runs [OF assms] .

text \<open>
  C10: at the top of every round, \<open>PSJF\<close> has served exactly what shortest remaining time first
  serves: the remaining times in the table are those of \<open>srtf_run\<close> after as many units as the clock
  shows, ties going to the lowest index.
\<close>

theorem PSJF_follows_srtf:
  assumes "forks_ok E" and "psjf_workload ps" and "psjf_init E ps t = Inr s0"
    and "reaches (psjf_body E (int (length ps))) s0 s"
  shows "jobs_of (procs s) = srtf_run (jobs_of ps) (nat (time s))"
  using psjf_init_ok [OF assms(1,2), of t] psjf_srtf [OF _ _ assms(4)] assms(3) by auto

text \<open>
  C2: \<open>PSJF\<close> is optimal: at the top of every round it has finished at least as many processes
  as any schedule of the same jobs, preemptive or not and idling or not, can have completed by then.
\<close>

theorem PSJF_optimal:
  assumes "forks_ok E" and "psjf_workload ps" and "psjf_init E ps t = Inr s0"
    and "reaches (psjf_body E (int (length ps))) s0 s"
    and "any_schedule (jobs_of ps) (nat (time s)) ks"
  shows "int (completed ks) \<le> finished_process s"
proof -
  from psjf_init_ok [OF assms(1,2), of t] psjf_srtf [OF _ _ assms(4)] assms(3)
  have s: "psjf_inv E (int (length ps)) s" "jobs_of (procs s) = srtf_run (jobs_of ps) (nat (time s))" by auto
  have "\<forall>j\<in>set (jobs_of ps). 0 \<le> snd j" using assms(2) by (force simp: psjf_workload_def workload_def)
  then have "completed ks \<le> completed (jobs_of (procs s))"
    unfolding s(2) using assms(5) by (rule srtf_optimal)
  moreover have "int (completed (jobs_of qs)) = int (length qs) - unfinished (map exec qs)" for qs
    by (induction qs) (auto simp: completed_def unfinished_def)
  from this [of "procs s"] have "int (completed (jobs_of (procs s))) = finished_process s"
    using s(1) by (simp add: psjf_inv_def)
  ultimately show ?thesis by linarith
qed

section \<open>Time spent and time counted\<close>

lemma psjf_start_units: "psjf_start E p t = Inr (q, t') \<Longrightarrow> units 10000000 t' = units 10000000 t"
  by (auto simp: psjf_start_def process_ready_def proc_assign_cpu_def sched_setaffinity_def
      sched_setscheduler_def Let_def bindr_eq_Inr split: if_splits)

lemma psjf_requests_units: "units 10000000 (psjf_requests E run pre t) = units 10000000 t"
  by (simp add: psjf_requests_def sched_setscheduler_def Let_def)

lemma psjf_select_units: "psjf_select E s = Inr s1 \<Longrightarrow> units 10000000 (trace s1) = units 10000000 (trace s) \<and> time s1 = time s"
  by (auto simp: psjf_select_def Let_def bindr_eq_Inr psjf_requests_units split: if_splits)

lemma psjf_body_units:
  assumes "psjf_body E n s = Inr (b, s1)"
  shows "units 10000000 (trace s1) - time s1 = units 10000000 (trace s) - time s"
proof (cases "finished_process s = n")
  case True
  with assms show ?thesis by (simp add: psjf_body_def)
next
  case False
  with assms obtain ps t s2 where sp: "psjf_spawn E (time s) (procs s) (trace s) = Inr (ps, t)"
    and sel: "psjf_select E (s\<lparr>procs := ps, trace := t\<rparr>) = Inr s2"
    and s1: "s1 = s2\<lparr>trace := unit_time (trace s2), time := time s2 + 1\<rparr>"
    by (auto simp: psjf_body_def bindr_eq_Inr c_int_Inr)
  have "units 10000000 t = units 10000000 (trace s)"
    by (rule spawn_all_keeps [OF _ sp [unfolded psjf_spawn_def]]) (rule psjf_start_units)
  with psjf_select_units [OF sel] show ?thesis by (simp add: s1 unit_time_def)
qed

lemma PSJF_units:
  assumes "PSJF E ps n [] = Some (Inr s)"
  shows "units 10000000 (trace s) = time s"
proof -
  from assms obtain s0 where init: "psjf_init E ps [] = Inr s0" and run: "run_loop (psjf_body E n) s0 = Some (Inr s)"
    by (auto simp: PSJF_def split: sum.splits)
  have i0: "units 10000000 (trace s0) - time s0 = 0"
    using init by (auto simp: psjf_init_def bindr_eq_Inr proc_assign_cpu_def sched_setaffinity_def Let_def
        split: if_splits)
  from run_loop_returns [OF run] obtain u where
    u: "reaches (psjf_body E n) s0 u" "psjf_body E n u = Inr (True, s)" by auto
  have "units 10000000 (trace u) - time u = 0"
    by (rule reaches_invariant [OF u(1)]) (use i0 psjf_body_units in auto)
  with psjf_body_units [OF u(2)] show ?thesis by simp
qed

section \<open>Priorities\<close>

text \<open>
  The class of a started process \<open>p\<close> with work left, \<open>q\<close> being the entry the workload gave and \<open>pre\<close> the
  pid that was charged last: 90 once it has been charged and preempted, 10 before and while it is charged.
\<close>

definition psjf_class :: "int \<Rightarrow> process \<Rightarrow> process \<Rightarrow> policy \<times> int" where
  "psjf_class pre q p = (SCHED_FIFO, if pid p \<noteq> pre \<and> exec p < exec q then 90 else 10)"

text \<open>The invariant, for a table in which the processes ready before \<open>tm\<close> have been started.\<close>

definition psjf_prio :: "process list \<Rightarrow> int \<Rightarrow> psjf_state \<Rightarrow> bool" where
  "psjf_prio qs tm s \<longleftrightarrow> length (procs s) = length qs \<and>
     (pre_running s \<noteq> -1 \<longrightarrow> pre_running s \<in> set (forked (trace s)) \<and>
        class_of (trace s) (pre_running s) = (SCHED_FIFO, 10)) \<and>
     (\<forall>i<length qs. exec (procs s ! i) \<le> exec (qs ! i) \<and>
        (tm \<le> ready (procs s ! i) \<longrightarrow> exec (procs s ! i) = exec (qs ! i)) \<and>
        (waiting (procs s ! i) = 1 \<longrightarrow> ready (procs s ! i) < tm \<and> pid (procs s ! i) \<in> set (forked (trace s)) \<and>
           0 < pid (procs s ! i) \<and> (pid (procs s ! i) = pre_running s \<longrightarrow> exec (procs s ! i) < exec (qs ! i)) \<and>
           class_of (trace s) (pid (procs s ! i)) = psjf_class (pre_running s) (qs ! i) (procs s ! i))) \<and>
     (\<forall>i<length qs. \<forall>j<length qs. i \<noteq> j \<longrightarrow> waiting (procs s ! i) = 1 \<longrightarrow> waiting (procs s ! j) = 1 \<longrightarrow>
        pid (procs s ! i) \<noteq> pid (procs s ! j))"

lemma psjf_start_prio:
  assumes "forks_ok E" and "prio_ok E" and "psjf_start E p t = Inr (q, t')"
  shows "pid q = fork_ret E t" and "set (forked t') = insert (pid q) (set (forked t))"
    and "class_of t' r = (if r = pid q then (SCHED_FIFO, 10) else class_of t r)"
  using assms(3) forks_okD [OF assms(1)] prio_okD [OF assms(2)]
  by (auto simp: psjf_start_def process_ready_def proc_assign_cpu_def
      sched_setaffinity_def sched_setscheduler_def Let_def)

lemma psjf_spawn_classes:
  assumes "forks_ok E" and "prio_ok E" and "fresh_pids E"
  shows "psjf_spawn E tm ps t = Inr (qs, t') \<Longrightarrow>
    set (forked t) \<subseteq> set (forked t') \<and> (\<forall>q\<in>set (forked t). class_of t' q = class_of t q) \<and>
    (\<forall>q\<in>set qs. ready q = tm \<longrightarrow> pid q \<in> set (forked t') - set (forked t) \<and>
      class_of t' (pid q) = (SCHED_FIFO, 10)) \<and>
    sorted_wrt (\<lambda>a b. ready a = tm \<longrightarrow> ready b = tm \<longrightarrow> pid a \<noteq> pid b) qs"
  unfolding psjf_spawn_def
proof (induction ps arbitrary: t qs)
  case (Cons p ps)
  show ?case
  proof (cases "ready p = tm")
    case True
    with Cons.prems obtain q t1 qs' where c: "psjf_start E p t = Inr (q, t1)"
      "spawn_all (psjf_start E) tm ps t1 = Inr (qs', t')" "qs = q # qs'"
      by (auto simp: bindr_eq_Inr)
    have new: "fork_ret E t \<notin> set (forked t)" using assms(3) by (simp add: fresh_pids_def)
    note q = psjf_start_prio [OF assms(1,2) c(1)] and IH = Cons.IH [OF c(2)]
    have "class_of t' (pid q) = (SCHED_FIFO, 10)" using IH q by simp
    moreover have "\<forall>r\<in>set (forked t). class_of t' r = class_of t r" using IH q new by auto
    ultimately show ?thesis using IH q new c(3) by auto
  next
    case False
    with Cons.prems obtain qs' where "spawn_all (psjf_start E) tm ps t = Inr (qs', t')" "qs = p # qs'"
      by (auto simp: bindr_eq_Inr)
    with Cons.IH False show ?thesis by auto
  qed
qed simp

lemma psjf_spawn_prio:
  assumes E: "forks_ok E" "prio_ok E" "fresh_pids E"
    and sp: "psjf_spawn E tm (procs s) (trace s) = Inr (ps, t)" and inv: "psjf_prio qs tm s"
  shows "psjf_prio qs (tm + 1) (s\<lparr>procs := ps, trace := t\<rparr>)"
proof -
  note C = psjf_spawn_classes [OF E sp]
  have "psjf_spawned tm (procs s) ps" using psjf_spawn_ok [OF E(1), of tm "procs s" "trace s"] sp by auto
  then have all: "list_all2 (\<lambda>p q. if ready p = tm then \<exists>c>0. q = p\<lparr>pid := c, waiting := 1\<rparr> else q = p) (procs s) ps"
    by (simp add: psjf_spawned_def)
  have len: "length ps = length qs" using list_all2_lengthD [OF all] inv by (simp add: psjf_prio_def)
  have step: "if ready (procs s ! i) = tm then \<exists>c>0. ps ! i = (procs s ! i)\<lparr>pid := c, waiting := 1\<rparr> else ps ! i = procs s ! i"
    if "i < length qs" for i
    using list_all2_nthD2 [OF all, of i] that len by simp
  have new: "pid (ps ! i) \<in> set (forked t) - set (forked (trace s))" "class_of t (pid (ps ! i)) = (SCHED_FIFO, 10)"
    "exec (ps ! i) = exec (qs ! i)" "0 < pid (ps ! i)" "pid (ps ! i) \<noteq> pre_running s" if "i < length qs" "ready (ps ! i) = tm" for i
  proof -
    have "ps ! i \<in> set ps" using that(1) len by simp
    then show "pid (ps ! i) \<in> set (forked t) - set (forked (trace s))" "class_of t (pid (ps ! i)) = (SCHED_FIFO, 10)"
      using C that(2) by auto
    show p: "0 < pid (ps ! i)" and "exec (ps ! i) = exec (qs ! i)"
      using step [OF that(1)] that inv by (auto simp: psjf_prio_def split: if_splits)
    show "pid (ps ! i) \<noteq> pre_running s"
      using \<open>pid (ps ! i) \<in> set (forked t) - set (forked (trace s))\<close> p inv by (auto simp: psjf_prio_def)
  qed
  have old: "ps ! i = procs s ! i" if "i < length qs" "ready (ps ! i) \<noteq> tm" for i
    using step [OF that(1)] that(2) by (auto split: if_splits)
  have known: "pid (procs s ! i) \<in> set (forked (trace s))"
    "class_of (trace s) (pid (procs s ! i)) = psjf_class (pre_running s) (qs ! i) (procs s ! i)"
    if "i < length qs" "waiting (procs s ! i) = 1" for i
    using that inv by (auto simp: psjf_prio_def)
  have "exec (ps ! i) \<le> exec (qs ! i) \<and> (tm + 1 \<le> ready (ps ! i) \<longrightarrow> exec (ps ! i) = exec (qs ! i)) \<and>
      (waiting (ps ! i) = 1 \<longrightarrow> ready (ps ! i) < tm + 1 \<and> pid (ps ! i) \<in> set (forked t) \<and>
         0 < pid (ps ! i) \<and> (pid (ps ! i) = pre_running s \<longrightarrow> exec (ps ! i) < exec (qs ! i)) \<and>
         class_of t (pid (ps ! i)) = psjf_class (pre_running s) (qs ! i) (ps ! i))" if i: "i < length qs" for i
  proof (cases "ready (ps ! i) = tm")
    case True
    with new [OF i] show ?thesis by (simp add: psjf_class_def)
  next
    case False
    with old [OF i] known [OF i] i inv C show ?thesis by (auto simp: psjf_prio_def)
  qed
  moreover have "pid (ps ! i) \<noteq> pid (ps ! j)"
    if ij: "i < length qs" "j < length qs" "i \<noteq> j" "waiting (ps ! i) = 1" "waiting (ps ! j) = 1" for i j
  proof (cases "ready (ps ! i) = tm \<and> ready (ps ! j) = tm")
    case True
    have "sorted_wrt (\<lambda>a b. ready a = tm \<longrightarrow> ready b = tm \<longrightarrow> pid a \<noteq> pid b) ps" using C by blast
    then show ?thesis
      using True ij len by (cases i j rule: linorder_cases) (force dest: sorted_wrt_nth_less)+
  next
    case False
    then show ?thesis
      using ij old [of i] old [of j] new(1) [of i] new(1) [of j] known(1) [of i] known(1) [of j] inv
      by (cases "ready (ps ! i) = tm"; cases "ready (ps ! j) = tm") (auto simp: psjf_prio_def)
  qed
  moreover have "pre_running s \<noteq> -1 \<longrightarrow> pre_running s \<in> set (forked t) \<and> class_of t (pre_running s) = (SCHED_FIFO, 10)"
    using inv C by (auto simp: psjf_prio_def)
  ultimately show ?thesis using len by (simp add: psjf_prio_def)
qed

lemma psjf_requests_classes:
  assumes "prio_ok E"
  shows "class_of (psjf_requests E run pre t) q =
    (if run = pre then class_of t q else if q = run then (SCHED_FIFO, 10)
     else if q = pre \<and> pre \<noteq> -1 then (SCHED_FIFO, 90) else class_of t q)"
  using prio_okD [OF assms] by (auto simp: psjf_requests_def sched_setscheduler_def Let_def)

lemma psjf_requests_forked [simp]: "forked (psjf_requests E run pre t) = forked t"
  by (simp add: psjf_requests_def sched_setscheduler_def Let_def)

lemma find_min_index_waiting:
  assumes "some_process_is_ready ps" and "\<forall>p\<in>set ps. exec p < INT_MAX"
  obtains i where "find_min_index ps = int i" "i < length ps" "waiting (ps ! i) = 1"
    "\<And>j. j < length ps \<Longrightarrow> waiting (ps ! j) = 1 \<Longrightarrow> exec (ps ! i) \<le> exec (ps ! j)"
proof -
  from assms(1) obtain k where "k < length ps" "waiting (ps ! k) = 1"
    by (auto simp: some_ready_iff in_set_conv_nth)
  then have "best (\<lambda>j. waiting (ps ! j) = 1 \<and> exec (ps ! j) < INT_MAX) (\<lambda>j. exec (ps ! j)) (length ps) \<noteq> None"
    unfolding best_None using assms(2) by auto
  then obtain i where i:
    "best (\<lambda>j. waiting (ps ! j) = 1 \<and> exec (ps ! j) < INT_MAX) (\<lambda>j. exec (ps ! j)) (length ps) = Some i"
    by blast
  from best_Some [OF i] assms(2) show thesis
    by (intro that [of i]) (auto simp: find_min_index_best i)
qed

lemma psjf_select_prio:
  assumes "prio_ok E" and inv: "psjf_prio qs tm s" and "\<forall>p\<in>set (procs s). exec p < INT_MAX"
    and "psjf_select E s = Inr s1"
  shows "psjf_prio qs tm s1"
proof (cases "some_process_is_ready (procs s)")
  case False
  with assms(2,4) show ?thesis by (simp add: psjf_select_def)
next
  case True
  from find_min_index_waiting [OF True assms(3)] obtain i where
    i: "find_min_index (procs s) = int i" "i < length (procs s)" "waiting (procs s ! i) = 1" by metis
  let ?p = "procs s ! i" and ?t = "psjf_requests E (pid (procs s ! i)) (pre_running s) (trace s)"
  have "\<exists>q f. pid q = pid ?p \<and> exec q = exec ?p - 1 \<and> ready q = ready ?p \<and>
      s1 = s\<lparr>procs := (procs s)[i := q], running := pid ?p, pre_running := pid ?p, trace := ?t, finished_process := f\<rparr>"
  proof (cases "exec ?p - 1 = 0")
    case e: True
    with assms(4) True i show ?thesis
      by (intro exI [of _ "?p\<lparr>exec := 0, waiting := 0\<rparr>"] exI [of _ "finished_process s + 1"])
        (auto simp: psjf_select_def Let_def bindr_eq_Inr c_int_Inr)
  next
    case e: False
    with assms(4) True i show ?thesis
      by (intro exI [of _ "?p\<lparr>exec := exec ?p - 1\<rparr>"] exI [of _ "finished_process s"])
        (auto simp: psjf_select_def Let_def bindr_eq_Inr c_int_Inr)
  qed
  then obtain q f where q: "pid q = pid ?p" "exec q = exec ?p - 1" "ready q = ready ?p"
    and s1: "s1 = s\<lparr>procs := (procs s)[i := q], running := pid ?p, pre_running := pid ?p,
      trace := ?t, finished_process := f\<rparr>" by blast
  have len: "length (procs s) = length qs" using inv by (simp add: psjf_prio_def)
  have pre: "pre_running s \<noteq> -1 \<longrightarrow> class_of (trace s) (pre_running s) = (SCHED_FIFO, 10)"
    and known: "\<And>j. j < length qs \<Longrightarrow> waiting (procs s ! j) = 1 \<Longrightarrow> pid (procs s ! j) \<in> set (forked (trace s)) \<and>
      ready (procs s ! j) < tm \<and> 0 < pid (procs s ! j) \<and>
      (pid (procs s ! j) = pre_running s \<longrightarrow> exec (procs s ! j) < exec (qs ! j)) \<and>
      class_of (trace s) (pid (procs s ! j)) = psjf_class (pre_running s) (qs ! j) (procs s ! j)"
    and fields: "\<And>j. j < length qs \<Longrightarrow> exec (procs s ! j) \<le> exec (qs ! j) \<and>
      (tm \<le> ready (procs s ! j) \<longrightarrow> exec (procs s ! j) = exec (qs ! j))"
    and apart: "\<And>j k. j < length qs \<Longrightarrow> k < length qs \<Longrightarrow> j \<noteq> k \<Longrightarrow> waiting (procs s ! j) = 1 \<Longrightarrow>
      waiting (procs s ! k) = 1 \<Longrightarrow> pid (procs s ! j) \<noteq> pid (procs s ! k)"
    using inv by (simp_all add: psjf_prio_def)
  have chosen: "class_of ?t (pid ?p) = (SCHED_FIFO, 10)"
    using known [of i] i len by (auto simp: psjf_requests_classes [OF assms(1)] psjf_class_def)
  have other: "class_of ?t (pid (procs s ! j)) = psjf_class (pid ?p) (qs ! j) (procs s ! j)"
    if j: "j < length qs" "j \<noteq> i" "waiting (procs s ! j) = 1" for j
  proof -
    have "pid (procs s ! j) \<noteq> pid ?p" using apart [of j i] j i len by simp
    then show ?thesis
      using known [OF j(1,3)] fields [OF j(1)] pre
      by (auto simp: psjf_requests_classes [OF assms(1)] psjf_class_def)
  qed
  let ?ps = "(procs s)[i := q]"
  have at: "?ps ! j = (if j = i then q else procs s ! j)" if "j < length qs" for j
    using that len by (simp add: nth_list_update)
  have ci: "exec q < exec (qs ! i)" "ready q < tm" "0 < pid q" "pid q \<in> set (forked (trace s))"
    using q known [of i] fields [of i] i len by auto
  have "exec (?ps ! j) \<le> exec (qs ! j) \<and> (tm \<le> ready (?ps ! j) \<longrightarrow> exec (?ps ! j) = exec (qs ! j)) \<and>
      (waiting (?ps ! j) = 1 \<longrightarrow> ready (?ps ! j) < tm \<and> pid (?ps ! j) \<in> set (forked ?t) \<and> 0 < pid (?ps ! j) \<and>
         (pid (?ps ! j) = pid ?p \<longrightarrow> exec (?ps ! j) < exec (qs ! j)) \<and>
         class_of ?t (pid (?ps ! j)) = psjf_class (pid ?p) (qs ! j) (?ps ! j))" if j: "j < length qs" for j
  proof (cases "j = i")
    case True
    with at [OF j] ci q(1) chosen show ?thesis by (simp add: psjf_class_def)
  next
    case False
    with at [OF j] other [OF j] known [OF j] fields [OF j] apart [OF j, of i] i len show ?thesis by auto
  qed
  moreover have "pid (?ps ! j) \<noteq> pid (?ps ! k)"
    if "j < length qs" "k < length qs" "j \<noteq> k" "waiting (?ps ! j) = 1" "waiting (?ps ! k) = 1" for j k
    using that at q(1) i len apart [of j k] apart [of i k] apart [of j i]
    by (cases "j = i"; cases "k = i") auto
  moreover have "pid ?p \<in> set (forked ?t)" using ci(4) q(1) by simp
  ultimately show ?thesis using len chosen unfolding psjf_prio_def s1 by simp
qed

lemma psjf_body_prio:
  assumes "prio_ok E" and "fresh_pids E" and "psjf_inv E n s" and "psjf_prio qs (time s) s"
    and body: "psjf_body E n s = Inr (False, s1)"
  shows "psjf_prio qs (time s1) s1"
proof -
  have E: "forks_ok E" using assms(3) by (simp add: psjf_inv_def)
  from body obtain ps t s2 where ne: "finished_process s \<noteq> n"
    and sp: "psjf_spawn E (time s) (procs s) (trace s) = Inr (ps, t)"
    and sel: "psjf_select E (s\<lparr>procs := ps, trace := t\<rparr>) = Inr s2"
    and s1: "s1 = s2\<lparr>trace := unit_time (trace s2), time := time s2 + 1\<rparr>"
    by (auto simp: psjf_body_def bindr_eq_Inr c_int_Inr split: if_splits)
  note a = psjf_spawn_prio [OF E assms(1,2) sp assms(4)]
  from psjf_spawn_ok [OF E] sp have "psjf_spawned (time s) (procs s) ps" by (metis Pair_inject sum.inject(2))
  then have j: "jobs_of ps = jobs_of (procs s)" by (rule psjf_spawned_props)
  have "\<forall>p\<in>set ps. exec p < INT_MAX"
  proof
    fix p assume "p \<in> set ps"
    then have "(ready p, exec p) \<in> set (jobs_of (procs s))" unfolding j [symmetric] by force
    moreover have "\<forall>x\<in>set (jobs_of (procs s)). 0 \<le> snd x" using assms(3) by (auto simp: psjf_inv_def marked_def)
    ultimately have "exec p \<le> work (jobs_of (procs s))" using member_le_work by fastforce
    with assms(3) horizon_now [of "time s" "jobs_of (procs s)"] show "exec p < INT_MAX"
      by (simp add: psjf_inv_def)
  qed
  then have "psjf_prio qs (time s + 1) s2" using psjf_select_prio [OF assms(1) a _ sel] by simp
  moreover have "time s2 = time s" using psjf_select_units [OF sel] by simp
  ultimately show ?thesis by (simp add: s1 psjf_prio_def unit_time_def)
qed

text \<open>
  When \<open>PSJF\<close> preempts, the requests leave the chosen, shorter process at \<open>SCHED_FIFO\<close>
  priority 10 and the preempted one at 90, which is the higher class: the kernel is told to prefer
  the process that was meant to stop. All other processes keep their classes.
\<close>

lemma psjf_requests_inverted:
  assumes "prio_ok E" and "run \<noteq> pre" and "pre \<noteq> -1"
  shows "class_of (psjf_requests E run pre t) run = (SCHED_FIFO, 10) \<and>
    class_of (psjf_requests E run pre t) pre = (SCHED_FIFO, 90) \<and>
    class_of (psjf_requests E run pre t) run < class_of (psjf_requests E run pre t) pre \<and>
    (\<forall>q. q \<noteq> run \<longrightarrow> q \<noteq> pre \<longrightarrow> class_of (psjf_requests E run pre t) q = class_of t q)"
  using assms by (simp_all add: psjf_requests_classes less_prod_def)

text \<open>
  C27: the classes in the kernel under \<open>PSJF\<close>, for a proper workload, forks and affinity calls that
  succeed, fresh pids and priority requests that are granted: at the top of every round the process
  charged last has \<open>SCHED_FIFO\<close> priority 10, and a started process with work left has priority 90 if it
  was charged before and preempted, and 10 if it is the one charged last or was never charged. So the
  process that the table charges is never preferred to another, and every preempted one is preferred
  to it.
\<close>

theorem PSJF_charged_is_lowest:
  assumes "forks_ok E" and "prio_ok E" and "fresh_pids E" and "psjf_workload ps"
    and "psjf_init E ps [] = Inr s0" and "reaches (psjf_body E (int (length ps))) s0 s"
    and "pre_running s \<noteq> -1" and "i < length ps" and "waiting (procs s ! i) = 1"
  shows "class_of (trace s) (pre_running s) = (SCHED_FIFO, 10) \<and>
    class_of (trace s) (pid (procs s ! i)) =
      (if pid (procs s ! i) \<noteq> pre_running s \<and> exec (procs s ! i) < exec (ps ! i)
       then (SCHED_FIFO, 90) else (SCHED_FIFO, 10)) \<and>
    class_of (trace s) (pre_running s) \<le> class_of (trace s) (pid (procs s ! i))"
proof -
  let ?n = "int (length ps)"
  from psjf_init_ok [OF assms(1,4), of "[]"] assms(5) have s0:
    "procs s0 = ps" "time s0 = 0" "pre_running s0 = -1" "psjf_inv E ?n s0" by auto
  with assms(4) have init: "psjf_inv E ?n s0 \<and> psjf_prio ps (time s0) s0"
    by (auto simp: psjf_prio_def psjf_workload_def)
  have "psjf_inv E ?n s \<and> psjf_prio ps (time s) s"
    by (rule reaches_invariant [OF assms(6), where I = "\<lambda>s. psjf_inv E ?n s \<and> psjf_prio ps (time s) s"])
      (use init psjf.goes psjf_body_prio [OF assms(2,3)] in blast)+
  with assms(7-9) have "class_of (trace s) (pre_running s) = (SCHED_FIFO, 10)"
    "class_of (trace s) (pid (procs s ! i)) = psjf_class (pre_running s) (ps ! i) (procs s ! i)"
    by (auto simp: psjf_prio_def)
  then show ?thesis by (auto simp: psjf_class_def less_eq_prod_def)
qed

section \<open>Marks nobody set\<close>

lemma spawn_none: "\<forall>p\<in>set ps. ready p \<noteq> tm \<Longrightarrow> spawn_all start tm ps t = Inr (ps, t)"
  by (induction ps) auto

text \<open>
  C28: \<open>PSJF\<close> never initialises the field \<open>waiting\<close> of memory that comes from \<^verbatim>\<open>malloc\<close>. When no process
  of the table is ready at time 0, each has more than one unit to execute (and less than \<open>INT_MAX\<close>), and
  the garbage of at least one is 1, the first round charges a process so marked, which has not arrived:
  its time is counted down, its garbage pid is taken for the running one and, unless it happens to be
  -1, gets a request for priority 10, and nothing has been forked.
\<close>

theorem PSJF_charges_before_arrival:
  assumes "psjf_init E ps t = Inr s0" and "\<forall>p\<in>set ps. 0 < ready p"
    and "\<forall>p\<in>set ps. 1 < exec p \<and> exec p < INT_MAX" and "\<exists>p\<in>set ps. waiting p = 1" and "n \<noteq> 0"
  shows "\<exists>i s. i < length ps \<and> waiting (ps ! i) = 1 \<and> time s0 < ready (ps ! i) \<and>
    psjf_body E n s0 = Inr (False, s) \<and>
    procs s = ps[i := (ps ! i)\<lparr>exec := exec (ps ! i) - 1\<rparr>] \<and> pre_running s = pid (ps ! i) \<and>
    forked (trace s) = forked (trace s0) \<and>
    (pid (ps ! i) \<noteq> -1 \<longrightarrow> (\<exists>es r. trace s = es @ Setscheduler (pid (ps ! i)) SCHED_FIFO 10 r # trace s0))"
proof -
  from assms(1) have s0: "procs s0 = ps" "time s0 = 0" "finished_process s0 = 0" "pre_running s0 = -1"
    by (auto simp: psjf_init_def bindr_eq_Inr)
  have "some_process_is_ready ps" using assms(4) by (simp add: some_ready_iff)
  from find_min_index_waiting [OF this] assms(3) obtain i where
    i: "find_min_index ps = int i" "i < length ps" "waiting (ps ! i) = 1" by metis
  then have e: "1 < exec (ps ! i)" "exec (ps ! i) < INT_MAX" "0 < ready (ps ! i)" using assms(2,3) by auto
  then have c: "c_int (exec (ps ! i) - 1) = Inr (exec (ps ! i) - 1)" by (intro c_int_nonneg) auto
  have sp: "psjf_spawn E 0 ps (trace s0) = Inr (ps, trace s0)"
    unfolding psjf_spawn_def using assms(2) by (intro spawn_none) auto
  have "c_int (time s0 + 1) = Inr 1" using s0 by (simp add: c_int_def INT_MAX_def INT_MIN_def)
  with s0 i e c sp \<open>some_process_is_ready ps\<close> assms(5) obtain s where
    s: "psjf_body E n s0 = Inr (False, s)" "procs s = ps[i := (ps ! i)\<lparr>exec := exec (ps ! i) - 1\<rparr>]"
      "pre_running s = pid (ps ! i)" "trace s = unit_time (psjf_requests E (pid (ps ! i)) (-1) (trace s0))"
    by (auto simp: psjf_body_def psjf_select_def Let_def)
  have "\<exists>es r. trace s = es @ Setscheduler (pid (ps ! i)) SCHED_FIFO 10 r # trace s0" if "pid (ps ! i) \<noteq> -1"
  proof -
    let ?r = "setscheduler_ret E (trace s0) (pid (ps ! i)) SCHED_FIFO 10"
    have "trace s = ([Spin 10000000] @ (if ?r = -1 then [Printf ''running error:%d '' [D (pid (ps ! i))]] else [])) @
        Setscheduler (pid (ps ! i)) SCHED_FIFO 10 ?r # trace s0"
      using s(4) that by (simp add: psjf_requests_def sched_setscheduler_def unit_time_def Let_def)
    then show ?thesis by blast
  qed
  moreover have "forked (trace s) = forked (trace s0)" using s(4) by (simp add: unit_time_def)
  ultimately show ?thesis using s i e s0 by (intro exI [of _ i] exI [of _ s]) simp
qed

section \<open>The functions on their own\<close>

text \<open>
  The child's side of \<open>process_ready\<close>: it announces itself, spins exactly \<open>exec\<close> units
  of ten million rounds each, announces its end and exits with status 0.
\<close>

lemma process_ready_child:
  assumes "fork_ret E t = 0"
  shows "process_ready E p t = Inl (Exited 0
    (Printf ''process name:%s is finished\<newline>'' [S (name p)] #
     replicate (nat (exec p)) (Spin 10000000) @
     Printf ''I am a child process my name is: %s\<newline>'' [S (name p)] # Fork 0 # t))"
  using assms by (simp add: process_ready_def psjf_child_units Let_def)

text \<open>
  \<open>process_ready\<close> does not test for a failed \<^verbatim>\<open>fork\<close>: with answer -1 it asks for
  the affinity of pid -1, and when the kernel refuses that, the whole scheduler exits with status 1.
\<close>

lemma process_ready_fork_failure:
  assumes "fork_ret E t = -1" and "\<And>u m. setaffinity_ret E u (-1) m < 0"
  shows "\<exists>r. process_ready E p t =
    Inl (Exited 1 (Perror ''sched_setaffinity'' # Setaffinity (-1) [1] r # Fork (-1) # t))"
  using assms by (simp add: process_ready_def proc_assign_cpu_def sched_setaffinity_def cpu_mask_def Let_def)

text \<open>
  \<open>proc_assign_cpu\<close> rejects exactly the cores below 0 or above 128, with a message and
  -1 and without a system call; for the others it asks for the affinity to that one core, and ends the
  program when the kernel refuses.
\<close>

lemma proc_assign_cpu_spec:
  assumes "INT_MIN \<le> core" and "core \<le> INT_MAX"
  shows "proc_assign_cpu E p core t =
    (if core < 0 \<or> 128 < core then Inr (-1, Fprintf_stderr ''Core index error.'' # t)
     else let r = setaffinity_ret E t p [core]; t1 = Setaffinity p [core] r # t in
       if r < 0 then Inl (Exited 1 (Perror ''sched_setaffinity'' # t1)) else Inr (0, t1))"
proof -
  have "uint (word_of_int core :: 64 word) = core mod 2 ^ 64" by (simp add: uint_word_of_int)
  also have "\<dots> = (if core < 0 then core + 2 ^ 64 else core)"
  proof (cases "core < 0")
    case True
    have "core mod 2 ^ 64 = (core + 2 ^ 64) mod 2 ^ 64" by simp
    also have "\<dots> = core + 2 ^ 64"
      using True assms(1) by (intro mod_pos_pos_trivial) (auto simp: INT_MIN_def)
    finally show ?thesis using True by simp
  next
    case False
    then show ?thesis using assms(2) by (auto simp: INT_MAX_def intro!: mod_pos_pos_trivial)
  qed
  finally have "(128 :: 64 word) < word_of_int core \<longleftrightarrow> core < 0 \<or> 128 < core"
    using assms(1) by (auto simp: word_less_def INT_MIN_def)
  then show ?thesis
    by (auto simp: proc_assign_cpu_def sched_setaffinity_def cpu_mask_def Let_def)
qed

text \<open>
  \<open>find_min_index\<close> returns the first of the waiting processes with the least remaining
  execution time below \<open>INT_MAX\<close>; when there is none it returns 0, an index that is then not
  waiting.
\<close>

lemma find_min_index_spec:
  shows "find_min_index ps =
    (case filter (\<lambda>i. (waiting (ps ! i) = 1 \<and> exec (ps ! i) < INT_MAX) \<and>
            (\<forall>j<length ps. waiting (ps ! j) = 1 \<and> exec (ps ! j) < INT_MAX \<longrightarrow> exec (ps ! i) \<le> exec (ps ! j)))
          [0..<length ps] of [] \<Rightarrow> 0 | i # _ \<Rightarrow> int i)"
  by (simp add: find_min_index_best best_filter split: list.split)

section \<open>Witnesses\<close>

lemma psjf_workload_demo [simp]: "psjf_workload demo_procs"
  by (simp add: psjf_workload_def workload_def demo_procs_def horizon_def last_arrival_def work_def INT_MAX_def)

text \<open>After two rounds, the second of which preempted the first process.\<close>

lemma psjf_demo_reach:
  "\<exists>s0 s. psjf_init demo_os demo_procs [] = Inr s0 \<and> reaches (psjf_body demo_os 2) s0 s \<and>
     time s = 2 \<and> pre_running s \<noteq> -1 \<and> finished_process s = 1 \<and> length (procs s) = 2 \<and>
     waiting (procs s ! 1) = 1 \<and> pid (procs s ! 1) \<noteq> pre_running s \<and> exec (procs s ! 1) = 1"
proof -
  let ?init = "projr (psjf_init demo_os demo_procs [])"
  let ?r = "snd (projr (psjf_body demo_os 2 ?init))"
  let ?s = "snd (projr (psjf_body demo_os 2 ?r))"
  have init: "psjf_init demo_os demo_procs [] = Inr ?init" by (rule res_ok) code_simp
  have a: "psjf_body demo_os 2 ?init = Inr (False, ?r)" by (rule res_go) code_simp+
  have b: "psjf_body demo_os 2 ?r = Inr (False, ?s)" by (rule res_go) code_simp+
  have "reaches (psjf_body demo_os 2) ?init ?s"
    by (rule reaches_step [where body = "psjf_body demo_os 2", OF a],
        rule reaches_step [where body = "psjf_body demo_os 2", OF b], rule reaches.start)
  moreover have "time ?s = 2" "pre_running ?s \<noteq> -1" "finished_process ?s = 1" "length (procs ?s) = 2"
    "waiting (procs ?s ! 1) = 1" "pid (procs ?s ! 1) \<noteq> pre_running ?s" "exec (procs ?s ! 1) = 1" by code_simp+
  ultimately show ?thesis using init by blast
qed

theorem PSJF_completes_witness:
  "\<exists>s. PSJF demo_os demo_procs 2 [] = Some (Inr s) \<and> time s = 3 \<and> finished_process s = 2"
  using PSJF_completes [of demo_os demo_procs "[]"] by auto

theorem PSJF_follows_srtf_witness:
  "\<exists>s0 s. psjf_init demo_os demo_procs [] = Inr s0 \<and> reaches (psjf_body demo_os 2) s0 s \<and>
     jobs_of (procs s) = [(1, 0), (0, 1)]"
proof -
  from psjf_demo_reach obtain s0 s where s: "psjf_init demo_os demo_procs [] = Inr s0"
    "reaches (psjf_body demo_os 2) s0 s" "time s = 2" by blast
  have "srtf_run (jobs_of demo_procs) (Suc (Suc 0)) = [(1, 0), (0, 1)]" by code_simp
  with PSJF_follows_srtf [of demo_os demo_procs "[]" s0 s] s show ?thesis
    by (auto simp: numeral_2_eq_2)
qed

theorem PSJF_optimal_witness:
  "\<exists>s0 s. psjf_init demo_os demo_procs [] = Inr s0 \<and> reaches (psjf_body demo_os 2) s0 s \<and>
     any_schedule (jobs_of demo_procs) 2 [(1, 1), (0, 0)] \<and>
     int (completed [(1, 1), (0, 0)]) \<le> finished_process s"
proof -
  from psjf_demo_reach obtain s0 s where s: "psjf_init demo_os demo_procs [] = Inr s0"
    "reaches (psjf_body demo_os 2) s0 s" "time s = 2" by blast
  have "any_schedule [(1, 1), (0, 2)] (Suc 0) ([(1, 1), (0, 2)][1 := (0, 1)])"
    using serve_unit [OF begin_schedule, of 1 "[(1, 1), (0, 2)]"] by simp
  from serve_unit [OF this, of 1] have "any_schedule (jobs_of demo_procs) 2 [(1, 1), (0, 0)]"
    by (simp add: demo_procs_def numeral_2_eq_2)
  with PSJF_optimal [of demo_os demo_procs "[]" s0 s "[(1, 1), (0, 0)]"] s show ?thesis by auto
qed

theorem PSJF_charged_is_lowest_witness:
  "\<exists>s0 s. psjf_init demo_os demo_procs [] = Inr s0 \<and> reaches (psjf_body demo_os 2) s0 s \<and>
     class_of (trace s) (pre_running s) = (SCHED_FIFO, 10) \<and>
     class_of (trace s) (pid (procs s ! 1)) = (SCHED_FIFO, 90)"
proof -
  from psjf_demo_reach obtain s0 s where s: "psjf_init demo_os demo_procs [] = Inr s0"
    "reaches (psjf_body demo_os 2) s0 s" "pre_running s \<noteq> -1" "waiting (procs s ! 1) = 1"
    "pid (procs s ! 1) \<noteq> pre_running s" "exec (procs s ! 1) = 1" by blast
  then show ?thesis
    using PSJF_charged_is_lowest [OF forks_ok_demo prio_ok_demo fresh_pids_demo psjf_workload_demo s(1), of s 1]
    by (intro exI [of _ s0] exI [of _ s]) (simp add: demo_procs_def)
qed

theorem PSJF_charges_before_arrival_witness:
  "\<exists>s0 s es r. psjf_init demo_os [\<lparr>name = ''P1'', ready = 5, exec = 2, waiting = 1, pid = 77\<rparr>] [] = Inr s0 \<and>
     psjf_body demo_os 1 s0 = Inr (False, s) \<and> exec (procs s ! 0) = 1 \<and> pre_running s = 77 \<and>
     trace s = es @ Setscheduler 77 SCHED_FIFO 10 r # trace s0"
proof -
  let ?ps = "[\<lparr>name = ''P1'', ready = 5, exec = 2, waiting = 1, pid = 77\<rparr>]"
  let ?init = "projr (psjf_init demo_os ?ps [])"
  have "psjf_init demo_os ?ps [] = Inr ?init" by (rule res_ok) code_simp
  from PSJF_charges_before_arrival [OF this, of 1] this show ?thesis
    by (auto simp: INT_MAX_def)
qed

end
