(* ===== verification/SJF_Sched.thy ===== *)
theory SJF_Sched
  imports PSJF_Sched
begin

text \<open>
  \<^verbatim>\<open>SJF.c\<close>: non-preemptive shortest job first. The loop is that of FIFO with the choice by
  execution time, everything written inline in the one function; \<open>proc_assign_cpu\<close> is the one of
  \<^verbatim>\<open>PSJF.c\<close>. Definitions in the order of the file (with \<open>DEBUG\<close> not defined), then the
  refinement of the non-preemptive machine, the schedule, and why it is the right one when all
  processes arrive together.
\<close>

section \<open>The code\<close>

definition CHILD_CPU :: int where "CHILD_CPU = 1"
definition PARENT_CPU :: int where "PARENT_CPU = 0"

definition UNIT_T :: "trace \<Rightarrow> trace" where
  "UNIT_T t = Spin (spin_loop 1000000 0 0) # t"

record sjf_state =
  procs :: "process list"
  t_last :: int
  ntime :: int
  running :: int
  finish_cnt :: int
  trace :: trace

definition cmp :: "process \<Rightarrow> process \<Rightarrow> int res" where
  "cmp a b = c_int (ready a - ready b)"

text \<open>The child's loop \<open>for (j = 0; j < proc[i].exec; j++) UNIT_T();\<close>\<close>

function sjf_child :: "int \<Rightarrow> int \<Rightarrow> trace \<Rightarrow> trace" where
  "sjf_child j n t = (if j < n then sjf_child (j + 1) n (UNIT_T t) else t)"
  by pat_completeness auto
termination by (relation "measure (\<lambda>(j, n, t). nat (n - j))") auto

text \<open>
  What is done for a process whose time has come. A failed \<^verbatim>\<open>fork\<close> is reported and then
  treated like a parent's answer.
\<close>

definition sjf_start :: "os \<Rightarrow> process \<Rightarrow> trace \<Rightarrow> (process \<times> trace) res" where
  "sjf_start E p t =
     (let c = fork_ret E t;
          t1 = Fork c # t;
          t2 = (if c < 0 then Perror ''fork fails! '' # t1 else t1)
      in if c = 0 then Inl (Exited 0 (sjf_child 0 (exec p) t2))
         else bindr (proc_assign_cpu E c CHILD_CPU t2) (\<lambda>(_, t3).
           case sched_setscheduler E c SCHED_IDLE 0 t3 of (ret, t4) \<Rightarrow>
             Inr (p\<lparr>pid := c\<rparr>, if ret < 0 then Perror ''sched_setscheduler'' # t4 else t4)))"

definition sjf_spawn :: "os \<Rightarrow> int \<Rightarrow> process list \<Rightarrow> trace \<Rightarrow> (process list \<times> trace) res" where
  "sjf_spawn E tm ps t = spawn_all (sjf_start E) tm ps t"

text \<open>The end of the running process.\<close>

definition sjf_check :: "int \<Rightarrow> sjf_state \<Rightarrow> (bool \<times> sjf_state) res" where
  "sjf_check nproc s =
     (if running s \<noteq> -1 then
        bindr (arr_get (procs s) (running s)) (\<lambda>p.
          if exec p = 0 then
            bindr (c_int (finish_cnt s + 1)) (\<lambda>f.
              Inr (f = nproc,
                s\<lparr>trace := Printf ''%s %d\<newline>'' [S (name p), D (pid p)] # Waitpid (pid p) # trace s,
                  running := -1, finish_cnt := f\<rparr>))
          else Inr (False, s))
      else Inr (False, s))"

text \<open>The selection loop from index \<open>i\<close> on, with its variable \<open>ret\<close>.\<close>

function sjf_scan :: "process list \<Rightarrow> nat \<Rightarrow> int \<Rightarrow> int" where
  "sjf_scan ps i ret =
     (if i < length ps then
        (if pid (ps ! i) = -1 \<or> exec (ps ! i) = 0 then sjf_scan ps (Suc i) ret
         else if ret = -1 \<or> exec (ps ! i) < exec (ps ! nat ret) then sjf_scan ps (Suc i) (int i)
         else sjf_scan ps (Suc i) ret)
      else ret)"
  by pat_completeness auto
termination by (relation "measure (\<lambda>(ps, i, ret). length ps - i)") auto

definition sjf_next :: "int \<Rightarrow> process list \<Rightarrow> int" where
  "sjf_next run ps = (if run \<noteq> -1 then run else sjf_scan ps 0 (-1))"

definition sjf_switch :: "os \<Rightarrow> sjf_state \<Rightarrow> sjf_state res" where
  "sjf_switch E s =
     (let next = sjf_next (running s) (procs s) in
      if next \<noteq> -1 then
        if running s \<noteq> next then
          bindr (arr_get (procs s) next) (\<lambda>p.
            case sched_setscheduler E (pid p) SCHED_FIFO 99 (trace s) of (ret, t1) \<Rightarrow>
              Inr (s\<lparr>trace := (if ret < 0 then Perror ''sched_setscheduler'' # t1 else t1),
                     running := next, t_last := ntime s\<rparr>))
        else Inr s
      else Inr s)"

definition sjf_tick :: "sjf_state \<Rightarrow> sjf_state res" where
  "sjf_tick s =
     (let s1 = s\<lparr>trace := UNIT_T (trace s)\<rparr> in
      bindr (if running s1 \<noteq> -1 then
               bindr (arr_get (procs s1) (running s1)) (\<lambda>p.
                 bindr (c_int (exec p - 1)) (\<lambda>e. arr_set (procs s1) (running s1) (p\<lparr>exec := e\<rparr>)))
             else Inr (procs s1)) (\<lambda>ps.
        bindr (c_int (ntime s1 + 1)) (\<lambda>tm. Inr (s1\<lparr>procs := ps, ntime := tm\<rparr>))))"

definition sjf_body :: "os \<Rightarrow> int \<Rightarrow> sjf_state \<Rightarrow> (bool \<times> sjf_state) res" where
  "sjf_body E nproc s =
     bindr (sjf_check nproc s) (\<lambda>(brk, s1).
       if brk then Inr (True, s1)
       else bindr (sjf_spawn E (ntime s1) (procs s1) (trace s1)) (\<lambda>(ps, t).
         bindr (sjf_switch E (s1\<lparr>procs := ps, trace := t\<rparr>)) (\<lambda>s2.
           bindr (sjf_tick s2) (\<lambda>s3. Inr (False, s3)))))"

definition sjf_init :: "os \<Rightarrow> process list \<Rightarrow> trace \<Rightarrow> sjf_state res" where
  "sjf_init E proc t =
     (let t0 = Printf ''SJF is successfully called!\<newline>'' [] # t in
      bindr (run_qsort E cmp proc) (\<lambda>ps.
        bindr (proc_assign_cpu E (getpid_ret E t0) PARENT_CPU t0) (\<lambda>(_, t1).
          case sched_setscheduler E (getpid_ret E t1) SCHED_OTHER 0 t1 of (ret, t2) \<Rightarrow>
            Inr \<lparr>procs = map (\<lambda>p. p\<lparr>pid := -1\<rparr>) ps, t_last = 0, ntime = 0, running = -1,
              finish_cnt = 0, trace = (if ret < 0 then Perror ''sched_setscheduler'' # t2 else t2)\<rparr>)))"

text \<open>The function ends in \<open>exit(0)\<close>, so it never gives a value.\<close>

definition SJF :: "os \<Rightarrow> process list \<Rightarrow> int \<Rightarrow> trace \<Rightarrow> unit res option" where
  "SJF E proc nproc t =
     (case sjf_init E proc t of
        Inl e \<Rightarrow> Some (Inl e)
      | Inr s \<Rightarrow> map_option (\<lambda>r. bindr r (\<lambda>u. Inl (Exited 0 (trace u)))) (run_loop (sjf_body E nproc) s))"

declare sjf_child.simps [simp del] sjf_scan.simps [simp del]

section \<open>The parts of the loop\<close>

lemma sjf_scan_best:
  assumes "i \<le> length ps"
  shows "sjf_scan ps i (enc (best (\<lambda>j. eligible (ps ! j)) (\<lambda>j. exec (ps ! j)) i)) =
    enc (best (\<lambda>j. eligible (ps ! j)) (\<lambda>j. exec (ps ! j)) (length ps))"
  using assms
proof (induction "length ps - i" arbitrary: i)
  case 0
  then show ?case by (simp add: sjf_scan.simps [of ps i])
next
  case (Suc d)
  then have "i < length ps" by simp
  with Suc.hyps(1) [of "Suc i"] Suc.hyps(2) show ?case
    by (subst sjf_scan.simps)
      (cases "best (\<lambda>j. eligible (ps ! j)) (\<lambda>j. exec (ps ! j)) i"; auto simp: eligible_def)
qed

lemma sjf_next_best:
  "sjf_next run ps = (if run \<noteq> -1 then run
     else enc (best (\<lambda>j. eligible (ps ! j)) (\<lambda>j. exec (ps ! j)) (length ps)))"
  using sjf_scan_best [of 0 ps] by (simp add: sjf_next_def)

lemma sjf_child_replicate: "sjf_child j n t = replicate (nat (n - j)) (Spin 1000000) @ t"
proof (induction j n t rule: sjf_child.induct)
  case (1 j n t)
  show ?case
  proof (cases "j < n")
    case True
    then have "nat (n - j) = Suc (nat (n - (j + 1)))" by simp
    with 1 [OF True] True show ?thesis
      by (simp add: sjf_child.simps [of j n] UNIT_T_def replicate_append_same
          flip: replicate_Suc append_Cons append_assoc)
  next
    case False
    then show ?thesis by (simp add: sjf_child.simps [of j n])
  qed
qed

text \<open>
  The output \<open>%s %d\<close> with the moment it is made: the units of time the parent has spent by then.
\<close>

abbreviation sjf_msg :: string where
  "sjf_msg \<equiv> ''%s %d\<newline>''"

fun sjf_log :: "trace \<Rightarrow> (string \<times> int) list" where
  "sjf_log [] = []"
| "sjf_log (Printf f args # t) =
     (if f = sjf_msg then sjf_log t @ [(case args of S n # _ \<Rightarrow> n | _ \<Rightarrow> [], units 1000000 t)] else sjf_log t)"
| "sjf_log (_ # t) = sjf_log t"

lemma sjf_start_ok:
  assumes "forks_ok E" and "sjf_start E p t = Inr (q, t')"
  shows "q = p\<lparr>pid := fork_ret E t\<rparr>" and "set (forked t') = insert (fork_ret E t) (set (forked t))"
    and "prio_ok E \<Longrightarrow> class_of t' r = (if r = fork_ret E t then (SCHED_IDLE, 0) else class_of t r)"
  using assms(2) forks_okD [OF assms(1)] prio_okD [of E]
  by (auto simp: sjf_start_def proc_assign_cpu_def CHILD_CPU_def sched_setaffinity_def
      sched_setscheduler_def Let_def split: if_splits)

lemma sjf_start_trace:
  assumes "sjf_start E p t = Inr (q, t')"
  shows "\<exists>c. q = p\<lparr>pid := c\<rparr>" and "printed sjf_msg t' = printed sjf_msg t"
    and "oob_reads t' = oob_reads t" and "units 1000000 t' = units 1000000 t" and "sjf_log t' = sjf_log t"
  using assms
  by (auto simp: sjf_start_def proc_assign_cpu_def sched_setaffinity_def sched_setscheduler_def Let_def
      bindr_eq_Inr split: if_splits)

interpretation sjf: starter "\<lambda>E tm. sjf_start E" sjf_msg
proof
  fix E p t assume E: "forks_ok E"
  show "\<exists>c t'. sjf_start E p t = Inr (p\<lparr>pid := c\<rparr>, t') \<and> 0 < c"
    using forks_okD [OF E]
    by (auto simp: sjf_start_def proc_assign_cpu_def sched_setaffinity_def CHILD_CPU_def
        sched_setscheduler_def Let_def intro!: exI [of _ "fork_ret E t"])
next
  fix E p t q t' assume "sjf_start E p t = Inr (q, t')"
  from sjf_start_trace [OF this]
  show "(\<exists>c. q = p\<lparr>pid := c\<rparr>) \<and> printed sjf_msg t' = printed sjf_msg t \<and> oob_reads t' = oob_reads t" by blast
next
  fix E p t q t' assume "forks_ok E" "prio_ok E" "sjf_start E p t = Inr (q, t')"
  from sjf_start_ok [OF this(1,3)] this(2)
  show "pid q = fork_ret E t \<and> set (forked t') = insert (pid q) (set (forked t)) \<and>
      (\<forall>r. class_of t' r = (if r = pid q then (SCHED_IDLE, 0) else class_of t r))" by simp
qed

lemma sjf_spawn_log:
  assumes "sjf_spawn E tm ps t = Inr (qs, t')"
  shows "sjf_log t' = sjf_log t" and "units 1000000 t' = units 1000000 t"
proof -
  note sp = assms [unfolded sjf_spawn_def]
  show "sjf_log t' = sjf_log t" by (rule spawn_all_keeps [OF _ sp]) (rule sjf_start_trace)
  show "units 1000000 t' = units 1000000 t" by (rule spawn_all_keeps [OF _ sp]) (rule sjf_start_trace)
qed

section \<open>Refinement of the non-preemptive machine\<close>

definition sjf_choice :: "int list \<Rightarrow> int list \<Rightarrow> int \<Rightarrow> nat option" where
  "sjf_choice as l t = best (\<lambda>i. as ! i \<le> t \<and> l ! i \<noteq> 0) (\<lambda>i. l ! i) (length as)"

interpretation shortest: np_choice sjf_choice
proof
  fix as l t i assume "length l = length as" and "sjf_choice as l t = Some i"
  then show "i < length as \<and> as ! i \<le> t \<and> l ! i \<noteq> 0"
    by (auto simp: sjf_choice_def dest!: best_Some)
qed (auto simp: sjf_choice_def best_None)

definition sjf_abs :: "sjf_state \<Rightarrow> mach" where
  "sjf_abs s = \<lparr>arr = map ready (procs s), nm = map name (procs s), left = map exec (procs s),
     cur = (if running s = -1 then None else Some (nat (running s))), now = ntime s,
     log = sjf_log (trace s)\<rparr>"

definition sjf_inv :: "os \<Rightarrow> int \<Rightarrow> sjf_state \<Rightarrow> bool" where
  "sjf_inv E n s \<longleftrightarrow> forks_ok E \<and> n = int (length (procs s)) \<and> n \<le> INT_MAX \<and>
     mach_inv (sjf_abs s) \<and> live_before (ntime s) (procs s) \<and> -1 \<le> running s \<and>
     finish_cnt s = int (length (sjf_log (trace s))) \<and> 0 \<le> ntime s \<and> units 1000000 (trace s) = ntime s \<and>
     horizon (ntime s) (jobs_of (procs s)) \<le> INT_MAX"

lemma sjf_abs_jobs: "mach_jobs (sjf_abs s) = jobs_of (procs s)"
  by (simp add: sjf_abs_def jobs_of_zip)

lemma sjf_check_ok:
  assumes "sjf_inv E n s"
  shows "\<exists>b s1. sjf_check n s = Inr (b, s1) \<and> sjf_abs s1 = mach_check (sjf_abs s) \<and>
    (b \<longleftrightarrow> ending (sjf_abs s) \<and> Suc (length (log (sjf_abs s))) = length (arr (sjf_abs s))) \<and>
    procs s1 = procs s \<and> ntime s1 = ntime s \<and> -1 \<le> running s1 \<and> units 1000000 (trace s1) = ntime s1 \<and>
    finish_cnt s1 = int (length (sjf_log (trace s1)))"
proof (cases "running s = -1")
  case True
  with assms show ?thesis
    by (auto simp: sjf_check_def mach_check_def sjf_abs_def ending_def sjf_inv_def)
next
  case False
  define i where "i = nat (running s)"
  have r: "running s = int i" "i < length (procs s)"
    using assms False by (auto simp: sjf_inv_def mach_inv_def sjf_abs_def i_def)
  have len: "int (length (sjf_log (trace s))) < n" "n \<le> INT_MAX"
    using assms by (auto simp: sjf_inv_def mach_inv_def sjf_abs_def)
  then have "c_int (finish_cnt s + 1) = Inr (finish_cnt s + 1)"
    using assms by (intro c_int_nonneg) (auto simp: sjf_inv_def)
  with r assms show ?thesis
    by (auto simp: sjf_check_def mach_check_def sjf_abs_def ending_def sjf_inv_def)
qed

lemma sjf_next_choice:
  assumes "live_before (ntime s + 1) (procs s)" and "running s = -1"
  shows "sjf_next (running s) (procs s) =
    enc (sjf_choice (map ready (procs s)) (map exec (procs s)) (ntime s))"
proof -
  have "best (\<lambda>j. eligible (procs s ! j)) (\<lambda>j. exec (procs s ! j)) (length (procs s)) =
      sjf_choice (map ready (procs s)) (map exec (procs s)) (ntime s)"
    unfolding sjf_choice_def using eligible_iff [OF assms(1)] by (auto intro!: best_cong)
  then show ?thesis using assms(2) by (simp add: sjf_next_best)
qed

lemma sjf_switch_ok:
  assumes "mach_inv (sjf_abs s)" and "live_before (ntime s + 1) (procs s)" and "-1 \<le> running s"
  shows "\<exists>s1. sjf_switch E s = Inr s1 \<and> sjf_abs s1 = np_pick sjf_choice (sjf_abs s) \<and>
    procs s1 = procs s \<and> ntime s1 = ntime s \<and> -1 \<le> running s1 \<and> finish_cnt s1 = finish_cnt s \<and>
    sjf_log (trace s1) = sjf_log (trace s) \<and> units 1000000 (trace s1) = units 1000000 (trace s)"
proof (cases "running s = -1")
  case False
  then show ?thesis
    using assms by (simp add: sjf_switch_def sjf_next_def np_pick_def sjf_abs_def)
next
  case True
  let ?r = "sjf_choice (map ready (procs s)) (map exec (procs s)) (ntime s)"
  show ?thesis
  proof (cases ?r)
    case None
    with True sjf_next_choice [OF assms(2) True] assms(3) show ?thesis
      by (simp add: sjf_switch_def np_pick_def sjf_abs_def)
  next
    case (Some i)
    then have "i < length (procs s)" using shortest.sel_Some [of "map exec (procs s)" "map ready (procs s)"] by simp
    with Some True sjf_next_choice [OF assms(2) True] show ?thesis
      by (simp add: sjf_switch_def np_pick_def sjf_abs_def sched_setscheduler_def Let_def)
  qed
qed

lemma sjf_tick_ok:
  assumes "mach_inv (sjf_abs s)" and "\<not> ending (sjf_abs s)" and "-1 \<le> running s"
    and "0 \<le> ntime s" and "ntime s + work (jobs_of (procs s)) \<le> INT_MAX"
    and "0 < work (jobs_of (procs s))"
  shows "\<exists>s1. sjf_tick s = Inr s1 \<and> sjf_abs s1 = mach_tick (sjf_abs s) \<and>
    (live_before t (procs s) \<longrightarrow> live_before t (procs s1)) \<and> length (procs s1) = length (procs s) \<and>
    ntime s1 = ntime s + 1 \<and> running s1 = running s \<and> finish_cnt s1 = finish_cnt s \<and>
    sjf_log (trace s1) = sjf_log (trace s) \<and> units 1000000 (trace s1) = units 1000000 (trace s) + 1"
proof -
  have time: "c_int (ntime s + 1) = Inr (ntime s + 1)"
    using assms(4-6) by (intro c_int_nonneg) auto
  show ?thesis
  proof (cases "running s = -1")
    case True
    with time show ?thesis by (simp add: sjf_tick_def sjf_abs_def mach_tick_def UNIT_T_def Let_def)
  next
    case False
    define i where "i = nat (running s)"
    have r: "running s = int i" "i < length (procs s)" "0 \<le> exec (procs s ! i)" "exec (procs s ! i) \<noteq> 0"
      using assms(1-3) False by (auto simp: mach_inv_def sjf_abs_def i_def ending_def)
    have "exec (procs s ! i) \<le> work (jobs_of (procs s))"
      using member_le_work [of "jobs_of (procs s)" "(ready (procs s ! i), exec (procs s ! i))"]
        assms(1) r(2) by (auto simp: mach_inv_def sjf_abs_def)
    then have "c_int (exec (procs s ! i) - 1) = Inr (exec (procs s ! i) - 1)"
      using assms(4,5) r by (intro c_int_nonneg) auto
    with time r show ?thesis
      by (simp add: sjf_tick_def sjf_abs_def mach_tick_def UNIT_T_def Let_def map_update live_before_update
          list_update_same_conv)
  qed
qed

lemma sjf_body_refines:
  assumes inv: "sjf_inv E n s"
  shows "\<exists>b s'. sjf_body E n s = Inr (b, s') \<and> np_body sjf_choice (sjf_abs s) = Inr (b, sjf_abs s') \<and>
    (\<not> b \<longrightarrow> sjf_inv E n s') \<and> (b \<longrightarrow> units 1000000 (trace s') = ntime s')"
proof -
  from sjf_check_ok [OF inv] obtain b s1 where s1: "sjf_check n s = Inr (b, s1)"
    "sjf_abs s1 = mach_check (sjf_abs s)"
    "b \<longleftrightarrow> ending (sjf_abs s) \<and> Suc (length (log (sjf_abs s))) = length (arr (sjf_abs s))"
    "procs s1 = procs s" "ntime s1 = ntime s" "-1 \<le> running s1" "units 1000000 (trace s1) = ntime s1"
    "finish_cnt s1 = int (length (sjf_log (trace s1)))" by blast
  have ninv: "mach_inv (sjf_abs s)" and E: "forks_ok E" using inv by (auto simp: sjf_inv_def)
  show ?thesis
  proof (cases b)
    case True
    with s1 have "np_body sjf_choice (sjf_abs s) = Inr (True, sjf_abs s1)"
      by (simp add: mach_body_break_iff)
    with s1(1,7) True show ?thesis by (auto simp: sjf_body_def)
  next
    case False
    with s1 have nb: "\<not> (ending (sjf_abs s) \<and> Suc (length (log (sjf_abs s))) = length (arr (sjf_abs s)))"
      by simp
    from sjf.spawn_ok [OF E] obtain qs t where
      sp: "sjf_spawn E (ntime s1) (procs s1) (trace s1) = Inr (qs, t)"
        "spawned (ntime s1) (procs s1) qs" unfolding sjf_spawn_def by blast
    define s2 where "s2 = s1\<lparr>procs := qs, trace := t\<rparr>"
    have c2: "sjf_log (trace s2) = sjf_log (trace s1)" "units 1000000 (trace s2) = units 1000000 (trace s1)"
      using sjf_spawn_log [OF sp(1)] by (simp_all add: s2_def)
    then have "sjf_abs s2 = sjf_abs s1"
      using spawned_fields [OF sp(2)] by (simp add: s2_def sjf_abs_def)
    with s1(2) have a2: "sjf_abs s2 = mach_check (sjf_abs s)" by simp
    note ci = check_inv [OF ninv nb, folded a2]
    have live: "live_before (ntime s2 + 1) (procs s2)"
      using spawned_live [OF sp(2)] inv s1(4,5) by (simp add: sjf_inv_def s2_def)
    have j2: "jobs_of (procs s2) = jobs_of (procs s)"
      using spawned_fields [OF sp(2)] s1(4) by (simp add: jobs_of_zip s2_def)
    from sjf_switch_ok [OF ci(1) live, of E] s1(6) obtain s3 where
      s3: "sjf_switch E s2 = Inr s3" "sjf_abs s3 = np_pick sjf_choice (sjf_abs s2)" "procs s3 = procs s2"
        "ntime s3 = ntime s2" "-1 \<le> running s3" "finish_cnt s3 = finish_cnt s2"
        "sjf_log (trace s3) = sjf_log (trace s2)" "units 1000000 (trace s3) = units 1000000 (trace s2)"
      by (auto simp: s2_def)
    have go: "np_body sjf_choice (sjf_abs s) = Inr (False, mach_tick (sjf_abs s3))"
      using mach_body_go [OF nb] a2 s3(2) by simp
    note wc = shortest.wc.goes [OF ninv go]
    have wpos: "0 < work (jobs_of (procs s3))" using wc j2 s3(3) by (simp add: sjf_abs_jobs)
    have time: "0 \<le> ntime s3" "ntime s3 = ntime s"
      using inv s1(5) s3(4) by (auto simp: sjf_inv_def s2_def)
    have bound: "ntime s3 + work (jobs_of (procs s3)) \<le> INT_MAX"
      using inv horizon_now [of "ntime s" "jobs_of (procs s)"] time(2) j2 s3(3) by (simp add: sjf_inv_def)
    note pi = shortest.pick_inv [OF ci, folded s3(2)]
    from sjf_tick_ok [OF pi(1,2) s3(5) time(1) bound wpos, of "ntime s3 + 1"] obtain s4 where
      s4: "sjf_tick s3 = Inr s4" "sjf_abs s4 = mach_tick (sjf_abs s3)"
        "live_before (ntime s3 + 1) (procs s3) \<longrightarrow> live_before (ntime s3 + 1) (procs s4)"
        "length (procs s4) = length (procs s3)" "ntime s4 = ntime s3 + 1" "running s4 = running s3"
        "finish_cnt s4 = finish_cnt s3" "sjf_log (trace s4) = sjf_log (trace s3)"
        "units 1000000 (trace s4) = units 1000000 (trace s3) + 1" by blast
    have body: "sjf_body E n s = Inr (False, s4)"
      using s1(1) False sp(1) s3(1) s4(1) by (simp add: sjf_body_def flip: s2_def)
    have "horizon (ntime s + 1) (jobs_of (procs s4)) \<le> horizon (ntime s) (jobs_of (procs s))"
      using wc horizon_served [of "ntime s" "jobs_of (procs s)" "jobs_of (procs s4)"]
      by (simp add: sjf_abs_jobs flip: s4(2)) (simp add: sjf_abs_def)
    moreover have "length (procs s4) = length (procs s)"
      using s4(4) s3(3) spawned_fields(1) [OF sp(2)] s1(4) by (simp add: s2_def)
    ultimately have "sjf_inv E n s4"
      using inv wc s1(5,7,8) s3(3-) s4 live time c2 by (simp add: sjf_inv_def s2_def)
    with body go s4(2) show ?thesis by auto
  qed
qed

lemma sjf_body_inv:
  "sjf_inv E n s \<Longrightarrow> sjf_body E n s = Inr (False, s1) \<Longrightarrow> sjf_inv E n s1"
  by (auto dest: sjf_body_refines)

section \<open>What the scheduler does\<close>

lemma sjf_init_ok:
  assumes "c_qsort (qsort E)" and "forks_ok E" and "workload ps"
  shows "\<exists>qs s. mset qs = mset ps \<and> sorted (map ready qs) \<and> sjf_init E ps [] = Inr s \<and>
    sjf_inv E (int (length ps)) s \<and> sjf_abs s = np_init qs \<and>
    procs s = map (\<lambda>p. p\<lparr>pid := -1\<rparr>) qs \<and> running s = -1 \<and> forked (trace s) = []"
proof -
  define qs where "qs = qsort E (\<lambda>a b. projr (cmp a b)) ps"
  have range: "\<forall>p\<in>set ps. 0 \<le> ready p \<and> ready p \<le> INT_MAX" using workload_ready [OF assms(3)] by blast
  have diff: "run_qsort E cmp ps = Inr qs" "key_compare ready ps (\<lambda>a b. projr (cmp a b))"
    unfolding qs_def by (rule qsort_difference [OF range cmp_def])+
  have qs: "mset qs = mset ps" "sorted (map ready qs)"
    using c_qsort.qs_mset [OF assms(1)] c_qsort.qs_ordered [OF assms(1) diff(2)] by (auto simp: qs_def)
  have len: "length qs = length ps" using qs(1) by (metis size_mset)
  have wl: "workload qs" using workload_perm [OF qs(1) [symmetric] assms(3)] .
  obtain t where init: "sjf_init E ps [] = Inr \<lparr>procs = map (\<lambda>p. p\<lparr>pid := -1\<rparr>) qs, t_last = 0, ntime = 0,
      running = -1, finish_cnt = 0, trace = t\<rparr>" (is "_ = Inr ?s")
    and t: "sjf_log t = []" "units 1000000 t = 0" "forked t = []"
    using diff(1) forks_okD(4) [OF assms(2)]
    by (auto simp: sjf_init_def proc_assign_cpu_def PARENT_CPU_def sched_setaffinity_def
        sched_setscheduler_def Let_def)
  have abs: "sjf_abs ?s = np_init qs" using t by (simp add: sjf_abs_def np_init_def comp_def)
  have "live_before 0 (map (\<lambda>p. p\<lparr>pid := -1\<rparr>) qs)"
    using wl by (intro reset_live) (simp add: workload_def)
  then have "sjf_inv E (int (length ps)) ?s"
    using np_init_inv(1) [OF wl] workload_length [OF wl] wl assms(2) t len
    by (simp add: sjf_inv_def abs workload_def comp_def)
  with qs init abs t(3) show ?thesis by auto
qed

lemma SJF_runs:
  assumes "forks_ok E" and "c_qsort (qsort E)" and "workload ps"
  shows "\<exists>qs tr. mset qs = mset ps \<and> sorted (map ready qs) \<and>
    SJF E ps (int (length ps)) [] = Some (Inl (Exited 0 tr)) \<and>
    sjf_log tr = np_plan sjf_choice (map ready qs) (map name qs) (length qs) (map exec qs) 0 \<and>
    units 1000000 tr = makespan ps"
proof -
  let ?n = "int (length ps)"
  from sjf_init_ok [OF assms(2,1,3)] obtain qs s0 where
    qs: "mset qs = mset ps" "sorted (map ready qs)" and s0: "sjf_init E ps [] = Inr s0"
      "sjf_inv E ?n s0" "sjf_abs s0 = np_init qs" by blast
  have wl: "workload qs" using workload_perm [OF qs(1) [symmetric] assms(3)] .
  from shortest.run_workload [OF wl] obtain a where
    a: "run_loop (np_body sjf_choice) (sjf_abs s0) = Some (Inr a)" "now a = makespan qs"
      "log a = np_plan sjf_choice (map ready qs) (map name qs) (length qs) (map exec qs) 0"
    using s0(3) by auto
  have "\<exists>u s'. reaches (sjf_body E ?n) s0 u \<and> sjf_inv E ?n u \<and> sjf_body E ?n u = Inr (True, s') \<and>
    sjf_abs s' = a \<and> run_loop (sjf_body E ?n) s0 = Some (Inr s')"
    by (rule run_loop_refines [where abody = "np_body sjf_choice" and \<alpha> = sjf_abs and I = "sjf_inv E ?n"])
      (use sjf_body_refines s0(2) a(1) in blast)+
  then obtain u s where s: "sjf_inv E ?n u" "sjf_body E ?n u = Inr (True, s)" "sjf_abs s = a"
    "run_loop (sjf_body E ?n) s0 = Some (Inr s)" by blast
  have "units 1000000 (trace s) = ntime s" using sjf_body_refines [OF s(1)] s(2) by auto
  then have "units 1000000 (trace s) = makespan ps" "sjf_log (trace s) = log a"
    using a(2) makespan_perm [OF qs(1) wl] by (auto simp: sjf_abs_def simp flip: s(3))
  then show ?thesis using qs s0(1) s(4) a(3) by (auto simp: SJF_def)
qed

text \<open>
  C5: \<open>SJF\<close> on a proper workload ends the program with status 0, and its output lines come in
  the order and at the times of the shortest-job-first plan: from each completion to the next start
  of the shortest process that has arrived, ties going to the first in the sorted array; the last of
  them at the makespan.
\<close>

theorem SJF_schedule:
  assumes "forks_ok E" and "c_qsort (qsort E)" and "workload ps"
  shows "\<exists>qs tr. mset qs = mset ps \<and> sorted (map ready qs) \<and>
    SJF E ps (int (length ps)) [] = Some (Inl (Exited 0 tr)) \<and>
    sjf_log tr = np_plan sjf_choice (map ready qs) (map name qs) (length qs) (map exec qs) 0 \<and>
    units 1000000 tr = makespan ps"
  using SJF_runs [OF assms] .

section \<open>Shortest first is best when all arrive together\<close>

fun completion_total :: "int \<Rightarrow> int list \<Rightarrow> int" where
  "completion_total t [] = 0"
| "completion_total t (x # xs) = (t + x) + completion_total (t + x) xs"

lemma completion_total_insort: "completion_total t (insort x ys) \<le> completion_total t (x # ys)"
proof (induction ys arbitrary: t)
  case (Cons y ys)
  from Cons [of "t + y"] show ?case by (simp add: algebra_simps)
qed simp

lemma completion_total_sort: "completion_total t (sort xs) \<le> completion_total t xs"
proof (induction xs arbitrary: t)
  case (Cons x xs)
  have "completion_total t (insort x (sort xs)) \<le> completion_total t (x # sort xs)"
    by (rule completion_total_insort)
  with Cons [of "t + x"] show ?case by simp
qed simp

lemma fcfs_plan_total:
  assumes "\<forall>p\<in>set ps. ready p \<le> t" and "\<forall>p\<in>set ps. 0 \<le> exec p"
  shows "sum_list (map snd (fcfs_plan t ps)) = completion_total t (map exec ps)"
  using assms by (induction t ps rule: fcfs_plan.induct) (fastforce simp: Let_def max_def)+

lemma sort_min_first:
  assumes "mset xs = add_mset x (mset ys)" and "\<forall>y\<in>set ys. x \<le> y"
  shows "sort xs = x # sort (ys :: int list)"
  using assms by (intro properties_for_sort) auto

lemma sjf_plan_total:
  assumes "\<forall>a\<in>set as. a \<le> t" and "length l = length as" and "\<forall>x\<in>set l. 0 \<le> x"
    and "unfinished l = int k"
  shows "sum_list (map snd (np_plan sjf_choice as ns k l t)) =
    completion_total t (sort (filter (\<lambda>x. x \<noteq> 0) l))"
  using assms
proof (induction k arbitrary: l t)
  case 0
  then have "filter (\<lambda>x. x \<noteq> 0) l = []" by (auto simp: unfinished_zero filter_empty_conv)
  then show ?case by simp
next
  case (Suc k)
  have "unfinished l \<noteq> 0" using Suc.prems by simp
  note start = next_start_props [OF Suc.prems(2) this, where t = t]
  from start(3) obtain i where i: "sjf_choice as l (next_start as l t) = Some i"
    using shortest.sel_None [OF Suc.prems(2)] by (metis not_None_eq)
  have least: "i < length l" "l ! i \<noteq> 0" "\<And>j. j < length l \<Longrightarrow> l ! j \<noteq> 0 \<Longrightarrow> l ! i \<le> l ! j"
    using best_Some [OF i [unfolded sjf_choice_def]] Suc.prems(1,2) start(1)
    by (auto simp: all_set_conv_all_nth intro: order_trans)
  have "next_start as l t = t"
  proof -
    have "i < length as" "as ! i \<le> t" using least(1) Suc.prems(1,2) by auto
    then show ?thesis using next_start_now [OF Suc.prems(2)] least(2) by blast
  qed
  note st = this
  let ?l = "l[i := 0]"
  have nn: "\<forall>x\<in>set ?l. 0 \<le> x" using Suc.prems(3) set_update_subset_insert [of l i 0] by auto
  have "unfinished ?l = int k" using Suc.prems(4) least by (simp add: unfinished_update)
  moreover have "0 \<le> l ! i" using Suc.prems(3) least(1) by simp
  ultimately have IH: "sum_list (map snd (np_plan sjf_choice as ns k ?l (t + l ! i))) =
      completion_total (t + l ! i) (sort (filter (\<lambda>x. x \<noteq> 0) ?l))"
    using Suc.prems(1,2) nn by (intro Suc.IH) auto
  have "sort (filter (\<lambda>x. x \<noteq> 0) l) = l ! i # sort (filter (\<lambda>x. x \<noteq> 0) ?l)"
  proof (rule sort_min_first)
    define M where "M = mset l - {#l ! i#}"
    have "mset l = add_mset (l ! i) M" and "mset ?l = add_mset 0 M"
      using least(1) by (simp_all add: M_def mset_update)
    then show "mset (filter (\<lambda>x. x \<noteq> 0) l) = add_mset (l ! i) (mset (filter (\<lambda>x. x \<noteq> 0) ?l))"
      using least(2) by simp
    show "\<forall>y\<in>set (filter (\<lambda>x. x \<noteq> 0) ?l). l ! i \<le> y"
      using least(1,3) by (auto simp: in_set_conv_nth nth_list_update split: if_splits)
  qed
  with IH st i show ?case by (simp add: Let_def)
qed

text \<open>
  C14: when all processes are ready at time 0, \<open>SJF\<close> is optimal for the average turnaround: the
  sum of the completion times it prints at is at most that of running the processes one after the
  other in any order \<open>rs\<close>.
\<close>

theorem SJF_minimal_turnaround:
  assumes "forks_ok E" and "c_qsort (qsort E)" and "workload ps" and "\<forall>p\<in>set ps. ready p = 0"
    and "mset rs = mset ps"
  shows "\<exists>tr. SJF E ps (int (length ps)) [] = Some (Inl (Exited 0 tr)) \<and>
    sum_list (map snd (sjf_log tr)) \<le> sum_list (map snd (fcfs_plan 0 rs))"
proof -
  from SJF_runs [OF assms(1-3)] obtain qs tr where qs: "mset qs = mset ps"
    and tr: "SJF E ps (int (length ps)) [] = Some (Inl (Exited 0 tr))"
      "sjf_log tr = np_plan sjf_choice (map ready qs) (map name qs) (length qs) (map exec qs) 0" by blast
  have sets: "set qs = set ps" "set rs = set ps" using qs assms(5) by (auto dest: mset_eq_setD)
  have pos: "\<forall>p\<in>set ps. 0 < exec p" using assms(3) by (simp add: workload_def)
  then have nz: "\<forall>x\<in>set (map exec qs). x \<noteq> 0" using sets by fastforce
  then have f: "filter (\<lambda>x. x \<noteq> 0) (map exec qs) = map exec qs" by simp
  have "sum_list (map snd (sjf_log tr)) = completion_total 0 (sort (map exec qs))"
    unfolding tr(2) using sjf_plan_total [of "map ready qs" 0 "map exec qs" "length qs" "map name qs"]
      unfinished_all [OF nz] sets pos assms(4) f by (auto simp: less_imp_le)
  also have "sort (map exec qs) = sort (map exec rs)"
    using qs assms(5) by (intro properties_for_sort) simp_all
  also have "completion_total 0 (sort (map exec rs)) \<le> completion_total 0 (map exec rs)"
    by (rule completion_total_sort)
  also have "\<dots> = sum_list (map snd (fcfs_plan 0 rs))"
    using sets pos assms(4) by (intro fcfs_plan_total [symmetric]) (auto simp: less_imp_le)
  finally show ?thesis using tr(1) by blast
qed

section \<open>Scheduling classes\<close>

lemma sjf_switch_cases:
  assumes "sjf_switch E s = Inr s1"
  obtains "s1 = s"
  | i r where "running s = -1" "i < length (procs s)" "eligible (procs s ! i)"
      "running s1 = int i" "procs s1 = procs s"
      "r = setscheduler_ret E (trace s) (pid (procs s ! i)) SCHED_FIFO 99"
      "trace s1 = (if r < 0 then Perror ''sched_setscheduler''
         # Setscheduler (pid (procs s ! i)) SCHED_FIFO 99 r # trace s
       else Setscheduler (pid (procs s ! i)) SCHED_FIFO 99 r # trace s)"
proof (cases "running s = -1")
  case False
  with assms that(1) show ?thesis by (simp add: sjf_switch_def sjf_next_def)
next
  case True
  let ?b = "best (\<lambda>j. eligible (procs s ! j)) (\<lambda>j. exec (procs s ! j)) (length (procs s))"
  show ?thesis
  proof (cases ?b)
    case None
    with assms that(1) True show ?thesis by (simp add: sjf_switch_def sjf_next_best)
  next
    case (Some i)
    from best_Some [OF this] have "i < length (procs s)" "eligible (procs s ! i)" by auto
    with assms that(2) True Some show ?thesis
      by (auto simp: sjf_switch_def sjf_next_best sched_setscheduler_def Let_def)
  qed
qed

abbreviation sjf_prio :: "sjf_state \<Rightarrow> bool" where
  "sjf_prio s \<equiv> prio_inv (SCHED_FIFO, 99) (trace s) (procs s) (running s)"

lemma sjf_check_prio:
  assumes "sjf_prio s" and "sjf_check n s = Inr (b, s1)"
  shows "sjf_prio s1 \<and> procs s1 = procs s \<and> ntime s1 = ntime s \<and>
    (\<forall>i. running s1 = int i \<longrightarrow> exec (procs s1 ! i) \<noteq> 0 \<and> running s = int i)"
proof (cases "running s = -1 \<or> exec (procs s ! nat (running s)) \<noteq> 0")
  case True
  with assms show ?thesis by (auto simp: sjf_check_def bindr_eq_Inr arr_get_Inr split: if_splits)
next
  case False
  then have r: "running s = int (nat (running s))" "exec (procs s ! nat (running s)) = 0"
    and s1: "procs s1 = procs s" "ntime s1 = ntime s" "running s1 = -1" "forked (trace s1) = forked (trace s)"
      "\<And>r. class_of (trace s1) r = class_of (trace s) r"
    using assms(2) by (auto simp: sjf_check_def bindr_eq_Inr arr_get_Inr split: if_splits)
  have "prio_inv (SCHED_FIFO, 99) (trace s) (procs s) (-1)"
    using assms(1) r by (metis prio_inv_finished)
  then have "sjf_prio s1" unfolding s1(1,3) by (rule prio_inv_trace) (simp_all add: s1)
  with s1 show ?thesis by simp
qed

lemma sjf_switch_prio:
  assumes E: "prio_ok E" and inv: "sjf_prio s" and sw: "sjf_switch E s = Inr s1"
    and nz: "\<forall>i. running s = int i \<longrightarrow> exec (procs s ! i) \<noteq> 0"
  shows "sjf_prio s1 \<and> (\<forall>i. running s1 = int i \<longrightarrow> exec (procs s1 ! i) \<noteq> 0)"
  using sw
proof (cases rule: sjf_switch_cases)
  case 1
  with inv nz show ?thesis by simp
next
  case (2 i r)
  then have "\<not> r < 0" using prio_okD [OF E] by simp
  then have tr: "trace s1 = Setscheduler (pid (procs s ! i)) SCHED_FIFO 99 r # trace s" using 2 by simp
  have "prio_inv (SCHED_FIFO, 99) (trace s1) (procs s) (int i)"
    by (rule prio_inv_grant [where t = "trace s"])
      (use 2(1-3) inv tr \<open>\<not> r < 0\<close> in \<open>auto simp: eligible_def\<close>)
  with 2 show ?thesis by (simp add: eligible_def)
qed

lemma sjf_tick_prio:
  assumes "sjf_prio s" and "sjf_tick s = Inr s1"
    and "\<forall>i. running s = int i \<longrightarrow> exec (procs s ! i) \<noteq> 0"
  shows "sjf_prio s1"
proof -
  have unit: "prio_inv (SCHED_FIFO, 99) (UNIT_T (trace s)) (procs s) (running s)"
    by (rule prio_inv_trace [of _ "trace s"]) (use assms(1) in \<open>auto simp: UNIT_T_def\<close>)
  show ?thesis
  proof (cases "running s = -1")
    case True
    with assms(2) unit show ?thesis by (auto simp: sjf_tick_def bindr_eq_Inr Let_def)
  next
    case False
    with assms(2) have "0 \<le> running s" "nat (running s) < length (procs s)"
      and s1: "procs s1 = (procs s)[nat (running s) := (procs s ! nat (running s))\<lparr>exec := exec (procs s ! nat (running s)) - 1\<rparr>]"
        "trace s1 = UNIT_T (trace s)" "running s1 = running s"
      by (auto simp: sjf_tick_def bindr_eq_Inr c_int_Inr arr_get_Inr arr_set_Inr Let_def)
    moreover have "exec (procs s ! nat (running s)) \<noteq> 0" using assms(3) \<open>0 \<le> running s\<close> by simp
    ultimately show ?thesis using prio_inv_unit [OF unit] by simp
  qed
qed

lemma sjf_body_prio:
  assumes E: "forks_ok E" "prio_ok E" "fresh_pids E"
    and inv: "sjf_inv E n s" "sjf_prio s" and body: "sjf_body E n s = Inr (False, s1)"
  shows "sjf_prio s1"
proof -
  from body obtain s2 ps t s3 where c: "sjf_check n s = Inr (False, s2)"
    and sp: "sjf_spawn E (ntime s2) (procs s2) (trace s2) = Inr (ps, t)"
    and sw: "sjf_switch E (s2\<lparr>procs := ps, trace := t\<rparr>) = Inr s3" and tk: "sjf_tick s3 = Inr s1"
    by (auto simp: sjf_body_def bindr_eq_Inr split: if_splits)
  note c1 = sjf_check_prio [OF inv(2) c]
  have live: "live_before (ntime s2) (procs s2)" using inv(1) c1 by (simp add: sjf_inv_def)
  note sp' = sp [unfolded sjf_spawn_def]
  let ?s = "s2\<lparr>procs := ps, trace := t\<rparr>"
  have "sjf_prio ?s" using sjf.spawn_prio(1) [OF E sp' _ live] c1 by auto
  moreover have "exec (ps ! i) \<noteq> 0" if "running s2 = int i" for i
  proof -
    have "map exec ps = map exec (procs s2)"
      using sjf.spawn_ok [OF E(1)] sp' spawned_fields(4) by (metis Pair_inject sum.inject(2))
    moreover have "i < length (procs s2)"
      using that inv(1) c1 by (auto simp: sjf_inv_def mach_inv_def sjf_abs_def)
    ultimately show ?thesis using c1 that by (metis length_map nth_map)
  qed
  ultimately have "sjf_prio s3 \<and> (\<forall>i. running s3 = int i \<longrightarrow> exec (procs s3 ! i) \<noteq> 0)"
    using sjf_switch_prio [OF E(2) _ sw] by simp
  then show ?thesis using sjf_tick_prio [OF _ tk] by blast
qed

text \<open>
  C25: at the top of every round of \<open>SJF\<close> on a proper workload, of the started processes with
  work left the running one is in class \<open>SCHED_FIFO\<close> with priority 99 and every other one is
  \<open>SCHED_IDLE\<close>: the kernel's preference is the scheduler's. For fresh pids and succeeding
  priority requests.
\<close>

theorem SJF_priorities:
  assumes "forks_ok E" and "prio_ok E" and "fresh_pids E" and "c_qsort (qsort E)" and "workload ps"
    and "sjf_init E ps [] = Inr s0" and "reaches (sjf_body E (int (length ps))) s0 s"
    and "i < length ps" and "pid (procs s ! i) \<noteq> -1" and "exec (procs s ! i) \<noteq> 0"
  shows "class_of (trace s) (pid (procs s ! i)) =
    (if running s = int i then (SCHED_FIFO, 99) else (SCHED_IDLE, 0))"
proof -
  let ?I = "\<lambda>s. sjf_inv E (int (length ps)) s \<and> sjf_prio s"
  from sjf_init_ok [OF assms(4,1,5)] assms(6) have "?I s0" by (auto simp: prio_inv_reset)
  have "?I s"
    by (rule reaches_invariant [OF assms(7), where I = ?I])
      (use \<open>?I s0\<close> sjf_body_inv sjf_body_prio [OF assms(1-3)] in blast)+
  then show ?thesis using assms(8-10) by (auto simp: sjf_inv_def prio_inv_def)
qed

section \<open>The functions on their own\<close>

text \<open>
  The selection of \<open>SJF\<close> keeps the running process; otherwise it takes the first process in
  the table with the least execution time among those forked with work left, and -1 exactly when
  there is none.
\<close>

lemma sjf_next_spec:
  shows "sjf_next run ps =
    (if run \<noteq> -1 then run
     else case filter (\<lambda>i. eligible (ps ! i) \<and> (\<forall>j<length ps. eligible (ps ! j) \<longrightarrow> exec (ps ! i) \<le> exec (ps ! j)))
            [0..<length ps] of [] \<Rightarrow> -1 | i # _ \<Rightarrow> int i)"
  by (simp add: sjf_next_best best_filter enc_def split: option.split list.split)

text \<open>
  C37: the comparison of \<open>SJF\<close> subtracts. When \<^verbatim>\<open>qsort\<close> compares two processes, in either order, whose
  ready times are more than \<open>INT_MAX + 1\<close> apart, the call and with it the whole scheduler is undefined
  by signed overflow.
\<close>

theorem SJF_sort_overflow:
  assumes "a \<in> set ps" and "b \<in> set ps" and "INT_MAX + 1 < ready a - ready b"
    and "qsort_asks E (\<lambda>x y. projr (cmp x y)) ps a b \<or> qsort_asks E (\<lambda>x y. projr (cmp x y)) ps b a"
  shows "SJF E ps n t = Some (Inl (Undefined Signed_Overflow))"
  using qsort_overflow [OF assms cmp_def] by (simp add: SJF_def sjf_init_def Let_def)

text \<open>
  Starting a process in \<open>SJF\<close>: the child spins exactly \<open>exec\<close> units of a million rounds
  and exits with status 0; after a failed \<^verbatim>\<open>fork\<close> the parent carries on with pid -1, and ends
  the program with status 1 when the kernel refuses the affinity of that pid.
\<close>

lemma sjf_start_cases:
  shows "(fork_ret E t = 0 \<longrightarrow>
      sjf_start E p t = Inl (Exited 0 (replicate (nat (exec p)) (Spin 1000000) @ Fork 0 # t))) \<and>
    (fork_ret E t = -1 \<longrightarrow> (\<forall>u m. setaffinity_ret E u (-1) m < 0) \<longrightarrow>
      (\<exists>r. sjf_start E p t = Inl (Exited 1 (Perror ''sched_setaffinity'' # Setaffinity (-1) [1] r #
         Perror ''fork fails! '' # Fork (-1) # t))))"
  by (simp add: sjf_start_def sjf_child_replicate proc_assign_cpu_def CHILD_CPU_def cpu_mask_def
      sched_setaffinity_def Let_def)

section \<open>Witnesses\<close>

theorem SJF_schedule_witness:
  "\<exists>qs tr. mset qs = mset demo_procs \<and> SJF demo_os demo_procs 2 [] = Some (Inl (Exited 0 tr)) \<and>
    sjf_log tr = np_plan sjf_choice (map ready qs) (map name qs) (length qs) (map exec qs) 0 \<and> units 1000000 tr = 3"
  using SJF_schedule [of demo_os demo_procs] libc.c_qsort_axioms by auto

definition demo_batch :: "process list" where
  "demo_batch =
     [\<lparr>name = ''P1'', ready = 0, exec = 2, waiting = 0, pid = 0\<rparr>,
      \<lparr>name = ''P2'', ready = 0, exec = 1, waiting = 0, pid = 0\<rparr>]"

theorem SJF_minimal_turnaround_witness:
  "\<exists>tr. SJF demo_os demo_batch 2 [] = Some (Inl (Exited 0 tr)) \<and>
    sum_list (map snd (sjf_log tr)) \<le> sum_list (map snd (fcfs_plan 0 demo_batch))"
proof -
  have "workload demo_batch"
    by (simp add: workload_def demo_batch_def horizon_def last_arrival_def work_def INT_MAX_def)
  moreover have "\<forall>p\<in>set demo_batch. ready p = 0" "length demo_batch = 2" by (simp_all add: demo_batch_def)
  ultimately show ?thesis
    using SJF_minimal_turnaround [of demo_os demo_batch demo_batch] libc.c_qsort_axioms by auto
qed

theorem SJF_priorities_witness:
  "\<exists>s0 s. sjf_init demo_os demo_procs [] = Inr s0 \<and> reaches (sjf_body demo_os 2) s0 s \<and>
     pid (procs s ! 0) \<noteq> -1 \<and> class_of (trace s) (pid (procs s ! 0)) = (SCHED_FIFO, 99)"
proof -
  let ?init = "projr (sjf_init demo_os demo_procs [])"
  let ?s = "snd (projr (sjf_body demo_os 2 ?init))"
  have init: "sjf_init demo_os demo_procs [] = Inr ?init" by (rule res_ok) code_simp
  have "sjf_body demo_os 2 ?init = Inr (False, ?s)" by (rule res_go) code_simp+
  then have r: "reaches (sjf_body demo_os 2) ?init ?s" by (rule reaches_step [OF _ reaches.start])
  have f: "pid (procs ?s ! 0) \<noteq> -1" "exec (procs ?s ! 0) \<noteq> 0" "running ?s = int 0" by code_simp+
  have "class_of (trace ?s) (pid (procs ?s ! 0)) = (SCHED_FIFO, 99)"
    using SJF_priorities [of demo_os demo_procs ?init ?s 0] init r f libc.c_qsort_axioms by simp
  with init r f(1) show ?thesis by blast
qed

theorem SJF_sort_overflow_witness:
  "SJF demo_os [\<lparr>name = ''P1'', ready = 2147483647, exec = 1, waiting = 0, pid = 0\<rparr>,
     \<lparr>name = ''P2'', ready = -2, exec = 1, waiting = 0, pid = 0\<rparr>] 2 [] = Some (Inl (Undefined Signed_Overflow))"
  by (rule SJF_sort_overflow [where a = "\<lparr>name = ''P1'', ready = 2147483647, exec = 1, waiting = 0, pid = 0\<rparr>"
      and b = "\<lparr>name = ''P2'', ready = -2, exec = 1, waiting = 0, pid = 0\<rparr>"]) (simp_all add: INT_MAX_def demo_os_def)

end
