(* ===== verification/RR_Sched.thy ===== *)
theory RR_Sched
  imports PSJF_Sched
begin

text \<open>
  \<^verbatim>\<open>RR.c\<close> and \<^verbatim>\<open>RR.h\<close>: round robin with a quantum of 500 units. The parent lets
  the running process continue until its quantum is over and then goes round the table to the next
  process with work left. Definitions in the order of the file, then the search, the loop as a
  work-conserving scheduler, the quantum, the classes and what is printed as waiting time.
\<close>

section \<open>The code\<close>

definition CHILD_CPU :: int where "CHILD_CPU = 1"
definition PARENT_CPU :: int where "PARENT_CPU = 0"

definition Unit_time :: "trace \<Rightarrow> trace" where
  "Unit_time t = Spin (spin_loop 1000000 0 0) # t"

definition interval :: int where "interval = 500"

record rr_state =
  procs :: "process list"
  time_now :: int
  time_last :: int
  running :: int
  finish_cnt :: int
  wait :: int
  trace :: trace

definition RR_compare :: "process \<Rightarrow> process \<Rightarrow> int res" where
  "RR_compare a b = c_int (ready a - ready b)"

text \<open>The search from the front of the table,\<close>

function rr_first :: "process list \<Rightarrow> nat \<Rightarrow> int" where
  "rr_first ps i =
     (if i < length ps then
        (if pid (ps ! i) \<noteq> -1 \<and> 0 < exec (ps ! i) then int i else rr_first ps (Suc i))
      else -1)"
  by pat_completeness auto
termination by (relation "measure (\<lambda>(ps, i). length ps - i)") auto

text \<open>and the one around it, which does not return when nobody has work left.\<close>

partial_function (option) rr_ring :: "process list \<Rightarrow> int \<Rightarrow> int \<Rightarrow> int res option" where
  "rr_ring ps n ret =
     (case arr_get ps ret of
        Inl e \<Rightarrow> Some (Inl e)
      | Inr p \<Rightarrow>
          if pid p = -1 \<or> exec p = 0 then
            (case bindr (c_int (ret + 1)) (\<lambda>r. c_rem r n) of
               Inl e \<Rightarrow> Some (Inl e)
             | Inr r \<Rightarrow> rr_ring ps n r)
          else Some (Inr ret))"

definition RR_next :: "rr_state \<Rightarrow> int \<Rightarrow> int res option" where
  "RR_next s num_process =
     (if running s = -1 then Some (Inr (rr_first (procs s) 0))
      else bindo (Some (bindr (c_int (time_now s - time_last s)) (\<lambda>x. c_rem x interval))) (\<lambda>m.
        if m = 0 then
          bindo (Some (bindr (c_int (running s + 1)) (\<lambda>r. c_rem r num_process)))
            (rr_ring (procs s) num_process)
        else Some (Inr (running s))))"

text \<open>The child's loop \<open>for (i = 0; i < proc.exec; i++) Unit_time();\<close>\<close>

function rr_child :: "int \<Rightarrow> int \<Rightarrow> trace \<Rightarrow> trace" where
  "rr_child i n t = (if i < n then rr_child (i + 1) n (Unit_time t) else t)"
  by pat_completeness auto
termination by (relation "measure (\<lambda>(i, n, t). nat (n - i))") auto

definition proc_exec :: "os \<Rightarrow> process \<Rightarrow> trace \<Rightarrow> (int \<times> trace) res" where
  "proc_exec E proc t =
     (let p = fork_ret E t; t1 = Fork p # t in
      if p < 0 then Inr (-1, Perror ''fork'' # t1)
      else if p = 0 then Inl (Exited 0 (rr_child 0 (exec proc) t1))
      else bindr (proc_assign_cpu E p CHILD_CPU t1) (\<lambda>(_, t2). Inr (p, t2)))"

definition proc_block :: "os \<Rightarrow> int \<Rightarrow> trace \<Rightarrow> int \<times> trace" where
  "proc_block E p t =
     (case sched_setscheduler E p SCHED_IDLE 0 t of (ret, t1) \<Rightarrow>
        if ret < 0 then (-1, Perror ''sched_setscheduler'' # t1) else (ret, t1))"

definition proc_wakeup :: "os \<Rightarrow> int \<Rightarrow> trace \<Rightarrow> int \<times> trace" where
  "proc_wakeup E p t =
     (case sched_setscheduler E p SCHED_OTHER 0 t of (ret, t1) \<Rightarrow>
        if ret < 0 then (-1, Perror ''sched_setscheduler'' # t1) else (ret, t1))"

text \<open>\<open>RR_main\<close>, part by part: the end of the running process,\<close>

definition rr_check :: "int \<Rightarrow> rr_state \<Rightarrow> (bool \<times> rr_state) res" where
  "rr_check num_process s =
     (if running s \<noteq> -1 then
        bindr (arr_get (procs s) (running s)) (\<lambda>p.
          if exec p = 0 then
            bindr (c_int (wait s + time_now s)) (\<lambda>w1.
              bindr (c_int (w1 - ready p)) (\<lambda>w2.
                bindr (c_int (w2 - exec p)) (\<lambda>w.
                  bindr (c_int (finish_cnt s + 1)) (\<lambda>f.
                    Inr (f = num_process,
                      s\<lparr>trace := Printf ''Finish %s %d %d\<newline>'' [S (name p), D (pid p), D (time_now s)]
                          # Waitpid (pid p) # trace s,
                        wait := w, running := -1, finish_cnt := f\<rparr>)))))
          else Inr (False, s))
      else Inr (False, s))"

text \<open>the processes whose time has come,\<close>

definition rr_start :: "os \<Rightarrow> int \<Rightarrow> process \<Rightarrow> trace \<Rightarrow> (process \<times> trace) res" where
  "rr_start E tm p t =
     bindr (proc_exec E p t) (\<lambda>(c, t1).
       Inr (p\<lparr>pid := c\<rparr>, Printf ''%s ready at time %d.\<newline>'' [S (name p), D tm] # snd (proc_block E c t1)))"

definition rr_spawn :: "os \<Rightarrow> int \<Rightarrow> process list \<Rightarrow> trace \<Rightarrow> (process list \<times> trace) res" where
  "rr_spawn E tm ps t = spawn_all (rr_start E tm) tm ps t"

text \<open>the switch,\<close>

definition rr_switch :: "os \<Rightarrow> int \<Rightarrow> rr_state \<Rightarrow> rr_state res" where
  "rr_switch E next s =
     (if next \<noteq> -1 then
        if running s \<noteq> next then
          bindr (arr_get (procs s) next) (\<lambda>p.
            bindr (pid_at E (procs s) (running s) (snd (proc_wakeup E (pid p) (trace s)))) (\<lambda>(old, t2).
              Inr (s\<lparr>trace := snd (proc_block E old t2), running := next, time_last := time_now s\<rparr>)))
        else Inr s
      else Inr s)"

text \<open>the unit of time,\<close>

definition rr_tick :: "rr_state \<Rightarrow> rr_state res" where
  "rr_tick s =
     (let s1 = s\<lparr>trace := Unit_time (trace s)\<rparr> in
      bindr (if running s1 \<noteq> -1 then
               bindr (arr_get (procs s1) (running s1)) (\<lambda>p.
                 bindr (c_int (exec p - 1)) (\<lambda>e. arr_set (procs s1) (running s1) (p\<lparr>exec := e\<rparr>)))
             else Inr (procs s1)) (\<lambda>ps.
        bindr (c_int (time_now s1 + 1)) (\<lambda>tm. Inr (s1\<lparr>procs := ps, time_now := tm\<rparr>))))"

text \<open>one round,\<close>

definition rr_body :: "os \<Rightarrow> int \<Rightarrow> rr_state \<Rightarrow> (bool \<times> rr_state) res option" where
  "rr_body E num_process s =
     bindo (Some (rr_check num_process s)) (\<lambda>(brk, s1).
       if brk then Some (Inr (True, s1))
       else bindo (Some (rr_spawn E (time_now s1) (procs s1) (trace s1))) (\<lambda>(ps, t).
         bindo (RR_next (s1\<lparr>procs := ps, trace := t\<rparr>) num_process) (\<lambda>next.
           Some (bindr (rr_switch E next (s1\<lparr>procs := ps, trace := t\<rparr>)) (\<lambda>s2.
             bindr (rr_tick s2) (\<lambda>s3. Inr (False, s3)))))))"

text \<open>what comes before the loop, and the average after it.\<close>

definition rr_init :: "os \<Rightarrow> process list \<Rightarrow> trace \<Rightarrow> rr_state res" where
  "rr_init E proc t =
     bindr (run_qsort E RR_compare proc) (\<lambda>ps.
       let p_pid = getpid_ret E t in
       bindr (proc_assign_cpu E p_pid PARENT_CPU t) (\<lambda>(_, t1).
         case sched_setscheduler E p_pid SCHED_OTHER 0 t1 of (ret, t2) \<Rightarrow>
           if ret < 0 then Inl (Exited 1 (Fprintf_stderr ''sched_scheduler error.\<newline>'' # t2))
           else Inr \<lparr>procs = map (\<lambda>p. p\<lparr>pid := -1\<rparr>) ps, time_now = 0, time_last = 0, running = -1,
             finish_cnt = 0, wait = 0, trace = t2\<rparr>))"

definition RR_main :: "os \<Rightarrow> process list \<Rightarrow> int \<Rightarrow> trace \<Rightarrow> rr_state res option" where
  "RR_main E proc num_process t =
     (case rr_init E proc t of
        Inl e \<Rightarrow> Some (Inl e)
      | Inr s \<Rightarrow> bindo (run_loopo (rr_body E num_process) s) (\<lambda>s1.
          Some (Inr (s1\<lparr>trace := Printf ''Average waiting time: %.2f\<newline>'' [Quot (wait s1) num_process] # trace s1\<rparr>))))"

declare rr_first.simps [simp del] rr_child.simps [simp del]

section \<open>The search\<close>

lemma rr_first_find:
  "rr_first ps i = (case filter (\<lambda>j. pid (ps ! j) \<noteq> -1 \<and> 0 < exec (ps ! j)) [i..<length ps] of
     [] \<Rightarrow> -1 | j # _ \<Rightarrow> int j)"
proof (induction ps i rule: rr_first.induct)
  case (1 ps i)
  then show ?case by (subst rr_first.simps) (simp add: upt_conv_Cons)
qed

lemma c_rem_next: "0 \<le> r \<Longrightarrow> r < n \<Longrightarrow> n \<le> INT_MAX \<Longrightarrow>
  bindr (c_int (r + 1)) (\<lambda>r. c_rem r n) = Inr ((r + 1) mod n)"
  by (simp add: c_int_nonneg c_rem_pos)

lemma rr_ring_finds:
  assumes "n = int (length ps)" and "n \<le> INT_MAX" and "0 \<le> r" and "r < n"
    and "eligible (ps ! nat ((r + int d) mod n))"
    and "\<forall>k<d. \<not> eligible (ps ! nat ((r + int k) mod n))"
  shows "rr_ring ps n r = Some (Inr ((r + int d) mod n))"
  using assms(3-)
proof (induction d arbitrary: r)
  case 0
  then show ?case
    using assms(1) by (subst rr_ring.simps) (simp add: arr_get_def eligible_def)
next
  case (Suc d)
  let ?r = "(r + 1) mod n"
  have shift: "(?r + int k) mod n = (r + int (Suc k)) mod n" for k
    by (subst mod_add_left_eq) (simp add: algebra_simps)
  have "\<not> eligible (ps ! nat r)" using Suc.prems(1,2,4) by force
  moreover have "rr_ring ps n ?r = Some (Inr ((?r + int d) mod n))"
    using Suc.prems by (intro Suc.IH) (auto simp: shift)
  ultimately show ?case
    using Suc.prems(1,2) assms(1) c_rem_next [OF Suc.prems(1,2) assms(2)] shift [of d]
    by (subst rr_ring.simps) (simp add: arr_get_def eligible_def)
qed

text \<open>With nobody to find, the search never returns.\<close>

lemma rr_ring_result:
  assumes "rr_ring ps n r = Some (Inr x)"
  shows "0 \<le> x \<and> x < int (length ps) \<and> eligible (ps ! nat x)"
proof (rule rr_ring.raw_induct [where P = "\<lambda>ps n r y. \<forall>x. y = Inr x \<longrightarrow>
    0 \<le> x \<and> x < int (length ps) \<and> eligible (ps ! nat x)", OF _ assms, rule_format])
  fix f :: "process list \<Rightarrow> int \<Rightarrow> int \<Rightarrow> int res option" and ps n r y x
  assume IH: "\<And>ps n r y x. f ps n r = Some y \<Longrightarrow> y = Inr x \<Longrightarrow>
      0 \<le> x \<and> x < int (length ps) \<and> eligible (ps ! nat x)"
    and "(case arr_get ps r of Inl e \<Rightarrow> Some (Inl e)
      | Inr p \<Rightarrow> if pid p = -1 \<or> exec p = 0 then
          (case bindr (c_int (r + 1)) (\<lambda>r. c_rem r n) of Inl e \<Rightarrow> Some (Inl e) | Inr r \<Rightarrow> f ps n r)
        else Some (Inr r)) = Some y" and "y = Inr x"
  then show "0 \<le> x \<and> x < int (length ps) \<and> eligible (ps ! nat x)"
    by (auto simp: arr_get_def eligible_def split: sum.splits if_splits)
qed simp

lemma rr_ring_exists:
  assumes "n = int (length ps)" and "n \<le> INT_MAX" and "i < length ps" and "eligible (ps ! i)"
  shows "\<exists>d x. rr_ring ps n ((int i + 1) mod n) = Some (Inr x) \<and> x = (int i + 1 + int d) mod n \<and>
    d < length ps \<and> eligible (ps ! nat x) \<and>
    (\<forall>k<d. \<not> eligible (ps ! nat ((int i + 1 + int k) mod n)))"
proof -
  let ?P = "\<lambda>d. eligible (ps ! nat ((int i + 1 + int d) mod n))"
  have "(int i + 1 + int (length ps - 1)) mod n = int i"
    using assms(1,3) by (simp add: of_nat_diff)
  then have last: "?P (length ps - 1)" using assms(4) by simp
  then obtain d where d: "?P d" "\<forall>k<d. \<not> ?P k" using exists_least_iff [of ?P] by blast
  then have "d \<le> length ps - 1" using last by (meson not_le)
  have shift: "((int i + 1) mod n + int k) mod n = (int i + 1 + int k) mod n" for k
    by (rule mod_add_left_eq)
  have "rr_ring ps n ((int i + 1) mod n) = Some (Inr ((int i + 1 + int d) mod n))"
  proof -
    have "0 < n" using assms(1,3) by linarith
    then have "0 \<le> (int i + 1) mod n" "(int i + 1) mod n < n" by simp_all
    from rr_ring_finds [OF assms(1,2) this, of d, unfolded shift] d show ?thesis by blast
  qed
  with d \<open>d \<le> length ps - 1\<close> assms(3) show ?thesis by (intro exI [of _ d]) auto
qed

text \<open>The next process of a state in the middle of a round.\<close>

definition rr_fine :: "int \<Rightarrow> rr_state \<Rightarrow> bool" where
  "rr_fine n s \<longleftrightarrow> n = int (length (procs s)) \<and> n \<le> INT_MAX \<and> -1 \<le> running s \<and> running s < n \<and>
     0 \<le> time_last s \<and> time_last s \<le> time_now s \<and> time_now s \<le> INT_MAX \<and>
     (\<forall>p\<in>set (procs s). 0 \<le> exec p) \<and> (\<forall>i. running s = int i \<longrightarrow> eligible (procs s ! i))"

lemma RR_next_ok:
  assumes "rr_fine n s"
  shows "\<exists>x. RR_next s n = Some (Inr x) \<and> -1 \<le> x \<and> x < n \<and>
    (x = -1 \<longrightarrow> running s = -1 \<and> (\<forall>i<length (procs s). \<not> eligible (procs s ! i))) \<and>
    (\<forall>i. x = int i \<longrightarrow> eligible (procs s ! i)) \<and>
    (running s \<noteq> -1 \<longrightarrow> x \<noteq> running s \<longrightarrow> (time_now s - time_last s) mod interval = 0)"
proof (cases "running s = -1")
  case True
  let ?f = "filter (\<lambda>j. pid (procs s ! j) \<noteq> -1 \<and> 0 < exec (procs s ! j)) [0..<length (procs s)]"
  have e: "pid (procs s ! j) \<noteq> -1 \<and> 0 < exec (procs s ! j) \<longleftrightarrow> eligible (procs s ! j)"
    if "j < length (procs s)" for j
    using that assms nth_mem [of j "procs s"] by (auto simp: eligible_def rr_fine_def order.strict_iff_order)
  show ?thesis
  proof (cases ?f)
    case Nil
    then have "\<not> eligible (procs s ! j)" if "j < length (procs s)" for j
      using that e by (auto simp: filter_empty_conv)
    with True Nil assms show ?thesis by (simp add: RR_next_def rr_first_find rr_fine_def)
  next
    case (Cons j r)
    then have "j \<in> set ?f" by simp
    then have "j < length (procs s)" "eligible (procs s ! j)" using e by auto
    with True Cons assms show ?thesis by (simp add: RR_next_def rr_first_find rr_fine_def)
  qed
next
  case False
  define i where "i = nat (running s)"
  have r: "running s = int i" "i < length (procs s)" "eligible (procs s ! i)"
    using assms False by (auto simp: rr_fine_def i_def)
  have "bindr (c_int (time_now s - time_last s)) (\<lambda>x. c_rem x interval) =
      Inr ((time_now s - time_last s) mod interval)"
    using assms by (simp add: c_int_nonneg c_rem_pos rr_fine_def interval_def)
  moreover have "bindr (c_int (int i + 1)) (\<lambda>r. c_rem r n) = Inr ((int i + 1) mod n)"
    using assms r by (intro c_rem_next) (auto simp: rr_fine_def)
  moreover obtain d x where x: "rr_ring (procs s) n ((int i + 1) mod n) = Some (Inr x)"
    "x = (int i + 1 + int d) mod n" "eligible (procs s ! nat x)"
    using rr_ring_exists [of n "procs s" i] assms r by (auto simp: rr_fine_def)
  moreover have "0 \<le> x" "x < n" using rr_ring_result [OF x(1)] assms by (auto simp: rr_fine_def)
  ultimately show ?thesis
    using r x(3) assms by (cases "(time_now s - time_last s) mod interval = 0")
      (auto simp: RR_next_def rr_fine_def)
qed

section \<open>The parts of the loop\<close>

lemma rr_child_replicate: "rr_child i n t = replicate (nat (n - i)) (Spin 1000000) @ t"
proof (induction i n t rule: rr_child.induct)
  case (1 i n t)
  show ?case
  proof (cases "i < n")
    case True
    then have "nat (n - i) = Suc (nat (n - (i + 1)))" by simp
    with 1 [OF True] True show ?thesis
      by (simp add: rr_child.simps [of i n] Unit_time_def replicate_append_same
          flip: replicate_Suc append_Cons append_assoc)
  next
    case False
    then show ?thesis by (simp add: rr_child.simps [of i n])
  qed
qed

abbreviation finish_msg :: string where
  "finish_msg \<equiv> ''Finish %s %d %d\<newline>''"

text \<open>Who finished when.\<close>

fun finish_entry :: "arg list \<Rightarrow> string \<times> int" where
  "finish_entry [S n, D p, D t] = (n, t)"
| "finish_entry _ = ([], 0)"

definition rr_finishes :: "trace \<Rightarrow> (string \<times> int) list" where
  "rr_finishes t = map finish_entry (printed finish_msg t)"

lemma rr_calls [simp]:
  "printed f (snd (proc_block E p t)) = printed f t" "printed f (snd (proc_wakeup E p t)) = printed f t"
  "oob_reads (snd (proc_block E p t)) = oob_reads t" "oob_reads (snd (proc_wakeup E p t)) = oob_reads t"
  "forked (snd (proc_block E p t)) = forked t" "forked (snd (proc_wakeup E p t)) = forked t"
  by (simp_all add: proc_block_def proc_wakeup_def sched_setscheduler_def Let_def)

lemma rr_class_of_calls:
  assumes "prio_ok E"
  shows "class_of (snd (proc_block E p t)) q = (if q = p then (SCHED_IDLE, 0) else class_of t q)"
    and "class_of (snd (proc_wakeup E p t)) q = (if q = p then (SCHED_OTHER, 0) else class_of t q)"
  using prio_okD [OF assms]
  by (auto simp: proc_block_def proc_wakeup_def sched_setscheduler_def Let_def)

lemma rr_exec_parent:
  assumes "forks_ok E"
  shows "proc_exec E p t = Inr (fork_ret E t,
    Setaffinity (fork_ret E t) [1] (setaffinity_ret E (Fork (fork_ret E t) # t) (fork_ret E t) [1])
      # Fork (fork_ret E t) # t)"
  using forks_okD [OF assms]
  by (simp add: proc_exec_def proc_assign_cpu_def sched_setaffinity_def cpu_mask_def CHILD_CPU_def Let_def)

lemma rr_exec_trace:
  "proc_exec E p t = Inr (c, t') \<Longrightarrow> oob_reads t' = oob_reads t \<and> (\<forall>f. printed f t' = printed f t)"
  by (auto simp: proc_exec_def proc_assign_cpu_def sched_setaffinity_def Let_def bindr_eq_Inr
      split: if_splits)

interpretation rr: starter rr_start finish_msg
proof
  fix E tm p t assume "forks_ok E"
  then show "\<exists>c t'. rr_start E tm p t = Inr (p\<lparr>pid := c\<rparr>, t') \<and> 0 < c"
    by (auto simp: rr_start_def rr_exec_parent forks_ok_def intro!: exI [of _ "fork_ret E t"])
next
  fix E tm p t q t' assume "rr_start E tm p t = Inr (q, t')"
  then show "(\<exists>c. q = p\<lparr>pid := c\<rparr>) \<and> printed finish_msg t' = printed finish_msg t \<and> oob_reads t' = oob_reads t"
    by (auto simp: rr_start_def bindr_eq_Inr dest!: rr_exec_trace)
next
  fix E tm p t q t' assume "forks_ok E" "prio_ok E" "rr_start E tm p t = Inr (q, t')"
  then show "pid q = fork_ret E t \<and> set (forked t') = insert (pid q) (set (forked t)) \<and>
      (\<forall>r. class_of t' r = (if r = pid q then (SCHED_IDLE, 0) else class_of t r))"
    by (auto simp: rr_start_def rr_exec_parent rr_class_of_calls)
qed

section \<open>The loop as a work-conserving scheduler\<close>

definition rr_ending :: "rr_state \<Rightarrow> bool" where
  "rr_ending s \<longleftrightarrow> running s \<noteq> -1 \<and> exec (procs s ! nat (running s)) = 0"

definition done_ready :: "process list \<Rightarrow> int" where
  "done_ready ps = sum_list (map (\<lambda>p. if exec p = 0 then ready p else 0) ps)"

definition rr_table :: "int \<Rightarrow> int \<Rightarrow> rr_state \<Rightarrow> bool" where
  "rr_table n H s \<longleftrightarrow> n = int (length (procs s)) \<and> 0 < n \<and> n \<le> INT_MAX \<and> n * H \<le> INT_MAX \<and>
     -1 \<le> running s \<and> running s < n \<and> (\<forall>i. running s = int i \<longrightarrow> pid (procs s ! i) \<noteq> -1) \<and>
     (\<forall>p\<in>set (procs s). 0 \<le> exec p \<and> 0 \<le> ready p) \<and> 0 \<le> time_last s \<and> time_last s \<le> time_now s \<and>
     horizon (time_now s) (jobs_of (procs s)) \<le> H \<and> finish_cnt s < n \<and>
     0 \<le> wait s \<and> wait s \<le> finish_cnt s * H \<and> 0 \<le> finish_cnt s \<and>
     finish_cnt s + unfinished (map exec (procs s)) + (if rr_ending s then 1 else 0) = n \<and>
     wait s + done_ready (procs s) - (if rr_ending s then ready (procs s ! nat (running s)) else 0) =
       sum_list (map snd (rr_finishes (trace s)))"

definition rr_inv :: "os \<Rightarrow> int \<Rightarrow> int \<Rightarrow> rr_state \<Rightarrow> bool" where
  "rr_inv E n H s \<longleftrightarrow> forks_ok E \<and> live_before (time_now s) (procs s) \<and> rr_table n H s"

lemma rr_finishes_simps [simp]:
  "rr_finishes (Printf finish_msg [S n, D p, D t] # tr) = rr_finishes tr @ [(n, t)]"
  "rr_finishes (Waitpid p # tr) = rr_finishes tr"
  "rr_finishes (Unit_time tr) = rr_finishes tr"
  "rr_finishes (snd (proc_block E p tr)) = rr_finishes tr"
  "rr_finishes (snd (proc_wakeup E p tr)) = rr_finishes tr"
  "rr_finishes (Oob_Read i # tr) = rr_finishes tr"
  by (simp_all add: rr_finishes_def Unit_time_def)

lemma rr_bounds:
  assumes "rr_table n H s"
  shows "0 \<le> H" and "H \<le> INT_MAX" and "time_now s + work (jobs_of (procs s)) \<le> H"
    and "0 \<le> work (jobs_of (procs s))" and "n \<le> INT_MAX" and "time_now s \<le> H"
proof -
  show w: "0 \<le> work (jobs_of (procs s))" using assms by (intro work_nonneg) (auto simp: rr_table_def)
  show h: "time_now s + work (jobs_of (procs s)) \<le> H"
    using assms horizon_now [of "time_now s" "jobs_of (procs s)"] by (simp add: rr_table_def)
  with w show "time_now s \<le> H" by simp
  with assms show H: "0 \<le> H" by (simp add: rr_table_def)
  have "1 * H \<le> n * H" using assms H by (intro mult_right_mono) (auto simp: rr_table_def)
  moreover have "n * H \<le> INT_MAX" using assms unfolding rr_table_def by blast
  ultimately show "H \<le> INT_MAX" by linarith
  show "n \<le> INT_MAX" using assms unfolding rr_table_def by blast
qed

lemma rr_check_ok:
  assumes "rr_table n H s" and "\<forall>p\<in>set (procs s). pid p \<noteq> -1 \<longrightarrow> ready p \<le> time_now s"
  shows "\<exists>b s1. rr_check n s = Inr (b, s1) \<and> procs s1 = procs s \<and> time_now s1 = time_now s \<and>
    time_last s1 = time_last s \<and> \<not> rr_ending s1 \<and> (running s1 = running s \<or> running s1 = -1) \<and>
    (b \<longleftrightarrow> rr_ending s \<and> finish_cnt s + 1 = n) \<and> (\<not> b \<longrightarrow> rr_table n H s1) \<and>
    (b \<longrightarrow> finish_cnt s1 = n \<and> wait s1 + done_ready (procs s1) = sum_list (map snd (rr_finishes (trace s1))))"
proof (cases "rr_ending s")
  case False
  have "rr_check n s = Inr (False, s)"
  proof (cases "running s = -1")
    case r: False
    then have "0 \<le> running s" "running s < int (length (procs s))" using assms(1) by (auto simp: rr_table_def)
    with False r show ?thesis by (simp add: rr_check_def arr_get_def rr_ending_def)
  qed (simp add: rr_check_def)
  with False assms show ?thesis by auto
next
  case True
  define i where "i = nat (running s)"
  let ?p = "procs s ! i"
  note B = rr_bounds [OF assms(1)] and T = assms(1) [unfolded rr_table_def]
  have r: "running s = int i" "i < length (procs s)" "exec ?p = 0" "pid ?p \<noteq> -1"
    using True T by (auto simp: i_def rr_ending_def)
  have rd: "0 \<le> ready ?p" "ready ?p \<le> time_now s"
  proof -
    have "?p \<in> set (procs s)" using r(2) by simp
    then show "0 \<le> ready ?p" "ready ?p \<le> time_now s" using T assms(2) r(4) by blast+
  qed
  have "finish_cnt s + 1 \<le> n" "0 \<le> finish_cnt s" "0 \<le> wait s" "wait s \<le> finish_cnt s * H" "0 \<le> time_now s"
    "n * H \<le> INT_MAX" using T by auto
  note F = this
  have w: "wait s + time_now s \<le> (finish_cnt s + 1) * H" using F(4) B(6) by (simp add: algebra_simps)
  also have "\<dots> \<le> n * H" using F(1) B(1) by (rule mult_right_mono)
  finally have wmax: "wait s + time_now s \<le> INT_MAX" using F(6) by simp
  let ?s = "s\<lparr>trace := Printf finish_msg [S (name ?p), D (pid ?p), D (time_now s)] # Waitpid (pid ?p) # trace s,
    wait := wait s + time_now s - ready ?p, running := -1, finish_cnt := finish_cnt s + 1\<rparr>"
  have "c_int (wait s + time_now s) = Inr (wait s + time_now s)"
    "c_int (wait s + time_now s - ready ?p) = Inr (wait s + time_now s - ready ?p)"
    "c_int (finish_cnt s + 1) = Inr (finish_cnt s + 1)"
    using wmax rd F B(5) by (auto intro!: c_int_nonneg)
  then have c: "rr_check n s = Inr (finish_cnt s + 1 = n, ?s)"
    using r by (simp add: rr_check_def)
  have W: "wait ?s + done_ready (procs ?s) = sum_list (map snd (rr_finishes (trace ?s)))"
    using T True r by simp
  have w2: "wait s + time_now s - ready ?p \<le> (finish_cnt s + 1) * H" using w rd(1) by linarith
  have "rr_table n H ?s" if "finish_cnt s + 1 \<noteq> n"
    unfolding rr_table_def using T True that W w2 rd F r(2) by (auto simp: rr_ending_def)
  with c W True show ?thesis by (auto simp: rr_ending_def)
qed

lemma rr_switch_ok:
  assumes "rr_fine n s" and "-1 \<le> x" and "x < n"
  shows "\<exists>s1. rr_switch E x s = Inr s1 \<and> procs s1 = procs s \<and> time_now s1 = time_now s \<and>
    running s1 = (if x = -1 then running s else x) \<and>
    time_last s1 = (if x = -1 \<or> x = running s then time_last s else time_now s) \<and>
    finish_cnt s1 = finish_cnt s \<and> wait s1 = wait s \<and> rr_finishes (trace s1) = rr_finishes (trace s)"
proof (cases "x = -1 \<or> x = running s")
  case True
  then show ?thesis by (auto simp: rr_switch_def)
next
  case False
  then have "0 \<le> x" "x < int (length (procs s))" using assms by (auto simp: rr_fine_def)
  then have g: "arr_get (procs s) x = Inr (procs s ! nat x)" by (simp add: arr_get_def)
  obtain old t where "pid_at E (procs s) (running s) (snd (proc_wakeup E (pid (procs s ! nat x)) (trace s))) = Inr (old, t)"
    "rr_finishes t = rr_finishes (trace s)"
    using assms(1) by (cases "running s = -1") (auto simp: pid_at_def arr_get_def rr_fine_def)
  with g False show ?thesis by (auto simp: rr_switch_def)
qed

lemma done_ready_update:
  "i < length ps \<Longrightarrow> exec (ps ! i) \<noteq> 0 \<Longrightarrow>
   done_ready (ps[i := (ps ! i)\<lparr>exec := e\<rparr>]) = done_ready ps + (if e = 0 then ready (ps ! i) else 0)"
  by (simp add: done_ready_def map_update sum_list_update_int)

lemma rr_tick_ok:
  assumes "rr_fine n s" and "time_now s < INT_MAX" and "\<forall>p\<in>set (procs s). exec p \<le> INT_MAX"
  shows "\<exists>s1. rr_tick s = Inr s1 \<and> time_now s1 = time_now s + 1 \<and> time_last s1 = time_last s \<and>
    running s1 = running s \<and> finish_cnt s1 = finish_cnt s \<and> wait s1 = wait s \<and>
    rr_finishes (trace s1) = rr_finishes (trace s) \<and>
    procs s1 = (if running s = -1 then procs s
      else (procs s)[nat (running s) := (procs s ! nat (running s))\<lparr>exec := exec (procs s ! nat (running s)) - 1\<rparr>])"
proof -
  have time: "c_int (time_now s + 1) = Inr (time_now s + 1)"
    using assms(1,2) by (intro c_int_nonneg) (auto simp: rr_fine_def)
  show ?thesis
  proof (cases "running s = -1")
    case True
    with time show ?thesis by (simp add: rr_tick_def Let_def)
  next
    case False
    define i where "i = nat (running s)"
    have r: "running s = int i" "i < length (procs s)" "eligible (procs s ! i)"
      using assms(1) False by (auto simp: rr_fine_def i_def)
    then have "0 \<le> exec (procs s ! i)" "exec (procs s ! i) \<le> INT_MAX" "exec (procs s ! i) \<noteq> 0"
      using assms(1,3) by (auto simp: rr_fine_def eligible_def)
    then have "c_int (exec (procs s ! i) - 1) = Inr (exec (procs s ! i) - 1)" by (intro c_int_nonneg) auto
    with time r show ?thesis by (simp add: rr_tick_def Let_def)
  qed
qed

text \<open>The state after the forks.\<close>

lemma rr_spawned_fine:
  assumes "rr_table n H s" and "\<not> rr_ending s" and "live_before (time_now s) (procs s)"
    and "spawned (time_now s) (procs s) qs"
  shows "rr_fine n (s\<lparr>procs := qs, trace := t\<rparr>)"
proof -
  note T = assms(1) [unfolded rr_table_def] and f = spawned_fields [OF assms(4)]
  have "eligible (qs ! i)" if i: "running s = int i" for i
  proof -
    have l: "i < length (procs s)" "pid (procs s ! i) \<noteq> -1" using T i by auto
    then have "ready (procs s ! i) \<noteq> time_now s" using live_before_nth [OF assms(3) l(1)] by simp
    then have "qs ! i = procs s ! i"
      using assms(4) l(1) by (auto simp: spawned_def dest: list_all2_nthD)
    then show ?thesis using l(2) assms(2) i by (simp add: eligible_def rr_ending_def)
  qed
  moreover have "0 \<le> exec q" if "q \<in> set qs" for q
  proof -
    have "exec q \<in> set (map exec (procs s))" using that unfolding f(4) [symmetric] by simp
    with T show ?thesis by auto
  qed
  ultimately show ?thesis
    using T rr_bounds(2,6) [OF assms(1)] f(1) by (simp add: rr_fine_def)
qed

lemma rr_unit:
  assumes "rr_fine n s" and "live_before (time_now s + 1) (procs s)"
    and "running s = -1 \<longrightarrow> (\<forall>i<length (procs s). \<not> eligible (procs s ! i))"
    and "ps = (if running s = -1 then procs s
      else (procs s)[nat (running s) := (procs s ! nat (running s))\<lparr>exec := exec (procs s ! nat (running s)) - 1\<rparr>])"
  shows "served (time_now s) (jobs_of (procs s)) (jobs_of ps)" and "live_before (time_now s + 1) ps"
    and "length ps = length (procs s)" and "\<forall>p\<in>set (procs s). 0 \<le> ready p \<Longrightarrow> \<forall>p\<in>set ps. 0 \<le> exec p \<and> 0 \<le> ready p"
    and "\<forall>i. running s = int i \<longrightarrow> pid (ps ! i) \<noteq> -1"
    and "unfinished (map exec ps) + (if running s \<noteq> -1 \<and> exec (ps ! nat (running s)) = 0 then 1 else 0)
      = unfinished (map exec (procs s))"
    and "done_ready ps - (if running s \<noteq> -1 \<and> exec (ps ! nat (running s)) = 0 then ready (ps ! nat (running s)) else 0)
      = done_ready (procs s)"
proof -
  note F = assms(1) [unfolded rr_fine_def]
  have idle: "served (time_now s) (jobs_of (procs s)) (jobs_of (procs s))" if "running s = -1"
  proof (rule served_idle)
    fix j assume "j \<in> set (jobs_of (procs s))" "0 < snd j"
    then obtain i where i: "i < length (procs s)" "j = (ready (procs s ! i), exec (procs s ! i))"
      by (auto simp: in_set_conv_nth)
    with assms(3) that have "\<not> eligible (procs s ! i)" by blast
    with i \<open>0 < snd j\<close> live_before_nth [OF assms(2) i(1)] show "time_now s < fst j"
      by (auto simp: eligible_def)
  qed
  have "served (time_now s) (jobs_of (procs s)) (jobs_of ps) \<and> live_before (time_now s + 1) ps \<and>
    length ps = length (procs s) \<and> (\<forall>p\<in>set ps. 0 \<le> exec p \<and> (p \<in> set (procs s) \<or> ready p \<in> ready ` set (procs s))) \<and>
    (\<forall>i. running s = int i \<longrightarrow> pid (ps ! i) \<noteq> -1) \<and>
    unfinished (map exec ps) + (if running s \<noteq> -1 \<and> exec (ps ! nat (running s)) = 0 then 1 else 0)
      = unfinished (map exec (procs s)) \<and>
    done_ready ps - (if running s \<noteq> -1 \<and> exec (ps ! nat (running s)) = 0 then ready (ps ! nat (running s)) else 0)
      = done_ready (procs s)"
  proof (cases "running s = -1")
    case True
    with idle F assms(2,4) show ?thesis by simp
  next
    case False
    define i where "i = nat (running s)"
    let ?e = "exec (procs s ! i)"
    have r: "running s = int i" "i < length (procs s)" "eligible (procs s ! i)"
      using F False by (auto simp: i_def)
    have ps: "ps = (procs s)[i := (procs s ! i)\<lparr>exec := ?e - 1\<rparr>]" using assms(4) False r by simp
    have e: "0 < ?e" "pid (procs s ! i) \<noteq> -1" "ready (procs s ! i) \<le> time_now s"
      using r F live_before_nth [OF assms(2) r(2)] nth_mem [OF r(2)]
      by (auto simp: eligible_def order.strict_iff_order)
    have "served (time_now s) (jobs_of (procs s)) (jobs_of ps)"
      using e r(2) by (intro served_busy [of i]) (auto simp: ps map_update)
    moreover have "live_before (time_now s + 1) ps"
      unfolding ps by (rule live_before_update [OF assms(2) r(2)])
    moreover have "0 \<le> exec p \<and> (p \<in> set (procs s) \<or> ready p \<in> ready ` set (procs s))" if "p \<in> set ps" for p
      using that F e(1) r(2) set_update_subset_insert [of "procs s" i] unfolding ps by fastforce
    moreover have "unfinished (map exec ps) + (if ?e - 1 = 0 then 1 else 0) = unfinished (map exec (procs s))"
      using e(1) r(2) by (simp add: ps map_update unfinished_update)
    moreover have "done_ready ps - (if ?e - 1 = 0 then ready (procs s ! i) else 0) = done_ready (procs s)"
      using e(1) r(2) by (simp add: ps done_ready_update)
    ultimately show ?thesis using r e(2) by (cases "?e = 1") (simp_all add: ps)
  qed
  then show "served (time_now s) (jobs_of (procs s)) (jobs_of ps)" "live_before (time_now s + 1) ps"
    "length ps = length (procs s)" "\<forall>p\<in>set (procs s). 0 \<le> ready p \<Longrightarrow> \<forall>p\<in>set ps. 0 \<le> exec p \<and> 0 \<le> ready p"
    "\<forall>i. running s = int i \<longrightarrow> pid (ps ! i) \<noteq> -1"
    "unfinished (map exec ps) + (if running s \<noteq> -1 \<and> exec (ps ! nat (running s)) = 0 then 1 else 0)
      = unfinished (map exec (procs s))"
    "done_ready ps - (if running s \<noteq> -1 \<and> exec (ps ! nat (running s)) = 0 then ready (ps ! nat (running s)) else 0)
      = done_ready (procs s)" by auto
qed

lemma rr_body_ok:
  assumes inv: "rr_inv E n H s"
  shows "\<exists>b s1. rr_body E n s = Some (Inr (b, s1)) \<and>
    (b \<longrightarrow> procs s1 = procs s \<and> time_now s1 = time_now s \<and> work (jobs_of (procs s)) = 0 \<and> finish_cnt s1 = n \<and>
      wait s1 + done_ready (procs s1) = sum_list (map snd (rr_finishes (trace s1)))) \<and>
    (\<not> b \<longrightarrow> rr_inv E n H s1 \<and> 0 < work (jobs_of (procs s)) \<and> time_now s1 = time_now s + 1 \<and>
      served (time_now s) (jobs_of (procs s)) (jobs_of (procs s1)))"
proof -
  have E: "forks_ok E" and live: "live_before (time_now s) (procs s)" and T: "rr_table n H s"
    using inv by (auto simp: rr_inv_def)
  have "\<forall>p\<in>set (procs s). pid p \<noteq> -1 \<longrightarrow> ready p \<le> time_now s"
    using live by (auto simp: live_before_def)
  from rr_check_ok [OF T this] obtain b s1 where c: "rr_check n s = Inr (b, s1)"
    "procs s1 = procs s" "time_now s1 = time_now s" "\<not> rr_ending s1"
    "b \<longleftrightarrow> rr_ending s \<and> finish_cnt s + 1 = n" "\<not> b \<longrightarrow> rr_table n H s1"
    "b \<longrightarrow> finish_cnt s1 = n \<and> wait s1 + done_ready (procs s1) = sum_list (map snd (rr_finishes (trace s1)))"
    by blast
  have wz: "work (jobs_of (procs s)) = 0 \<longleftrightarrow> unfinished (map exec (procs s)) = 0"
    using mach_work_zero [of "map exec (procs s)" "map ready (procs s)"] T by (simp add: jobs_of_zip rr_table_def)
  show ?thesis
  proof (cases b)
    case True
    then have "work (jobs_of (procs s)) = 0" using wz c(5) T by (auto simp: rr_table_def)
    with True c show ?thesis by (intro exI [of _ True] exI [of _ s1]) (auto simp: rr_body_def)
  next
    case False
    then have T1: "rr_table n H s1" using c by blast
    have live1: "live_before (time_now s1) (procs s1)" using live c by simp
    have "unfinished (map exec (procs s)) \<noteq> 0" using T1 c(2,4) by (auto simp: rr_table_def)
    then have wpos: "0 < work (jobs_of (procs s))"
      using wz rr_bounds(4) [OF T] by (simp add: order.strict_iff_order)
    from rr.spawn_ok [OF E] obtain qs t where
      sp: "rr_spawn E (time_now s1) (procs s1) (trace s1) = Inr (qs, t)" "spawned (time_now s1) (procs s1) qs"
      unfolding rr_spawn_def by blast
    have "printed finish_msg t = printed finish_msg (trace s1)"
      using rr.spawn_any [OF sp(1) [unfolded rr_spawn_def]] by blast
    then have log: "rr_finishes t = rr_finishes (trace s1)" by (simp add: rr_finishes_def)
    let ?s2 = "s1\<lparr>procs := qs, trace := t\<rparr>"
    have F2: "rr_fine n ?s2" by (rule rr_spawned_fine [OF T1 c(4) live1 sp(2)])
    note f = spawned_fields [OF sp(2)]
    have live2: "live_before (time_now s1 + 1) qs" using spawned_live [OF sp(2) live1] .
    have j2: "jobs_of qs = jobs_of (procs s)" using f c(2) by (simp add: jobs_of_zip)
    from RR_next_ok [OF F2] obtain x where x: "RR_next ?s2 n = Some (Inr x)" "-1 \<le> x" "x < n"
      "x = -1 \<longrightarrow> running s1 = -1 \<and> (\<forall>i<length qs. \<not> eligible (qs ! i))"
      "\<forall>i. x = int i \<longrightarrow> eligible (qs ! i)" by auto
    from rr_switch_ok [OF F2 x(2,3), of E] obtain s3 where
      s3: "rr_switch E x ?s2 = Inr s3" "procs s3 = qs" "time_now s3 = time_now s1" "running s3 = x"
        "time_last s3 = (if x = -1 \<or> x = running s1 then time_last s1 else time_now s1)"
        "finish_cnt s3 = finish_cnt s1" "wait s3 = wait s1" "rr_finishes (trace s3) = rr_finishes (trace s1)"
      using x(4) log by (auto split: if_splits)
    have F3: "rr_fine n s3" using F2 x(2,3,5) s3(2-5) by (auto simp: rr_fine_def)
    have small: "\<forall>p\<in>set (procs s3). exec p \<le> INT_MAX"
    proof
      fix p assume "p \<in> set (procs s3)"
      then have "(ready p, exec p) \<in> set (jobs_of (procs s))" unfolding j2 [symmetric] s3(2) by force
      moreover have "\<forall>j\<in>set (jobs_of (procs s)). 0 \<le> snd j" using T by (auto simp: rr_table_def)
      ultimately have "exec p \<le> work (jobs_of (procs s))" using member_le_work by fastforce
      with rr_bounds(2,3) [OF T] T show "exec p \<le> INT_MAX" by (simp add: rr_table_def)
    qed
    have "time_now s3 < INT_MAX" using rr_bounds(2,3) [OF T] wpos s3(3) c(3) by simp
    from rr_tick_ok [OF F3 this small] obtain s4 where
      s4: "rr_tick s3 = Inr s4" "time_now s4 = time_now s3 + 1" "time_last s4 = time_last s3"
        "running s4 = running s3" "finish_cnt s4 = finish_cnt s3" "wait s4 = wait s3"
        "rr_finishes (trace s4) = rr_finishes (trace s3)"
        "procs s4 = (if running s3 = -1 then procs s3 else (procs s3)[nat (running s3) :=
          (procs s3 ! nat (running s3))\<lparr>exec := exec (procs s3 ! nat (running s3)) - 1\<rparr>])" by blast
    have "live_before (time_now s3 + 1) (procs s3)" using live2 s3(2,3) by simp
    note u = rr_unit [OF F3 this _ s4(8)]
    have idle: "running s3 = -1 \<longrightarrow> (\<forall>i<length (procs s3). \<not> eligible (procs s3 ! i))"
      using x(4) s3(2,4) by simp
    note u = u [OF idle]
    have srv: "served (time_now s) (jobs_of (procs s)) (jobs_of (procs s4))"
      using u(1) s3(2,3) c(3) j2 by simp
    have "horizon (time_now s + 1) (jobs_of (procs s4)) \<le> horizon (time_now s) (jobs_of (procs s))"
      by (rule horizon_served [OF srv wpos])
    then have hz: "horizon (time_now s4) (jobs_of (procs s4)) \<le> H"
      using T s4(2) s3(3) c(3) by (simp add: rr_table_def)
    have rdy: "\<forall>p\<in>set (procs s3). 0 \<le> ready p"
    proof
      fix p assume "p \<in> set (procs s3)"
      then have "ready p \<in> set (map ready (procs s1))" unfolding f(2) [symmetric] s3(2) by simp
      with T1 show "0 \<le> ready p" by (auto simp: rr_table_def)
    qed
    have dr: "done_ready qs = done_ready (procs s1)"
    proof -
      have "done_ready rs = sum_list (map (\<lambda>j. if snd j = 0 then fst j else 0) (jobs_of rs))" for rs
        by (induction rs) (auto simp: done_ready_def)
      then show ?thesis using j2 c(2) by metis
    qed
    have end4: "rr_ending s4 \<longleftrightarrow> running s3 \<noteq> -1 \<and> exec (procs s4 ! nat (running s3)) = 0"
      by (simp add: rr_ending_def s4(4))
    have T4: "rr_table n H s4"
      unfolding rr_table_def end4
      using T1 F3 c(4) u(3,4,5,6,7) rdy hz s3(2-8) s4(2-7) dr f(1,4)
      by (auto simp: rr_table_def rr_fine_def split: if_splits)
    have "live_before (time_now s4) (procs s4)" using u(2) s4(2) by simp
    with E T4 have "rr_inv E n H s4" by (simp add: rr_inv_def)
    moreover have "rr_body E n s = Some (Inr (False, s4))"
      using c(1) False sp(1) x(1) s3(1) s4(1) by (simp add: rr_body_def)
    ultimately show ?thesis using wpos srv s4(2) s3(3) c(3) by auto
  qed
qed

interpretation rr_loop: work_conserving "\<lambda>s. the (rr_body E n s)" "\<lambda>s. jobs_of (procs s)" time_now
  "rr_inv E n H" for E n H
proof
  fix s assume "rr_inv E n H s"
  from rr_body_ok [OF this] obtain b s1 where "rr_body E n s = Some (Inr (b, s1))" by blast
  then show "\<exists>b s'. the (rr_body E n s) = Inr (b, s')" by simp
next
  fix s s' assume inv: "rr_inv E n H s" and "the (rr_body E n s) = Inr (True, s')"
  with rr_body_ok [OF inv] show "work (jobs_of (procs s)) = 0" by auto
next
  fix s s' assume inv: "rr_inv E n H s" and "the (rr_body E n s) = Inr (False, s')"
  with rr_body_ok [OF inv] show "rr_inv E n H s' \<and> 0 < work (jobs_of (procs s)) \<and> time_now s' = time_now s + 1 \<and>
      served (time_now s) (jobs_of (procs s)) (jobs_of (procs s'))" by auto
next
  fix s j assume "rr_inv E n H s" and "j \<in> set (jobs_of (procs s))"
  then show "0 \<le> snd j" by (auto simp: rr_inv_def rr_table_def)
qed

section \<open>Steps of a round\<close>

lemma rr_switch_cases:
  assumes "rr_switch E x s = Inr s1"
  obtains "s1 = s" "x = -1 \<or> x = running s"
  | i old t2 where "x = int i" "i < length (procs s)" "x \<noteq> running s"
      "pid_at E (procs s) (running s) (snd (proc_wakeup E (pid (procs s ! i)) (trace s))) = Inr (old, t2)"
      "s1 = s\<lparr>trace := snd (proc_block E old t2), running := int i, time_last := time_now s\<rparr>"
proof (cases "x = -1 \<or> x = running s")
  case True
  with assms have "s1 = s" by (auto simp: rr_switch_def split: if_splits)
  then show ?thesis using True by (rule that(1))
next
  case False
  with assms have "0 \<le> x" "x < int (length (procs s))"
    by (auto simp: rr_switch_def bindr_eq_Inr arr_get_Inr)
  then have x: "x = int (nat x)" "nat x < length (procs s)" "x \<noteq> running s" using False by auto
  from assms False obtain old t2 where
    "pid_at E (procs s) (running s) (snd (proc_wakeup E (pid (procs s ! nat x)) (trace s))) = Inr (old, t2)"
    "s1 = s\<lparr>trace := snd (proc_block E old t2), running := int (nat x), time_last := time_now s\<rparr>"
    by (auto simp: rr_switch_def bindr_eq_Inr arr_get_Inr)
  with x show ?thesis by (rule that(2))
qed

lemma rr_tick_fields:
  "rr_tick s = Inr s1 \<Longrightarrow> running s1 = running s \<and> time_last s1 = time_last s \<and> time_now s1 = time_now s + 1 \<and>
    trace s1 = Unit_time (trace s)"
  by (auto simp: rr_tick_def bindr_eq_Inr c_int_Inr Let_def)

lemma rr_check_fields:
  assumes "rr_check n s = Inr (b, s1)"
  shows "procs s1 = procs s \<and> time_now s1 = time_now s \<and> time_last s1 = time_last s \<and>
    forked (trace s1) = forked (trace s) \<and> (\<forall>r. class_of (trace s1) r = class_of (trace s) r) \<and>
    (running s1 \<noteq> -1 \<longrightarrow> s1 = s \<and> exec (procs s ! nat (running s)) \<noteq> 0) \<and>
    (running s1 = running s \<or> running s1 = -1 \<and> 0 \<le> running s \<and> exec (procs s ! nat (running s)) = 0)"
  using assms by (auto simp: rr_check_def bindr_eq_Inr arr_get_Inr split: if_splits)

lemma rr_body_parts:
  assumes "rr_body E n s = Some (Inr (False, s1))"
  obtains s2 ps t x s3 where "rr_check n s = Inr (False, s2)"
    "rr_spawn E (time_now s2) (procs s2) (trace s2) = Inr (ps, t)"
    "RR_next (s2\<lparr>procs := ps, trace := t\<rparr>) n = Some (Inr x)"
    "rr_switch E x (s2\<lparr>procs := ps, trace := t\<rparr>) = Inr s3" "rr_tick s3 = Inr s1"
  using assms by (auto simp: rr_body_def bindo_eq_Some_Inr bindr_eq_Inr split: if_splits)

lemma rr_start_units: "rr_start E tm p t = Inr (q, t') \<Longrightarrow> units 1000000 t' = units 1000000 t"
  by (auto simp: rr_start_def proc_exec_def proc_block_def proc_assign_cpu_def sched_setaffinity_def
      sched_setscheduler_def Let_def bindr_eq_Inr split: if_splits)

text \<open>The clock counts the units of time spent.\<close>

lemma rr_check_units:
  "rr_check n s = Inr (b, s1) \<Longrightarrow> units 1000000 (trace s1) = units 1000000 (trace s) \<and> time_now s1 = time_now s"
  by (auto simp: rr_check_def bindr_eq_Inr split: if_splits)

lemma rr_body_units:
  assumes "rr_body E n s = Some (Inr (False, s1))"
  shows "units 1000000 (trace s1) - time_now s1 = units 1000000 (trace s) - time_now s"
proof -
  from assms obtain s2 ps t x s3 where p: "rr_check n s = Inr (False, s2)"
    "rr_spawn E (time_now s2) (procs s2) (trace s2) = Inr (ps, t)"
    "rr_switch E x (s2\<lparr>procs := ps, trace := t\<rparr>) = Inr s3" "rr_tick s3 = Inr s1"
    by (rule rr_body_parts)
  have "units 1000000 t = units 1000000 (trace s2)"
    by (rule spawn_all_keeps [OF _ p(2) [unfolded rr_spawn_def]]) (rule rr_start_units)
  moreover have "units 1000000 (trace s3) = units 1000000 t \<and> time_now s3 = time_now s2"
    using p(3)
    by (cases rule: rr_switch_cases)
      (auto simp: pid_at_def bindr_eq_Inr proc_block_def proc_wakeup_def sched_setscheduler_def Let_def split: if_splits)
  ultimately show ?thesis
    using rr_check_units [OF p(1)] rr_tick_fields [OF p(4)] by (simp add: Unit_time_def)
qed

section \<open>What the scheduler does\<close>

text \<open>
  A workload for \<open>RR\<close>: the sum in \<open>wait\<close> must fit as well, so the number of processes times
  the latest possible end is bounded too.
\<close>

definition rr_workload :: "process list \<Rightarrow> bool" where
  "rr_workload ps \<longleftrightarrow> workload ps \<and> int (length ps) * horizon 0 (jobs_of ps) \<le> INT_MAX"

lemma rr_init_ok:
  assumes "c_qsort (qsort E)" and "forks_ok E" and "rr_workload ps" and "rr_init E ps [] = Inr s"
  shows "\<exists>qs. mset qs = mset ps \<and> sorted (map ready qs) \<and> procs s = map (\<lambda>p. p\<lparr>pid := -1\<rparr>) qs \<and>
    time_now s = 0 \<and> time_last s = 0 \<and> running s = -1 \<and> forked (trace s) = [] \<and>
    rr_inv E (int (length ps)) (horizon 0 (jobs_of ps)) s"
proof -
  define qs where "qs = qsort E (\<lambda>a b. projr (RR_compare a b)) ps"
  have wl: "workload ps" using assms(3) by (simp add: rr_workload_def)
  have range: "\<forall>p\<in>set ps. 0 \<le> ready p \<and> ready p \<le> INT_MAX" using workload_ready [OF wl] by blast
  have diff: "run_qsort E RR_compare ps = Inr qs" "key_compare ready ps (\<lambda>a b. projr (RR_compare a b))"
    unfolding qs_def by (rule qsort_difference [OF range RR_compare_def])+
  have qs: "mset qs = mset ps" "sorted (map ready qs)"
    using c_qsort.qs_mset [OF assms(1)] c_qsort.qs_ordered [OF assms(1) diff(2)] by (auto simp: qs_def)
  have len: "length qs = length ps" using qs(1) by (metis size_mset)
  have wq: "workload qs" using workload_perm [OF qs(1) [symmetric] wl] .
  from assms(4) obtain t where s: "s = \<lparr>procs = map (\<lambda>p. p\<lparr>pid := -1\<rparr>) qs, time_now = 0, time_last = 0,
      running = -1, finish_cnt = 0, wait = 0, trace = t\<rparr>" and t: "forked t = []" "rr_finishes t = []"
    using diff(1) forks_okD(4) [OF assms(2)]
    by (auto simp: rr_init_def proc_assign_cpu_def PARENT_CPU_def sched_setaffinity_def
        sched_setscheduler_def rr_finishes_def Let_def split: if_splits)
  have pos: "\<forall>x\<in>set (map exec qs). 0 < x" "\<forall>p\<in>set qs. 0 \<le> ready p" "qs \<noteq> []"
    using wq by (auto simp: workload_def)
  then have un: "unfinished (map exec qs) = int (length ps)" using unfinished_all [of "map exec qs"] len by force
  have dr: "done_ready (procs s) = 0"
    using pos(1) unfolding s done_ready_def by (induction qs) auto
  have live: "live_before 0 (procs s)" unfolding s using pos(2) by (simp add: reset_live)
  have "mset (jobs_of qs) = mset (jobs_of ps)" using qs(1) by simp
  then have hz: "horizon 0 (jobs_of qs) = horizon 0 (jobs_of ps)"
    unfolding horizon_def using work_perm [of "jobs_of qs" "jobs_of ps"]
      last_arrival_perm [of "jobs_of qs" "jobs_of ps"] by simp
  have "rr_table (int (length ps)) (horizon 0 (jobs_of ps)) s"
    using dr pos un len hz t(2) workload_length [OF wl] assms(3)
    unfolding rr_table_def by (auto simp: s comp_def rr_ending_def rr_workload_def)
  with live assms(2) have "rr_inv E (int (length ps)) (horizon 0 (jobs_of ps)) s"
    by (simp add: rr_inv_def s)
  with qs s t(1) show ?thesis by auto
qed

lemma rr_init_runs:
  assumes "forks_ok E" and "prio_ok E" and "rr_workload ps"
  shows "\<exists>s. rr_init E ps [] = Inr s"
proof -
  have wl: "workload ps" using assms(3) by (simp add: rr_workload_def)
  have range: "\<forall>p\<in>set ps. 0 \<le> ready p \<and> ready p \<le> INT_MAX" using workload_ready [OF wl] by blast
  show ?thesis
    using qsort_difference(1) [OF range RR_compare_def] forks_okD(4) [OF assms(1)] prio_okD [OF assms(2)]
    by (simp add: rr_init_def proc_assign_cpu_def PARENT_CPU_def sched_setaffinity_def
        sched_setscheduler_def Let_def)
qed

lemma rr_reach_inv:
  assumes "reaches (\<lambda>s. the (rr_body E n s)) s0 s" and "rr_inv E n H s0"
  shows "rr_inv E n H s"
  using rr_loop.reaches_I [OF assms] .

lemma RR_runs:
  assumes "forks_ok E" and "prio_ok E" and "c_qsort (qsort E)" and "rr_workload ps"
  shows "\<exists>s tr. RR_main E ps (int (length ps)) [] = Some (Inr s) \<and> time_now s = makespan ps \<and>
    (\<forall>p\<in>set (procs s). exec p = 0) \<and> finish_cnt s = int (length ps) \<and>
    trace s = Printf ''Average waiting time: %.2f\<newline>'' [Quot (wait s) (int (length ps))] # tr \<and>
    wait s = sum_list (map snd (rr_finishes tr)) - sum_list (map ready ps) \<and> units 1000000 tr = makespan ps"
proof -
  let ?n = "int (length ps)" and ?H = "horizon 0 (jobs_of ps)"
  from rr_init_runs [OF assms(1,2,4)] obtain s0 where init: "rr_init E ps [] = Inr s0" ..
  from rr_init_ok [OF assms(3,1,4) init] obtain qs where
    qs: "mset qs = mset ps" "procs s0 = map (\<lambda>p. p\<lparr>pid := -1\<rparr>) qs" "time_now s0 = 0" "rr_inv E ?n ?H s0" by blast
  from rr_loop.terminates [OF qs(4)] obtain t u where
    t: "reaches (\<lambda>s. the (rr_body E ?n s)) s0 t" "rr_inv E ?n ?H t" "the (rr_body E ?n t) = Inr (True, u)" by blast
  have ne: "rr_body E ?n s \<noteq> None" if "rr_inv E ?n ?H s" for s using rr_body_ok [OF that] by auto
  have body: "rr_body E ?n t = Some (Inr (True, u))" using ne [OF t(2)] t(3) by auto
  have "rr_inv E ?n ?H v" if "rr_inv E ?n ?H s" "rr_body E ?n s = Some (Inr (False, v))" for s v
    using rr_body_ok [OF that(1)] that(2) by auto
  with run_loopo_reaches [where body = "rr_body E ?n" and I = "rr_inv E ?n ?H", OF t(1) qs(4)] ne
  have "run_loopo (rr_body E ?n) s0 = run_loopo (rr_body E ?n) t" by blast
  then have loop: "run_loopo (rr_body E ?n) s0 = Some (Inr u)" using run_loopo_break [of "rr_body E ?n" t u] body by simp
  from rr_body_ok [OF t(2)] body have u: "procs u = procs t" "time_now u = time_now t"
    "work (jobs_of (procs t)) = 0" "finish_cnt u = ?n"
    "wait u + done_ready (procs u) = sum_list (map snd (rr_finishes (trace u)))" by auto
  have e0: "\<forall>p\<in>set (procs u). exec p = 0"
  proof
    fix p assume "p \<in> set (procs u)"
    then have "(ready p, exec p) \<in> set (jobs_of (procs t))" unfolding u(1) by force
    moreover have "\<forall>j\<in>set (jobs_of (procs t)). 0 \<le> snd j" using t(2) by (auto simp: rr_inv_def rr_table_def)
    ultimately show "exec p = 0" using work_zero_D [OF u(3)] by fastforce
  qed
  have j0: "jobs_of (procs s0) = jobs_of qs" using qs(2) by (simp add: comp_def)
  have mj: "mset (jobs_of qs) = mset (jobs_of ps)" using qs(1) by simp
  have "0 \<le> time_now t \<and> first_done (jobs_of ps) (nat (time_now t))"
    using rr_loop.leaves_first_done [OF qs(4,3) t(1,3)] first_done_perm [OF mj] by (simp add: j0)
  then have ms: "time_now t = makespan ps"
    using assms(4) by (intro makespan_unique) (auto simp: rr_workload_def)
  have "map ready (procs u) = map ready qs"
  proof -
    have "map fst (jobs_of (procs t)) = map fst (jobs_of (procs s0))"
      using reaches_invariant [OF t(1), where I = "\<lambda>s. rr_inv E ?n ?H s \<and> map fst (jobs_of (procs s)) = map fst (jobs_of (procs s0))"]
        qs(4) rr_loop.goes served_arrivals by (metis (no_types, lifting))
    then show ?thesis using j0 u(1) by (simp add: comp_def)
  qed
  moreover have "done_ready (procs u) = sum_list (map ready (procs u))"
    unfolding done_ready_def using e0 by (intro arg_cong [where f = sum_list]) simp
  ultimately have "done_ready (procs u) = sum_list (map ready ps)"
    using sum_list_perm [OF qs(1), of ready] by simp
  then have "wait u = sum_list (map snd (rr_finishes (trace u))) - sum_list (map ready ps)" using u(5) by simp
  moreover have "units 1000000 (trace u) = makespan ps"
  proof -
    let ?J = "\<lambda>s. rr_inv E ?n ?H s \<and> units 1000000 (trace s) - time_now s = 0"
    have "?J s0" using init qs(3,4)
      by (auto simp: rr_init_def bindr_eq_Inr proc_assign_cpu_def sched_setaffinity_def
          sched_setscheduler_def Let_def split: if_splits)
    moreover have "?J w" if "?J v" "the (rr_body E ?n v) = Inr (False, w)" for v w
    proof -
      have "rr_body E ?n v = Some (Inr (False, w))" using ne [of v] that by auto
      from rr_body_units [OF this] rr_loop.goes [OF _ that(2)] that(1) show ?thesis by auto
    qed
    ultimately have "?J t" using reaches_invariant [OF t(1), where I = ?J] by blast
    moreover have "units 1000000 (trace u) = units 1000000 (trace t)"
      using body rr_check_units by (auto simp: rr_body_def bindo_eq_Some_Inr bindr_eq_Inr split: if_splits)
    ultimately show ?thesis using ms by simp
  qed
  ultimately show ?thesis using init loop u(2,4) e0 ms by (auto simp: RR_main_def)
qed

text \<open>
  C9: \<open>RR_main\<close> on a proper workload returns, at the makespan, with every process run to zero and
  counted; in particular the search of \<open>RR_next\<close> always returns.
\<close>

theorem RR_completes:
  assumes "forks_ok E" and "prio_ok E" and "c_qsort (qsort E)" and "rr_workload ps"
  shows "\<exists>s. RR_main E ps (int (length ps)) [] = Some (Inr s) \<and> time_now s = makespan ps \<and>
    (\<forall>p\<in>set (procs s). exec p = 0) \<and> finish_cnt s = int (length ps)"
  using RR_runs [OF assms] by blast

text \<open>
  C23: the number that \<open>RR_main\<close> prints as average waiting time is the total turnaround divided by
  the number of processes: the subtraction of \<open>exec\<close> in the loop subtracts the 0 that is left. It is
  too large by exactly the total execution time, which is positive.
\<close>

theorem RR_average_is_turnaround:
  assumes "forks_ok E" and "prio_ok E" and "c_qsort (qsort E)" and "rr_workload ps"
  shows "\<exists>s tr total waited. RR_main E ps (int (length ps)) [] = Some (Inr s) \<and>
    trace s = Printf ''Average waiting time: %.2f\<newline>'' [Quot total (int (length ps))] # tr \<and>
    waited = sum_list (map snd (rr_finishes tr)) - sum_list (map ready ps) - sum_list (map exec ps) \<and>
    total = waited + sum_list (map exec ps) \<and> waited < total"
proof -
  from RR_runs [OF assms] obtain s tr where s: "RR_main E ps (int (length ps)) [] = Some (Inr s)"
    "trace s = Printf ''Average waiting time: %.2f\<newline>'' [Quot (wait s) (int (length ps))] # tr"
    "wait s = sum_list (map snd (rr_finishes tr)) - sum_list (map ready ps)" by blast
  have "0 < sum_list (map exec ps)"
  proof -
    have "ps \<noteq> []" "\<forall>p\<in>set ps. 0 < exec p" using assms(4) by (auto simp: rr_workload_def workload_def)
    then show ?thesis
      by (cases ps) (auto intro!: add_pos_nonneg sum_list_nonneg simp: less_imp_le)
  qed
  with s show ?thesis by (intro exI) auto
qed

section \<open>The quantum and the ring\<close>

lemma RR_next_cases:
  assumes "rr_fine n s"
  shows "(running s = -1 \<longrightarrow> RR_next s n = Some (Inr
      (case filter (\<lambda>i. pid (procs s ! i) \<noteq> -1 \<and> 0 < exec (procs s ! i)) [0..<length (procs s)] of
         [] \<Rightarrow> -1 | i # _ \<Rightarrow> int i))) \<and>
    (running s \<noteq> -1 \<longrightarrow> (time_now s - time_last s) mod 500 \<noteq> 0 \<longrightarrow> RR_next s n = Some (Inr (running s))) \<and>
    (running s \<noteq> -1 \<longrightarrow> (time_now s - time_last s) mod 500 = 0 \<longrightarrow>
      (\<exists>d < length (procs s). RR_next s n = Some (Inr ((running s + 1 + int d) mod n)) \<and>
         eligible (procs s ! nat ((running s + 1 + int d) mod n)) \<and>
         (\<forall>k<d. \<not> eligible (procs s ! nat ((running s + 1 + int k) mod n)))))"
proof (cases "running s = -1")
  case True
  then show ?thesis by (simp add: RR_next_def rr_first_find)
next
  case False
  define i where "i = nat (running s)"
  have r: "running s = int i" "i < length (procs s)" "eligible (procs s ! i)" "n \<le> INT_MAX"
    "n = int (length (procs s))"
    using assms False by (auto simp: rr_fine_def i_def)
  have "bindr (c_int (time_now s - time_last s)) (\<lambda>x. c_rem x interval) =
      Inr ((time_now s - time_last s) mod 500)"
    using assms by (simp add: c_int_nonneg c_rem_pos rr_fine_def interval_def)
  moreover have "bindr (c_int (int i + 1)) (\<lambda>r. c_rem r n) = Inr ((int i + 1) mod n)"
    using r by (intro c_rem_next) auto
  moreover obtain d x where "rr_ring (procs s) n ((int i + 1) mod n) = Some (Inr x)"
    "x = (int i + 1 + int d) mod n" "d < length (procs s)" "eligible (procs s ! nat x)"
    "\<forall>k<d. \<not> eligible (procs s ! nat ((int i + 1 + int k) mod n))"
    using rr_ring_exists [OF r(5,4,2,3)] by blast
  ultimately show ?thesis
    using r(1) by (cases "(time_now s - time_last s) mod 500 = 0") (auto simp: RR_next_def)
qed

lemma rr_ring_value:
  assumes "rr_ring ps n r = Some y"
  shows "n = int (length ps) \<longrightarrow> n \<le> INT_MAX \<longrightarrow> 0 \<le> r \<longrightarrow> r < n \<longrightarrow> (\<exists>x. y = Inr x)"
proof (rule rr_ring.raw_induct [where P = "\<lambda>ps n r y. n = int (length ps) \<longrightarrow> n \<le> INT_MAX \<longrightarrow>
    0 \<le> r \<longrightarrow> r < n \<longrightarrow> (\<exists>x. y = Inr x)", OF _ assms])
  fix f :: "process list \<Rightarrow> int \<Rightarrow> int \<Rightarrow> int res option" and ps n r y
  assume IH: "\<And>ps n r y. f ps n r = Some y \<Longrightarrow> n = int (length ps) \<longrightarrow> n \<le> INT_MAX \<longrightarrow>
      0 \<le> r \<longrightarrow> r < n \<longrightarrow> (\<exists>x. y = Inr x)"
    and eq: "(case arr_get ps r of Inl e \<Rightarrow> Some (Inl e)
      | Inr p \<Rightarrow> if pid p = -1 \<or> exec p = 0 then
          (case bindr (c_int (r + 1)) (\<lambda>r. c_rem r n) of Inl e \<Rightarrow> Some (Inl e) | Inr r \<Rightarrow> f ps n r)
        else Some (Inr r)) = Some y"
  show "n = int (length ps) \<longrightarrow> n \<le> INT_MAX \<longrightarrow> 0 \<le> r \<longrightarrow> r < n \<longrightarrow> (\<exists>x. y = Inr x)"
  proof (intro impI)
    assume n: "n = int (length ps)" "n \<le> INT_MAX" and r: "0 \<le> r" "r < n"
    have g: "arr_get ps r = Inr (ps ! nat r)" using r n(1) by (simp add: arr_get_def)
    have m: "0 \<le> (r + 1) mod n" "(r + 1) mod n < n" using r by simp_all
    show "\<exists>x. y = Inr x"
    proof (cases "pid (ps ! nat r) = -1 \<or> exec (ps ! nat r) = 0")
      case True
      with eq have "f ps n ((r + 1) mod n) = Some y" unfolding g c_rem_next [OF r n(2)] by simp
      from IH [OF this] n m show ?thesis by blast
    next
      case False
      with eq show ?thesis unfolding g by auto
    qed
  qed
qed

text \<open>
  C15: the whole of \<open>RR_next\<close>. With nobody running it takes the first process of the table that
  is forked and has work left (-1 if there is none): after a completion the round starts again from
  the front. Inside a quantum it keeps the running process. At a multiple of 500 units it takes the
  first process with work left after the running one in ring order, which is at most the running one
  itself.
\<close>

theorem RR_next_spec:
  assumes "rr_fine n s"
  shows "(running s = -1 \<longrightarrow> RR_next s n = Some (Inr
      (case filter (\<lambda>i. pid (procs s ! i) \<noteq> -1 \<and> 0 < exec (procs s ! i)) [0..<length (procs s)] of
         [] \<Rightarrow> -1 | i # _ \<Rightarrow> int i))) \<and>
    (running s \<noteq> -1 \<longrightarrow> (time_now s - time_last s) mod 500 \<noteq> 0 \<longrightarrow> RR_next s n = Some (Inr (running s))) \<and>
    (running s \<noteq> -1 \<longrightarrow> (time_now s - time_last s) mod 500 = 0 \<longrightarrow>
      (\<exists>d < length (procs s). RR_next s n = Some (Inr ((running s + 1 + int d) mod n)) \<and>
         eligible (procs s ! nat ((running s + 1 + int d) mod n)) \<and>
         (\<forall>k<d. \<not> eligible (procs s ! nat ((running s + 1 + int k) mod n)))))"
  using assms by (rule RR_next_cases)

text \<open>
  C16: the search of \<open>RR_next\<close> has no way out: at the end of a quantum with no process that has a
  pid and work left, it never returns.
\<close>

theorem RR_next_diverges:
  assumes "running s = int i" and "i < length (procs s)" and "int (length (procs s)) \<le> INT_MAX"
    and "time_last s \<le> time_now s" and "0 \<le> time_last s" and "time_now s \<le> INT_MAX"
    and "(time_now s - time_last s) mod 500 = 0" and "\<forall>p\<in>set (procs s). pid p = -1 \<or> exec p = 0"
  shows "RR_next s (int (length (procs s))) = None"
proof -
  let ?n = "int (length (procs s))"
  have "0 < ?n" using assms(2) by linarith
  then have m: "0 \<le> (int i + 1) mod ?n" "(int i + 1) mod ?n < ?n" by simp_all
  have "rr_ring (procs s) ?n ((int i + 1) mod ?n) = None"
  proof (cases "rr_ring (procs s) ?n ((int i + 1) mod ?n)")
    case (Some y)
    with rr_ring_value [OF Some] assms(3) m obtain x where
      "rr_ring (procs s) ?n ((int i + 1) mod ?n) = Some (Inr x)" by auto
    from rr_ring_result [OF this] have "nat x < length (procs s)" "eligible (procs s ! nat x)" by auto
    with assms(8) show ?thesis using nth_mem by (fastforce simp: eligible_def)
  qed
  moreover have "bindr (c_int (time_now s - time_last s)) (\<lambda>x. c_rem x interval) = Inr 0"
    using assms by (simp add: c_int_nonneg c_rem_pos interval_def)
  moreover have "bindr (c_int (int i + 1)) (\<lambda>r. c_rem r ?n) = Inr ((int i + 1) mod ?n)"
    using assms by (intro c_rem_next) auto
  ultimately show ?thesis using assms(1) by (simp add: RR_next_def)
qed

text \<open>At the top of a round the last switch is in the past.\<close>

lemma rr_body_last:
  assumes "rr_body E n s = Some (Inr (False, s1))" and "time_last s \<le> time_now s"
  shows "time_last s1 < time_now s1"
proof -
  from assms(1) obtain s2 ps t x s3 where c: "rr_check n s = Inr (False, s2)"
    and sw: "rr_switch E x (s2\<lparr>procs := ps, trace := t\<rparr>) = Inr s3" and tk: "rr_tick s3 = Inr s1"
    by (rule rr_body_parts)
  have "time_last s3 \<le> time_now s3"
    using sw by (cases rule: rr_switch_cases) (use rr_check_fields [OF c] assms(2) in auto)
  then show ?thesis using rr_tick_fields [OF tk] by simp
qed

lemma rr_keeps_or_quantum:
  assumes inv: "rr_inv E n H s" and body: "rr_body E n s = Some (Inr (False, s1))"
    and run: "running s \<noteq> -1" "exec (procs s ! nat (running s)) \<noteq> 0" and ch: "running s1 \<noteq> running s"
  shows "(time_now s - time_last s) mod interval = 0"
proof -
  have E: "forks_ok E" and live: "live_before (time_now s) (procs s)" and T: "rr_table n H s"
    using inv by (auto simp: rr_inv_def)
  from body obtain s2 ps t x s3 where p: "rr_check n s = Inr (False, s2)"
    "rr_spawn E (time_now s2) (procs s2) (trace s2) = Inr (ps, t)"
    "RR_next (s2\<lparr>procs := ps, trace := t\<rparr>) n = Some (Inr x)"
    "rr_switch E x (s2\<lparr>procs := ps, trace := t\<rparr>) = Inr s3" "rr_tick s3 = Inr s1"
    by (rule rr_body_parts)
  have c: "running s2 \<noteq> -1 \<longrightarrow> s2 = s"
    "running s2 = running s \<or> running s2 = -1 \<and> exec (procs s ! nat (running s)) = 0"
    using rr_check_fields [OF p(1)] by blast+
  with run have "running s2 \<noteq> -1" by metis
  with c(1) have "s2 = s" by blast
  from rr.spawn_ok [OF E] p(2) have sp: "spawned (time_now s) (procs s) ps"
    unfolding rr_spawn_def \<open>s2 = s\<close> by (metis Pair_inject sum.inject(2))
  have "rr_fine n (s\<lparr>procs := ps, trace := t\<rparr>)"
    by (rule rr_spawned_fine [OF T _ live sp]) (simp add: rr_ending_def run)
  from RR_next_ok [OF this] p(3) have "x \<noteq> running s \<longrightarrow> (time_now s - time_last s) mod interval = 0"
    using run(1) \<open>s2 = s\<close> by auto
  moreover have "x \<noteq> running s"
  proof
    assume "x = running s"
    then have "s3 = s\<lparr>procs := ps, trace := t\<rparr>" using p(4) \<open>s2 = s\<close> by (auto simp: rr_switch_def split: if_splits)
    with rr_tick_fields [OF p(5)] ch show False by simp
  qed
  ultimately show ?thesis by blast
qed

text \<open>
  C17: \<open>RR_main\<close> preempts only at the end of a quantum: if a round takes the CPU from a process
  that has work left, the time since it was switched in is a positive multiple of 500.
\<close>

theorem RR_quantum:
  assumes "forks_ok E" and "c_qsort (qsort E)" and "rr_workload ps" and "rr_init E ps [] = Inr s0"
    and "reaches (\<lambda>s. the (rr_body E (int (length ps)) s)) s0 s"
    and "rr_body E (int (length ps)) s = Some (Inr (False, s1))"
    and "running s \<noteq> -1" and "exec (procs s ! nat (running s)) \<noteq> 0" and "running s1 \<noteq> running s"
  shows "\<exists>k>0. time_now s - time_last s = 500 * k"
proof -
  let ?n = "int (length ps)" and ?H = "horizon 0 (jobs_of ps)"
  from rr_init_ok [OF assms(2,1,3,4)] have s0: "rr_inv E ?n ?H s0" "running s0 = -1" "time_last s0 = 0"
    "time_now s0 = 0" by auto
  let ?I = "\<lambda>s. rr_inv E ?n ?H s \<and> (running s \<noteq> -1 \<longrightarrow> time_last s < time_now s)"
  have "?I s"
  proof (rule reaches_invariant [OF assms(5), where I = ?I])
    show "?I s0" using s0 by simp
    fix u v assume u: "?I u" and "the (rr_body E ?n u) = Inr (False, v)"
    moreover from u have "rr_body E ?n u \<noteq> None" using rr_body_ok [of E ?n ?H u] by auto
    ultimately have b: "rr_body E ?n u = Some (Inr (False, v))" by auto
    have "time_last u \<le> time_now u" using u by (simp add: rr_inv_def rr_table_def)
    from rr_body_last [OF b this] u b show "?I v" using rr_body_ok [of E ?n ?H u] by auto
  qed
  then have "rr_inv E ?n ?H s" "time_last s < time_now s" using assms(7) by auto
  with rr_keeps_or_quantum [OF _ assms(6-9)] have "(time_now s - time_last s) mod 500 = 0"
    by (simp add: interval_def)
  then obtain k where "time_now s - time_last s = 500 * k" by auto
  with \<open>time_last s < time_now s\<close> show ?thesis by (intro exI [of _ k]) auto
qed

section \<open>Scheduling classes\<close>

abbreviation rr_prio :: "os \<Rightarrow> rr_state \<Rightarrow> bool" where
  "rr_prio E s \<equiv> prio_inv (SCHED_OTHER, 0) (trace s) (procs s) (running s) \<and>
     stray_pid E \<notin> set (forked (trace s))"

lemma rr_switch_prio:
  assumes E: "prio_ok E" and inv: "rr_prio E s" and fine: "rr_fine n s"
    and sw: "rr_switch E x s = Inr s1" and el: "\<forall>i. x = int i \<longrightarrow> eligible (procs s ! i)"
  shows "rr_prio E s1 \<and> procs s1 = procs s"
  using sw
proof (cases rule: rr_switch_cases)
  case 1
  with inv show ?thesis by simp
next
  case (2 i old t2)
  let ?t = "snd (proc_wakeup E (pid (procs s ! i)) (trace s))"
  have el: "pid (procs s ! i) \<noteq> -1" using el 2(1) by (simp add: eligible_def)
  have "prio_inv (SCHED_OTHER, 0) (trace s1) (procs s) (int i) \<and> forked (trace s1) = forked (trace s)"
  proof (cases "running s = -1")
    case True
    then have "old = stray_pid E" "t2 = Oob_Read (-1) # ?t" using 2(4) by (simp_all add: pid_at_def)
    moreover have "prio_inv (SCHED_OTHER, 0) (snd (proc_block E (stray_pid E) (Oob_Read (-1) # ?t))) (procs s) (int i)"
      by (rule prio_inv_resume [where t = "trace s" and q = "stray_pid E"])
        (use 2(2) inv True el in \<open>auto simp: rr_class_of_calls [OF E]\<close>)
    ultimately show ?thesis using 2(5) by simp
  next
    case False
    then have "0 \<le> running s" "running s < int (length (procs s))" using fine by (auto simp: rr_fine_def)
    then obtain j where j: "running s = int j" "j < length (procs s)" by (metis nonneg_int_cases of_nat_less_iff)
    then have "old = pid (procs s ! j)" "t2 = ?t" using 2(4) by (simp_all add: pid_at_def)
    moreover have "prio_inv (SCHED_OTHER, 0) (snd (proc_block E (pid (procs s ! j)) ?t)) (procs s) (int i)"
      by (rule prio_inv_switch [where t = "trace s" and j = j])
        (use 2(1-3) j inv el in \<open>auto simp: rr_class_of_calls [OF E]\<close>)
    ultimately show ?thesis using 2(5) by simp
  qed
  with 2(5) inv show ?thesis by simp
qed

lemma rr_tick_prio:
  assumes "rr_prio E s" and "rr_tick s = Inr s1" and "\<forall>i. running s = int i \<longrightarrow> eligible (procs s ! i)"
  shows "rr_prio E s1"
proof -
  have unit: "prio_inv (SCHED_OTHER, 0) (Unit_time (trace s)) (procs s) (running s)"
    by (rule prio_inv_trace [of _ "trace s"]) (use assms(1) in \<open>auto simp: Unit_time_def\<close>)
  have fk: "forked (Unit_time (trace s)) = forked (trace s)" by (simp add: Unit_time_def)
  note f = rr_tick_fields [OF assms(2)]
  show ?thesis
  proof (cases "running s = -1")
    case True
    with assms(2) have "procs s1 = procs s" by (auto simp: rr_tick_def bindr_eq_Inr Let_def)
    with unit f fk assms(1) show ?thesis by simp
  next
    case False
    with assms(2) have "0 \<le> running s" "nat (running s) < length (procs s)"
      and s1: "procs s1 = (procs s)[nat (running s) := (procs s ! nat (running s))\<lparr>exec := exec (procs s ! nat (running s)) - 1\<rparr>]"
      by (auto simp: rr_tick_def bindr_eq_Inr c_int_Inr arr_get_Inr arr_set_Inr Let_def)
    moreover have "exec (procs s ! nat (running s)) \<noteq> 0"
      using assms(3) \<open>0 \<le> running s\<close> by (simp add: eligible_def)
    ultimately show ?thesis using prio_inv_unit [OF unit] f fk assms(1) by simp
  qed
qed

lemma rr_body_prio:
  assumes E: "prio_ok E" "fresh_pids E" and inv: "rr_inv E n H s" "rr_prio E s"
    and body: "rr_body E n s = Some (Inr (False, s1))"
  shows "rr_prio E s1"
proof -
  have fo: "forks_ok E" and live: "live_before (time_now s) (procs s)" and T: "rr_table n H s"
    using inv(1) by (auto simp: rr_inv_def)
  from body obtain s2 ps t x s3 where p: "rr_check n s = Inr (False, s2)"
    "rr_spawn E (time_now s2) (procs s2) (trace s2) = Inr (ps, t)"
    "RR_next (s2\<lparr>procs := ps, trace := t\<rparr>) n = Some (Inr x)"
    "rr_switch E x (s2\<lparr>procs := ps, trace := t\<rparr>) = Inr s3" "rr_tick s3 = Inr s1"
    by (rule rr_body_parts)
  note c = rr_check_fields [OF p(1)]
  have "prio_inv (SCHED_OTHER, 0) (trace s) (procs s) (running s2)"
  proof (cases "running s2 = running s")
    case False
    with c have "running s = int (nat (running s))" "running s2 = -1"
      "exec (procs s ! nat (running s)) = 0" by auto
    with inv(2) prio_inv_finished show ?thesis by metis
  qed (use inv(2) in simp)
  then have "prio_inv (SCHED_OTHER, 0) (trace s2) (procs s) (running s2)"
    by (rule prio_inv_trace) (use c in auto)
  then have pr2: "rr_prio E s2" using c inv(2) by simp
  have live2: "live_before (time_now s2) (procs s2)" using live c by simp
  let ?s = "s2\<lparr>procs := ps, trace := t\<rparr>"
  note sp' = p(2) [unfolded rr_spawn_def]
  have pr3: "rr_prio E ?s" using rr.spawn_prio [OF fo E sp' _ live2] pr2 by auto
  have rd: "\<forall>p\<in>set (procs s). pid p \<noteq> -1 \<longrightarrow> ready p \<le> time_now s"
    using live by (auto simp: live_before_def)
  from rr_check_ok [OF T rd] p(1) have T2: "rr_table n H s2" "\<not> rr_ending s2" by auto
  from rr.spawn_ok [OF fo] sp' have "spawned (time_now s2) (procs s2) ps" by (metis Pair_inject sum.inject(2))
  from rr_spawned_fine [OF T2 live2 this] have fine: "rr_fine n ?s" .
  from RR_next_ok [OF fine] p(3) have x: "-1 \<le> x" "x < n" "\<forall>i. x = int i \<longrightarrow> eligible (ps ! i)"
    "x = -1 \<longrightarrow> running s2 = -1" by auto
  have pr4: "rr_prio E s3" and ps3: "procs s3 = ps"
  proof -
    have "\<forall>i. x = int i \<longrightarrow> eligible (procs (s2\<lparr>procs := ps, trace := t\<rparr>) ! i)" using x(3) by simp
    from rr_switch_prio [OF E(1) pr3 fine p(4) this] show "rr_prio E s3" and "procs s3 = ps" by auto
  qed
  have "running s3 = x" using rr_switch_ok [OF fine x(1,2), of E] p(4) x(4) by auto
  with x(3) ps3 have "\<forall>i. running s3 = int i \<longrightarrow> eligible (procs s3 ! i)" by simp
  with pr4 p(5) show ?thesis by (rule rr_tick_prio)
qed

text \<open>
  C26: at the top of every round of \<open>RR_main\<close> on a proper workload, of the started processes with
  work left the running one is \<open>SCHED_OTHER\<close> and every other one \<open>SCHED_IDLE\<close>. For fresh
  pids, succeeding priority requests, and a stray pid that is no child's.
\<close>

theorem RR_priorities:
  assumes "forks_ok E" and "prio_ok E" and "fresh_pids E" and "c_qsort (qsort E)" and "rr_workload ps"
    and "rr_init E ps [] = Inr s0" and "reaches (\<lambda>s. the (rr_body E (int (length ps)) s)) s0 s"
    and "i < length ps" and "pid (procs s ! i) \<noteq> -1" and "exec (procs s ! i) \<noteq> 0"
  shows "class_of (trace s) (pid (procs s ! i)) =
    (if running s = int i then (SCHED_OTHER, 0) else (SCHED_IDLE, 0))"
proof -
  let ?n = "int (length ps)" and ?H = "horizon 0 (jobs_of ps)"
  let ?I = "\<lambda>s. rr_inv E ?n ?H s \<and> rr_prio E s"
  from rr_init_ok [OF assms(4,1,5,6)] have s0: "?I s0" by (auto simp: prio_inv_reset)
  have "?I s"
  proof (rule reaches_invariant [OF assms(7), where I = ?I])
    show "?I s0" by (rule s0)
    fix u v assume u: "?I u" and "the (rr_body E ?n u) = Inr (False, v)"
    moreover from u have "rr_body E ?n u \<noteq> None" using rr_body_ok [of E ?n ?H u] by auto
    ultimately have b: "rr_body E ?n u = Some (Inr (False, v))" by auto
    have "rr_prio E v" by (rule rr_body_prio [OF assms(2,3) _ _ b]) (use u in auto)
    moreover have "rr_inv E ?n ?H v" using rr_body_ok [of E ?n ?H u] u b by auto
    ultimately show "?I v" by blast
  qed
  then show ?thesis using assms(8-10) by (auto simp: rr_inv_def rr_table_def prio_inv_def)
qed

section \<open>Single steps\<close>

text \<open>
  A switch of \<open>RR_main\<close> from the idle state reads \<open>proc[-1].pid\<close> and asks for
  \<open>SCHED_IDLE\<close> for the four bytes in front of the array; a switch between two processes wakes the
  new one first and then blocks the old one.
\<close>

lemma rr_switch_steps:
  assumes "i < length (procs s)" and "running s \<noteq> int i"
  shows "(running s = -1 \<longrightarrow> rr_switch E (int i) s = Inr (s\<lparr>running := int i, time_last := time_now s,
      trace := snd (proc_block E (stray_pid E) (Oob_Read (-1) #
        snd (proc_wakeup E (pid (procs s ! i)) (trace s))))\<rparr>)) \<and>
    (\<forall>j. running s = int j \<longrightarrow> j < length (procs s) \<longrightarrow>
      rr_switch E (int i) s = Inr (s\<lparr>running := int i, time_last := time_now s,
        trace := snd (proc_block E (pid (procs s ! j)) (snd (proc_wakeup E (pid (procs s ! i)) (trace s))))\<rparr>))"
  using assms by (auto simp: rr_switch_def pid_at_def)

text \<open>
  \<open>proc_exec\<close> of \<^verbatim>\<open>RR.c\<close>: a failed \<^verbatim>\<open>fork\<close> is reported and gives
  -1 without an affinity request; the child spins exactly \<open>exec\<close> units of a million rounds and
  exits with status 0.
\<close>

lemma rr_proc_exec_cases:
  shows "(fork_ret E t < 0 \<longrightarrow> proc_exec E p t = Inr (-1, Perror ''fork'' # Fork (fork_ret E t) # t)) \<and>
    (fork_ret E t = 0 \<longrightarrow>
      proc_exec E p t = Inl (Exited 0 (replicate (nat (exec p)) (Spin 1000000) @ Fork 0 # t)))"
  by (simp add: proc_exec_def rr_child_replicate Let_def)

text \<open>
  \<open>RR_main\<close> is the one scheduler that insists on its own class: when the kernel refuses
  \<open>SCHED_OTHER\<close> for the parent it reports it and exits with status 1, before any fork.
\<close>

lemma RR_setscheduler_failure:
  assumes "forks_ok E" and "rr_workload ps" and "\<And>u p. setscheduler_ret E u p SCHED_OTHER 0 < 0"
  shows "\<exists>tr. RR_main E ps n [] = Some (Inl (Exited 1 (Fprintf_stderr ''sched_scheduler error.\<newline>'' # tr))) \<and>
    forked tr = []"
proof -
  have wl: "workload ps" using assms(2) by (simp add: rr_workload_def)
  have range: "\<forall>p\<in>set ps. 0 \<le> ready p \<and> ready p \<le> INT_MAX" using workload_ready [OF wl] by blast
  show ?thesis
    using qsort_difference(1) [OF range RR_compare_def] forks_okD(4) [OF assms(1)] assms(3)
    by (simp add: RR_main_def rr_init_def proc_assign_cpu_def PARENT_CPU_def sched_setaffinity_def
        sched_setscheduler_def Let_def)
qed

section \<open>Witnesses\<close>

lemma rr_workload_demo [simp]: "rr_workload demo_procs"
proof -
  have "horizon 0 (jobs_of demo_procs) = 4"
    by (simp add: demo_procs_def horizon_def last_arrival_def work_def)
  then show ?thesis by (simp add: rr_workload_def INT_MAX_def)
qed

theorem RR_completes_witness:
  "\<exists>s. RR_main demo_os demo_procs 2 [] = Some (Inr s) \<and> time_now s = 3 \<and> finish_cnt s = 2"
  using RR_completes [of demo_os demo_procs] libc.c_qsort_axioms by auto

theorem RR_average_is_turnaround_witness:
  "\<exists>s tr total waited. RR_main demo_os demo_procs 2 [] = Some (Inr s) \<and>
    trace s = Printf ''Average waiting time: %.2f\<newline>'' [Quot total 2] # tr \<and>
    waited = sum_list (map snd (rr_finishes tr)) - 1 - 3 \<and> total = waited + 3"
proof -
  have "sum_list (map ready demo_procs) = 1" "sum_list (map exec demo_procs) = 3"
    by (simp_all add: demo_procs_def)
  with RR_average_is_turnaround [of demo_os demo_procs] libc.c_qsort_axioms show ?thesis by auto
qed

text \<open>A state in the middle of a round, at the end of a quantum.\<close>

definition rr_demo_state :: rr_state where
  "rr_demo_state =
     \<lparr>procs = [\<lparr>name = ''P1'', ready = 0, exec = 700, waiting = 0, pid = 100\<rparr>,
               \<lparr>name = ''P2'', ready = 0, exec = 0, waiting = 0, pid = 101\<rparr>,
               \<lparr>name = ''P3'', ready = 0, exec = 3, waiting = 0, pid = 102\<rparr>],
      time_now = 510, time_last = 10, running = 0, finish_cnt = 1, wait = 10, trace = []\<rparr>"

theorem RR_next_spec_witness:
  "rr_fine 3 rr_demo_state \<and> (\<exists>d<3. RR_next rr_demo_state 3 = Some (Inr ((0 + 1 + int d) mod 3)))"
proof -
  have "rr_fine 3 rr_demo_state"
    by (simp add: rr_fine_def rr_demo_state_def INT_MAX_def eligible_def)
  moreover have "running rr_demo_state = 0" "time_now rr_demo_state - time_last rr_demo_state = 500"
    "length (procs rr_demo_state) = 3" by (simp_all add: rr_demo_state_def)
  ultimately show ?thesis using RR_next_spec [of 3 rr_demo_state] by auto
qed

theorem RR_next_diverges_witness:
  "RR_next (rr_demo_state\<lparr>procs := [\<lparr>name = ''P1'', ready = 0, exec = 0, waiting = 0, pid = 100\<rparr>]\<rparr>) 1 = None"
  using RR_next_diverges [of "rr_demo_state\<lparr>procs := [\<lparr>name = ''P1'', ready = 0, exec = 0, waiting = 0, pid = 100\<rparr>]\<rparr>" 0]
  by (simp add: rr_demo_state_def INT_MAX_def)

theorem RR_priorities_witness:
  "\<exists>s0 s. rr_init demo_os demo_procs [] = Inr s0 \<and> reaches (\<lambda>s. the (rr_body demo_os 2 s)) s0 s \<and>
     pid (procs s ! 0) \<noteq> -1 \<and> class_of (trace s) (pid (procs s ! 0)) = (SCHED_OTHER, 0)"
proof -
  let ?init = "projr (rr_init demo_os demo_procs [])"
  let ?s = "snd (projr (the (rr_body demo_os 2 ?init)))"
  have init: "rr_init demo_os demo_procs [] = Inr ?init" by (rule res_ok) code_simp
  have "the (rr_body demo_os 2 ?init) = Inr (False, ?s)" by (rule res_go) code_simp+
  then have r: "reaches (\<lambda>s. the (rr_body demo_os 2 s)) ?init ?s"
    by (rule reaches_step [where body = "\<lambda>s. the (rr_body demo_os 2 s)", OF _ reaches.start])
  have f: "pid (procs ?s ! 0) \<noteq> -1" "exec (procs ?s ! 0) \<noteq> 0" "running ?s = int 0" by code_simp+
  have "class_of (trace ?s) (pid (procs ?s ! 0)) = (SCHED_OTHER, 0)"
    using RR_priorities [of demo_os demo_procs ?init ?s 0] init r f libc.c_qsort_axioms by simp
  with init r f(1) show ?thesis by blast
qed

text \<open>A run up to the end of the first quantum.\<close>

definition quantum_procs :: "process list" where
  "quantum_procs =
     [\<lparr>name = ''P1'', ready = 0, exec = 501, waiting = 0, pid = 0\<rparr>,
      \<lparr>name = ''P2'', ready = 0, exec = 1, waiting = 0, pid = 0\<rparr>]"

definition quantum_state :: "int \<Rightarrow> trace \<Rightarrow> rr_state" where
  "quantum_state k t =
     \<lparr>procs = [\<lparr>name = ''P1'', ready = 0, exec = 501 - k, waiting = 0, pid = 100\<rparr>,
               \<lparr>name = ''P2'', ready = 0, exec = 1, waiting = 0, pid = 101\<rparr>],
      time_now = k, time_last = 0, running = 0, finish_cnt = 0, wait = 0, trace = t\<rparr>"

lemma quantum_first:
  "\<exists>s0 t. rr_init demo_os quantum_procs [] = Inr s0 \<and>
     reaches (\<lambda>s. the (rr_body demo_os 2 s)) s0 (quantum_state 1 t)"
proof -
  let ?init = "projr (rr_init demo_os quantum_procs [])"
  let ?s = "snd (projr (the (rr_body demo_os 2 ?init)))"
  have init: "rr_init demo_os quantum_procs [] = Inr ?init" by (rule res_ok) code_simp
  have "the (rr_body demo_os 2 ?init) = Inr (False, ?s)" by (rule res_go) code_simp+
  then have r: "reaches (\<lambda>s. the (rr_body demo_os 2 s)) ?init ?s"
    by (rule reaches_step [where body = "\<lambda>s. the (rr_body demo_os 2 s)", OF _ reaches.start])
  have "procs ?s = procs (quantum_state 1 [])" "time_now ?s = 1" "time_last ?s = 0" "running ?s = 0"
    "finish_cnt ?s = 0" "wait ?s = 0" by code_simp+
  then have "?s = quantum_state 1 (trace ?s)" by (simp add: quantum_state_def)
  with init r show ?thesis by metis
qed

lemma quantum_step:
  assumes "1 \<le> k" and "k < 500"
  shows "rr_body demo_os 2 (quantum_state k t) = Some (Inr (False, quantum_state (k + 1) (Unit_time t)))"
proof -
  have "k mod 500 = k" using assms by simp
  with assms have "c_rem k 500 = Inr k" by (simp add: c_rem_pos)
  with assms show ?thesis
    by (simp add: rr_body_def rr_check_def rr_spawn_def RR_next_def rr_switch_def rr_tick_def
        quantum_state_def arr_get_def arr_set_def c_int_def INT_MAX_def INT_MIN_def interval_def Let_def)
qed

lemma quantum_reach:
  assumes "reaches (\<lambda>s. the (rr_body demo_os 2 s)) s0 (quantum_state 1 t)"
  shows "k < 500 \<Longrightarrow> \<exists>u. reaches (\<lambda>s. the (rr_body demo_os 2 s)) s0 (quantum_state (1 + int k) u)"
proof (induction k)
  case (Suc k)
  then obtain u where u: "reaches (\<lambda>s. the (rr_body demo_os 2 s)) s0 (quantum_state (1 + int k) u)" by auto
  have "the (rr_body demo_os 2 (quantum_state (1 + int k) u)) = Inr (False, quantum_state (1 + int (Suc k)) (Unit_time u))"
    using quantum_step [of "1 + int k" u] Suc.prems by (simp add: add.commute)
  with u show ?case by (blast intro: reaches.iterate)
qed (use assms in auto)

lemma quantum_end:
  "\<exists>s1. rr_body demo_os 2 (quantum_state 500 t) = Some (Inr (False, s1)) \<and> running s1 = 1"
proof -
  have "rr_ring (procs (quantum_state 500 t)) 2 1 = Some (Inr 1)"
    by (subst rr_ring.simps) (simp add: quantum_state_def arr_get_def)
  then show ?thesis
    by (simp add: rr_body_def rr_check_def rr_spawn_def RR_next_def rr_switch_def rr_tick_def pid_at_def
        quantum_state_def arr_get_def arr_set_def c_int_def INT_MAX_def INT_MIN_def interval_def c_rem_def Let_def)
qed

theorem RR_quantum_witness:
  "\<exists>s0 s s1. rr_init demo_os quantum_procs [] = Inr s0 \<and> reaches (\<lambda>s. the (rr_body demo_os 2 s)) s0 s \<and>
     rr_body demo_os 2 s = Some (Inr (False, s1)) \<and> running s = 0 \<and> running s1 = 1 \<and>
     (\<exists>k>0. time_now s - time_last s = 500 * k)"
proof -
  from quantum_first obtain s0 t where s0: "rr_init demo_os quantum_procs [] = Inr s0"
    "reaches (\<lambda>s. the (rr_body demo_os 2 s)) s0 (quantum_state 1 t)" by blast
  from quantum_reach [OF s0(2), of 499] obtain u where
    r: "reaches (\<lambda>s. the (rr_body demo_os 2 s)) s0 (quantum_state 500 u)" by auto
  from quantum_end obtain s1 where b: "rr_body demo_os 2 (quantum_state 500 u) = Some (Inr (False, s1))"
    "running s1 = 1" by blast
  have wl: "rr_workload quantum_procs" "length quantum_procs = 2"
    by (simp_all add: rr_workload_def workload_def quantum_procs_def horizon_def last_arrival_def work_def INT_MAX_def)
  have q: "running (quantum_state 500 u) = 0" "exec (procs (quantum_state 500 u) ! 0) = 1"
    by (simp_all add: quantum_state_def)
  have "\<exists>k>0. time_now (quantum_state 500 u) - time_last (quantum_state 500 u) = 500 * k"
    using RR_quantum [of demo_os quantum_procs s0 "quantum_state 500 u" s1] s0(1) r b wl q libc.c_qsort_axioms
    by simp
  with s0(1) r b q(1) show ?thesis by blast
qed

end
