(* ===== verification/Round_Robin.thy ===== *)
theory Round_Robin
  imports Machine
begin

text \<open>
  Round robin on the abstract machine: the record grows by the time of the last switch. When nobody
  runs the first job of the table with work left gets the processor; the running one is looked at
  again whenever a multiple of the quantum \<open>q\<close> has passed since the last switch, and then the next job
  round the table with work left gets it. The plan has slices of at most \<open>q\<close> units.
\<close>

record rr_mach = mach +
  since :: int

definition ring :: "nat \<Rightarrow> nat option \<Rightarrow> nat list" where
  "ring n c = (case c of None \<Rightarrow> [0..<n] | Some i \<Rightarrow> map (\<lambda>d. (i + 1 + d) mod n) [0..<n])"

definition rr_turn :: "int list \<Rightarrow> int list \<Rightarrow> int \<Rightarrow> nat option \<Rightarrow> nat option" where
  "rr_turn as l t c = find (\<lambda>i. as ! i \<le> t \<and> l ! i \<noteq> 0) (ring (length as) c)"

definition rr_slice :: "int \<Rightarrow> int list \<Rightarrow> int list \<Rightarrow> int \<Rightarrow> nat \<Rightarrow> int" where
  "rr_slice q as l t i = min q (l ! i)"

definition rr_pick :: "int \<Rightarrow> rr_mach \<Rightarrow> rr_mach" where
  "rr_pick q a =
     (if cur a = None \<or> (now a - since a) mod q = 0 then
        (case rr_turn (arr a) (left a) (now a) (cur a) of
           None \<Rightarrow> a
         | Some j \<Rightarrow> (if cur a = Some j then a else a\<lparr>cur := Some j, since := now a\<rparr>))
      else a)"

abbreviation rr_plan :: "int \<Rightarrow> int list \<Rightarrow> string list \<Rightarrow> int list \<Rightarrow> (string \<times> int) list" where
  "rr_plan q as ns l \<equiv> plan rr_turn (rr_slice q) as ns l None 0"

text \<open>The ring visits every index, the current one last.\<close>

lemma ring_bounds: "i \<in> set (ring n c) \<Longrightarrow> i < n"
  by (auto simp: ring_def split: option.splits)

lemma ring_last: "i < n \<Longrightarrow> (i + 1 + (n - 1)) mod n = (i :: nat)"
  by simp

lemma ring_complete:
  assumes "i < n" and "\<And>j. c = Some j \<Longrightarrow> j < n"
  shows "i \<in> set (ring n c)"
proof (cases c)
  case (Some j)
  let ?d = "(i + n - (j + 1)) mod n"
  have "j < n" using assms Some by blast
  have "(j + 1 + ?d) mod n = (j + 1 + (i + n - (j + 1))) mod n" by (rule mod_add_right_eq)
  then have "(j + 1 + ?d) mod n = i" using \<open>j < n\<close> assms(1) by simp
  moreover have "?d < n" using assms(1) by simp
  ultimately show ?thesis using Some by (auto simp: ring_def image_iff intro!: bexI [of _ ?d])
qed (use assms in \<open>simp add: ring_def\<close>)

lemma rr_turn_Some:
  "rr_turn as l t c = Some i \<Longrightarrow> i < length as \<and> as ! i \<le> t \<and> l ! i \<noteq> 0"
  by (auto simp: rr_turn_def find_Some_iff dest: nth_mem ring_bounds)

lemma rr_turn_None:
  assumes "rr_turn as l t c = None" and "\<And>j. c = Some j \<Longrightarrow> j < length as"
    and "i < length as" and "as ! i \<le> t"
  shows "l ! i = 0"
  using assms ring_complete [of i "length as" c] by (auto simp: rr_turn_def find_None_iff)

lemma rr_pick_fields [simp]:
  "arr (rr_pick q a) = arr a" "nm (rr_pick q a) = nm a" "left (rr_pick q a) = left a"
  "now (rr_pick q a) = now a" "log (rr_pick q a) = log a"
  by (auto simp: rr_pick_def split: option.splits)

lemma rr_pick_cur:
  "cur (rr_pick q a) =
     (if cur a = None \<or> (now a - since a) mod q = 0 then
        (case rr_turn (arr a) (left a) (now a) (cur a) of None \<Rightarrow> cur a | Some j \<Rightarrow> Some j)
      else cur a)"
  by (auto simp: rr_pick_def split: option.splits)

text \<open>The time of the last switch is a multiple of the quantum away when a slice begins.\<close>

lemma rr_pick_since:
  assumes "cur a = None \<or> (now a - since a) mod q = 0" and "cur (rr_pick q a) = Some i"
  shows "(now a - since (rr_pick q a)) mod q = 0"
  using assms by (auto simp: rr_pick_def split: option.splits if_splits)

locale quantum =
  fixes q :: int
  assumes pos: "0 < q"
begin

lemma pick_edge_mod:
  assumes "cur a = None \<or> (now a - since a) mod q = 0" and "cur (rr_pick q a) = Some i"
  shows "(now a + k - since (rr_pick q a)) mod q = k mod q"
proof -
  have "(now a + k - since (rr_pick q a)) mod q = ((now a - since (rr_pick q a)) mod q + k) mod q"
    unfolding mod_add_left_eq by (rule arg_cong [where f = "\<lambda>x. x mod q"]) simp
  then show ?thesis using rr_pick_since [OF assms] by simp
qed

sublocale sliced "rr_pick q" rr_turn "rr_slice q" "\<lambda>a. cur a = None \<or> (now a - since a) mod q = 0"
proof
  fix a :: rr_mach
  show "arr (rr_pick q a) = arr a" "nm (rr_pick q a) = nm a" "left (rr_pick q a) = left a"
    "now (rr_pick q a) = now a" "log (rr_pick q a) = log a" by simp_all
  show "nobody a" if "mach_inv a" "cur (rr_pick q a) = None"
    using that rr_turn_None [of "arr a" "left a" "now a" "cur a"]
    by (auto simp: rr_pick_cur split: if_splits option.splits)
  show some: "i < length (arr a) \<and> arr a ! i \<le> now a \<and> left a ! i \<noteq> 0"
    if "mach_inv a" "\<not> ending a" "cur (rr_pick q a) = Some i" for i
    using that by (auto simp: rr_pick_cur mach_inv_def ending_def dest: rr_turn_Some split: if_splits option.splits)
  show "rr_pick q a = a" if "mach_inv a" "cur a = None" "nobody a"
    using that by (auto simp: rr_pick_def dest: rr_turn_Some split: option.splits)
  let ?edge = "cur a = None \<or> (now a - since a) mod q = 0"
  show "cur (rr_pick q a) = rr_turn (arr a) (left a) (now a) (cur a)"
    if "mach_inv a" "\<not> ending a" ?edge
  proof (cases "rr_turn (arr a) (left a) (now a) (cur a)")
    case None
    then have "cur a = None"
      using that(1,2) rr_turn_None [OF None] by (cases "cur a") (auto simp: mach_inv_def ending_def)
    with None show ?thesis by (simp add: rr_pick_cur)
  qed (use that(3) in \<open>simp add: rr_pick_cur\<close>)
  show "0 < rr_slice q (arr a) (left a) (now a) i \<and> rr_slice q (arr a) (left a) (now a) i \<le> left a ! i"
    if "mach_inv a" "\<not> ending a" "cur (rr_pick q a) = Some i" for i
  proof -
    have "i < length (left a)" "left a ! i \<noteq> 0" using some [OF that] that(1) by (auto simp: mach_inv_def)
    moreover from this(1) that(1) have "0 \<le> left a ! i" by (auto simp: mach_inv_def)
    ultimately show ?thesis using pos by (simp add: rr_slice_def)
  qed
  show "rr_pick q (advance k i (rr_pick q a)) = advance k i (rr_pick q a)"
    if ?edge "cur (rr_pick q a) = Some i" "0 < k" "k < rr_slice q (arr a) (left a) (now a) i" for i k
  proof -
    have "since (advance k i (rr_pick q a)) = since (rr_pick q a)" by (simp add: advance_def)
    moreover have "(now a + k - since (rr_pick q a)) mod q \<noteq> 0"
      using pick_edge_mod [OF that(1,2)] that(3,4) by (simp add: rr_slice_def)
    ultimately show ?thesis using that(2) by (subst rr_pick_def) simp
  qed
  show "cur (advance (rr_slice q (arr a) (left a) (now a) i) i (rr_pick q a)) = None \<or>
      (now (advance (rr_slice q (arr a) (left a) (now a) i) i (rr_pick q a)) -
       since (advance (rr_slice q (arr a) (left a) (now a) i) i (rr_pick q a))) mod q = 0"
    if ?edge "cur (rr_pick q a) = Some i" "rr_slice q (arr a) (left a) (now a) i < left a ! i" for i
    using pick_edge_mod [OF that(1,2), of q] that(3) by (simp add: rr_slice_def advance_def)
qed auto

end

end
