(* ===== verification/RR_Schedule.thy ===== *)
theory RR_Schedule
  imports RR_Sched Round_Robin
begin

text \<open>
  \<open>RR_main\<close> refines the round robin machine with the quantum of the code, so that its lines
  "Finish" are those of the plan.
\<close>

interpretation round_robin: quantum interval
  by unfold_locales (simp add: interval_def)

definition rr_abs :: "rr_state \<Rightarrow> rr_mach" where
  "rr_abs s = \<lparr>arr = map ready (procs s), nm = map name (procs s), left = map exec (procs s),
     cur = (if running s = -1 then None else Some (nat (running s))), now = time_now s,
     log = rr_finishes (trace s), since = time_last s\<rparr>"

definition rr_good :: "os \<Rightarrow> int \<Rightarrow> int \<Rightarrow> rr_state \<Rightarrow> bool" where
  "rr_good E n H s \<longleftrightarrow> rr_inv E n H s \<and> finish_cnt s = int (length (rr_finishes (trace s)))"

lemma rr_abs_ending: "ending (rr_abs s) \<longleftrightarrow> rr_ending s" if "-1 \<le> running s" "running s < int (length (procs s))"
  using that by (auto simp: ending_def rr_abs_def rr_ending_def)

lemma rr_good_mach:
  assumes "rr_good E n H s"
  shows "mach_inv (rr_abs s)"
proof -
  have T: "rr_table n H s" and live: "live_before (time_now s) (procs s)"
    and f: "finish_cnt s = int (length (rr_finishes (trace s)))"
    using assms by (auto simp: rr_good_def rr_inv_def)
  note T = T [unfolded rr_table_def]
  have "ready (procs s ! i) \<le> time_now s" if "running s = int i" for i
    using T that live_before_nth [OF live, of i] by auto
  then show ?thesis
    using T f rr_abs_ending [of s] unfolding mach_inv_def
    by (auto simp: rr_abs_def split: if_splits)
qed

lemma rr_check_abs:
  assumes "rr_check n s = Inr (b, s1)" and "-1 \<le> running s" and "running s < int (length (procs s))"
    and "n = int (length (procs s))" and "finish_cnt s = int (length (rr_finishes (trace s)))"
  shows "rr_abs s1 = mach_check (rr_abs s)" and "finish_cnt s1 = int (length (rr_finishes (trace s1)))"
    and "b \<longleftrightarrow> ending (rr_abs s) \<and> Suc (length (log (rr_abs s))) = length (arr (rr_abs s))"
  using assms
  by (auto simp: rr_check_def mach_check_def rr_abs_def ending_def bindr_eq_Inr arr_get_Inr c_int_Inr
      split: if_splits)

text \<open>The process that \<open>RR_next\<close> finds.\<close>

lemma find_head: "find P xs = (case filter P xs of [] \<Rightarrow> None | x # _ \<Rightarrow> Some x)"
  by (induction xs) auto

lemma RR_next_turn:
  assumes "rr_fine n s" and "live_before (time_now s + 1) (procs s)"
  shows "RR_next s n = Some (Inr (enc (cur (rr_pick interval (rr_abs s)))))"
proof -
  let ?ps = "procs s" and ?as = "map ready (procs s)" and ?l = "map exec (procs s)"
  note F = assms(1) [unfolded rr_fine_def]
  have e: "eligible (?ps ! i) \<longleftrightarrow> ?as ! i \<le> time_now s \<and> ?l ! i \<noteq> 0"
    "pid (?ps ! i) \<noteq> -1 \<and> 0 < exec (?ps ! i) \<longleftrightarrow> ?as ! i \<le> time_now s \<and> ?l ! i \<noteq> 0" if "i < length ?ps" for i
  proof -
    have "0 \<le> exec (?ps ! i)" using F that by simp
    then show "eligible (?ps ! i) \<longleftrightarrow> ?as ! i \<le> time_now s \<and> ?l ! i \<noteq> 0"
      "pid (?ps ! i) \<noteq> -1 \<and> 0 < exec (?ps ! i) \<longleftrightarrow> ?as ! i \<le> time_now s \<and> ?l ! i \<noteq> 0"
      using that live_before_nth [OF assms(2) that] by (auto simp: eligible_def)
  qed
  note spec = RR_next_cases [OF assms(1)]
  show ?thesis
  proof (cases "running s = -1")
    case True
    have "filter (\<lambda>i. pid (?ps ! i) \<noteq> -1 \<and> 0 < exec (?ps ! i)) [0..<length ?ps] =
        filter (\<lambda>i. ?as ! i \<le> time_now s \<and> ?l ! i \<noteq> 0) [0..<length ?ps]"
      using e(2) by (intro filter_cong) auto
    with True spec show ?thesis
      by (simp add: rr_pick_cur rr_abs_def rr_turn_def ring_def find_head enc_def split: list.split)
  next
    case r: False
    define i where "i = nat (running s)"
    have i: "running s = int i" "i < length ?ps" using F r by (auto simp: i_def)
    show ?thesis
    proof (cases "(time_now s - time_last s) mod 500 = 0")
      case True
      let ?at = "\<lambda>d. (i + 1 + d) mod length ?ps"
      have at: "(running s + 1 + int d) mod n = int (?at d)" for d
      proof -
        have "running s + 1 + int d = int (i + 1 + d)" using i by simp
        then show ?thesis using F by (simp add: zmod_int del: of_nat_add of_nat_Suc)
      qed
      from spec r True obtain d where d: "d < length ?ps"
        "RR_next s n = Some (Inr ((running s + 1 + int d) mod n))"
        "eligible (?ps ! nat ((running s + 1 + int d) mod n))"
        "\<forall>k<d. \<not> eligible (?ps ! nat ((running s + 1 + int k) mod n))" by blast
      have "0 < length ?ps" using i(2) by linarith
      then have lt: "?at k < length ?ps" for k by simp
      have "rr_turn ?as ?l (time_now s) (Some i) = Some (?at d)"
        unfolding rr_turn_def find_Some_iff ring_def
        using d(1,3,4) e(1) [OF lt] by (intro exI [of _ d]) (simp add: at)
      with d(2) [unfolded at] True i show ?thesis
        by (simp add: rr_pick_cur rr_abs_def interval_def)
    next
      case False
      with spec r i show ?thesis by (simp add: rr_pick_cur rr_abs_def interval_def)
    qed
  qed
qed

lemma rr_switch_abs:
  assumes "rr_fine n s" and "live_before (time_now s + 1) (procs s)"
    and "rr_switch E (enc (cur (rr_pick interval (rr_abs s)))) s = Inr s1"
  shows "rr_abs s1 = rr_pick interval (rr_abs s)"
    and "finish_cnt s1 = finish_cnt s" "rr_finishes (trace s1) = rr_finishes (trace s)"
proof -
  let ?x = "enc (cur (rr_pick interval (rr_abs s)))"
  from RR_next_ok [OF assms(1)] RR_next_turn [OF assms(1,2)] have x: "-1 \<le> ?x" "?x < n"
    "?x = -1 \<longrightarrow> running s = -1" by auto
  from rr_switch_ok [OF assms(1) x(1,2), of E] assms(3) have
    f: "procs s1 = procs s" "time_now s1 = time_now s" "running s1 = (if ?x = -1 then running s else ?x)"
      "time_last s1 = (if ?x = -1 \<or> ?x = running s then time_last s else time_now s)"
      "finish_cnt s1 = finish_cnt s" "rr_finishes (trace s1) = rr_finishes (trace s)" by auto
  then show "finish_cnt s1 = finish_cnt s" "rr_finishes (trace s1) = rr_finishes (trace s)" by auto
  show "rr_abs s1 = rr_pick interval (rr_abs s)"
  proof (cases "cur (rr_pick interval (rr_abs s))")
    case None
    then have "s1 = s" using assms(3) by (simp add: rr_switch_def)
    moreover have "rr_pick interval (rr_abs s) = rr_abs s"
      using None by (auto simp: rr_pick_def split: if_splits option.splits)
    ultimately show ?thesis by simp
  next
    case (Some j)
    show ?thesis
    proof (cases "running s = int j")
      case True
      then have "s1 = s" using assms(3) Some by (simp add: rr_switch_def)
      moreover have "rr_pick interval (rr_abs s) = rr_abs s"
        using Some True by (auto simp: rr_pick_def rr_abs_def split: if_splits option.splits)
      ultimately show ?thesis by simp
    next
      case False
      then have c: "cur (rr_abs s) \<noteq> Some j" using assms(1) by (auto simp: rr_abs_def rr_fine_def)
      then have "rr_pick interval (rr_abs s) = (rr_abs s)\<lparr>cur := Some j, since := time_now s\<rparr>"
        using Some unfolding rr_pick_def by (auto simp: rr_abs_def split: if_splits option.splits)
      with f False Some show ?thesis by (simp add: rr_abs_def)
    qed
  qed
qed

lemma rr_tick_abs:
  assumes "rr_tick s = Inr s1"
  shows "rr_abs s1 = mach_tick (rr_abs s)" and "finish_cnt s1 = finish_cnt s"
    and "rr_finishes (trace s1) = rr_finishes (trace s)"
  using assms
  by (auto simp: rr_tick_def rr_abs_def mach_tick_def bindr_eq_Inr arr_get_Inr arr_set_def c_int_Inr Let_def
      map_update list_update_same_conv split: if_splits)

text \<open>One round of the loop is one round of the machine.\<close>

lemma rr_body_abs:
  assumes good: "rr_good E n H s"
  shows "\<exists>b s1. rr_body E n s = Some (Inr (b, s1)) \<and>
    mach_body (rr_pick interval) (rr_abs s) = Inr (b, rr_abs s1) \<and> (\<not> b \<longrightarrow> rr_good E n H s1)"
proof -
  have inv: "rr_inv E n H s" and f: "finish_cnt s = int (length (rr_finishes (trace s)))"
    and E: "forks_ok E" and live: "live_before (time_now s) (procs s)" and T: "rr_table n H s"
    using good by (auto simp: rr_good_def rr_inv_def)
  have r: "-1 \<le> running s" "running s < int (length (procs s))" "n = int (length (procs s))"
    using T by (auto simp: rr_table_def)
  from rr_body_ok [OF inv] obtain b s1 where body: "rr_body E n s = Some (Inr (b, s1))"
    and inv1: "\<not> b \<longrightarrow> rr_inv E n H s1" by blast
  show ?thesis
  proof (cases b)
    case True
    with body have "rr_check n s = Inr (True, s1)"
      by (auto simp: rr_body_def bindo_eq_Some_Inr bindr_eq_Inr split: if_splits)
    note c = rr_check_abs [OF this r f]
    have "mach_body (rr_pick interval) (rr_abs s) = Inr (True, rr_abs s1)"
      unfolding mach_body_break_iff using c(1,3) by simp
    with True body show ?thesis by auto
  next
    case False
    with body have "rr_body E n s = Some (Inr (False, s1))" by simp
    then obtain s2 ps t x s3 where p: "rr_check n s = Inr (False, s2)"
      "rr_spawn E (time_now s2) (procs s2) (trace s2) = Inr (ps, t)"
      "RR_next (s2\<lparr>procs := ps, trace := t\<rparr>) n = Some (Inr x)"
      "rr_switch E x (s2\<lparr>procs := ps, trace := t\<rparr>) = Inr s3" "rr_tick s3 = Inr s1"
      by (rule rr_body_parts)
    let ?s = "s2\<lparr>procs := ps, trace := t\<rparr>"
    note c = rr_check_abs [OF p(1) r f]
    have "\<forall>p\<in>set (procs s). pid p \<noteq> -1 \<longrightarrow> ready p \<le> time_now s" using live by (auto simp: live_before_def)
    from rr_check_ok [OF T this] p(1) have T2: "rr_table n H s2" "\<not> rr_ending s2" by auto
    have live2: "live_before (time_now s2) (procs s2)" using rr_check_fields [OF p(1)] live by simp
    note sp = p(2) [unfolded rr_spawn_def]
    from rr.spawn_ok [OF E] sp have ss: "spawned (time_now s2) (procs s2) ps"
      by (metis Pair_inject sum.inject(2))
    have log: "rr_finishes t = rr_finishes (trace s2)" using rr.spawn_any [OF sp] by (simp add: rr_finishes_def)
    have abs: "rr_abs ?s = rr_abs s2" using spawned_fields [OF ss] log by (simp add: rr_abs_def)
    have fine: "rr_fine n ?s" by (rule rr_spawned_fine [OF T2 live2 ss])
    have live3: "live_before (time_now ?s + 1) (procs ?s)" using spawned_live [OF ss live2] by simp
    have x: "x = enc (cur (rr_pick interval (rr_abs ?s)))" using RR_next_turn [OF fine live3] p(3) by simp
    note sw = rr_switch_abs [OF fine live3 p(4) [unfolded x]] and tk = rr_tick_abs [OF p(5)]
    have "\<not> (ending (rr_abs s) \<and> Suc (length (log (rr_abs s))) = length (arr (rr_abs s)))" using c(3) by simp
    then have "mach_body (rr_pick interval) (rr_abs s) = Inr (False, rr_abs s1)"
      using c(1) sw(1) tk(1) abs by (simp add: mach_body_go)
    moreover have "finish_cnt s1 = int (length (rr_finishes (trace s1)))"
      using c(2) sw(2,3) tk(2,3) log by simp
    ultimately show ?thesis using body False inv1 by (auto simp: rr_good_def)
  qed
qed

text \<open>The whole run.\<close>

lemma RR_schedule_runs:
  assumes "forks_ok E" and "prio_ok E" and "c_qsort (qsort E)" and "rr_workload ps"
  shows "\<exists>qs s tr. RR_main E ps (int (length ps)) [] = Some (Inr s) \<and> mset qs = mset ps \<and>
    sorted (map ready qs) \<and>
    trace s = Printf ''Average waiting time: %.2f\<newline>'' [Quot (wait s) (int (length ps))] # tr \<and>
    rr_finishes tr = rr_plan interval (map ready qs) (map name qs) (map exec qs)"
proof -
  let ?n = "int (length ps)" and ?H = "horizon 0 (jobs_of ps)"
  let ?body = "\<lambda>s. the (rr_body E ?n s)" and ?good = "rr_good E ?n ?H"
  from rr_init_runs [OF assms(1,2,4)] obtain s0 where init: "rr_init E ps [] = Inr s0" ..
  from rr_init_ok [OF assms(3,1,4) init] obtain qs where
    qs: "mset qs = mset ps" "sorted (map ready qs)" "procs s0 = map (\<lambda>p. p\<lparr>pid := -1\<rparr>) qs"
      "time_now s0 = 0" "running s0 = -1" "rr_inv E ?n ?H s0" by blast
  have log0: "finish_cnt s0 = 0 \<and> rr_finishes (trace s0) = []"
    using init forks_okD(4) [OF assms(1)]
    by (auto simp: rr_init_def proc_assign_cpu_def sched_setaffinity_def sched_setscheduler_def
        rr_finishes_def Let_def bindr_eq_Inr split: if_splits)
  then have good0: "?good s0" using qs(6) by (simp add: rr_good_def)
  have abs0: "arr (rr_abs s0) = map ready qs" "nm (rr_abs s0) = map name qs" "left (rr_abs s0) = map exec qs"
    "cur (rr_abs s0) = None" "now (rr_abs s0) = 0" "log (rr_abs s0) = []"
    using qs(3-5) log0 by (simp_all add: rr_abs_def comp_def)
  obtain a where a: "run_loop (mach_body (rr_pick interval)) (rr_abs s0) = Some (Inr a)"
    "log a = rr_plan interval (map ready qs) (map name qs) (map exec qs)"
    using round_robin.follows_plan [OF rr_good_mach [OF good0]] abs0 by (auto simp: ending_def)
  have sim: "\<exists>b s'. ?body s = Inr (b, s') \<and> mach_body (rr_pick interval) (rr_abs s) = Inr (b, rr_abs s') \<and>
      (\<not> b \<longrightarrow> ?good s')" if "?good s" for s
    using rr_body_abs [OF that] by auto
  from run_loop_refines [where body = ?body and I = ?good and \<alpha> = rr_abs, OF sim good0 a(1)]
  obtain u s where u: "reaches ?body s0 u" "?good u" "?body u = Inr (True, s)" "rr_abs s = a" by blast
  have ne: "rr_body E ?n v \<noteq> None" if "?good v" for v using rr_body_abs [OF that] by auto
  have keep: "?good w" if "?good v" "rr_body E ?n v = Some (Inr (False, w))" for v w
    using rr_body_abs [OF that(1)] that(2) by auto
  have "run_loopo (rr_body E ?n) s0 = run_loopo (rr_body E ?n) u"
    by (rule run_loopo_reaches [where I = ?good, OF u(1) good0, THEN conjunct1]) (use ne keep in blast)+
  moreover have "rr_body E ?n u = Some (Inr (True, s))" using ne [OF u(2)] u(3) by auto
  ultimately have "run_loopo (rr_body E ?n) s0 = Some (Inr s)" by (simp add: run_loopo_break)
  moreover have "rr_finishes (trace s) = rr_plan interval (map ready qs) (map name qs) (map exec qs)"
    using a(2) u(4) by (auto simp: rr_abs_def)
  ultimately show ?thesis using init qs(1,2) by (auto simp: RR_main_def intro!: exI [of _ qs])
qed

text \<open>
  C6: the whole schedule of \<open>RR_main\<close> on a proper workload, for any order that the library's sort may
  give to processes with the same ready time: its lines "Finish" announce the processes in the order
  and with the times of the round robin plan with a quantum of 500 units. In the plan a process that
  gets the processor keeps it for 500 units or until it is done; after a full quantum the next one in
  ring order gets it, after a completion the first one of the table.
\<close>

theorem RR_schedule:
  assumes "forks_ok E" and "prio_ok E" and "c_qsort (qsort E)" and "rr_workload ps"
  shows "\<exists>qs s tr. RR_main E ps (int (length ps)) [] = Some (Inr s) \<and> mset qs = mset ps \<and>
    sorted (map ready qs) \<and>
    trace s = Printf ''Average waiting time: %.2f\<newline>'' [Quot (wait s) (int (length ps))] # tr \<and>
    rr_finishes tr = rr_plan 500 (map ready qs) (map name qs) (map exec qs)"
  using RR_schedule_runs [OF assms] by (simp add: interval_def)

theorem RR_schedule_witness:
  "\<exists>s tr. RR_main demo_os quantum_procs 2 [] = Some (Inr s) \<and>
    trace s = Printf ''Average waiting time: %.2f\<newline>'' [Quot (wait s) 2] # tr \<and>
    rr_finishes tr \<in> {[(''P2'', 501), (''P1'', 502)], [(''P2'', 1), (''P1'', 502)]}"
proof -
  have wl: "rr_workload quantum_procs" "length quantum_procs = 2"
    by (simp_all add: rr_workload_def workload_def quantum_procs_def horizon_def last_arrival_def work_def INT_MAX_def)
  obtain qs s tr where s: "RR_main demo_os quantum_procs 2 [] = Some (Inr s)" "mset qs = mset quantum_procs"
    "trace s = Printf ''Average waiting time: %.2f\<newline>'' [Quot (wait s) 2] # tr"
    "rr_finishes tr = rr_plan 500 (map ready qs) (map name qs) (map exec qs)"
    using RR_schedule [of demo_os quantum_procs] wl libc.c_qsort_axioms by auto
  have "qs = quantum_procs \<or> qs = rev quantum_procs"
  proof -
    have "length qs = 2" using s(2) wl(2) by (metis size_mset)
    then obtain a b where "qs = [a, b]" by (auto simp: numeral_2_eq_2 length_Suc_conv)
    with s(2) show ?thesis by (auto simp: quantum_procs_def add_eq_conv_ex)
  qed
  moreover have "rr_plan 500 (map ready quantum_procs) (map name quantum_procs) (map exec quantum_procs) =
    [(''P2'', 501), (''P1'', 502)]" by code_simp
  moreover have "rr_plan 500 (map ready (rev quantum_procs)) (map name (rev quantum_procs)) (map exec (rev quantum_procs)) =
    [(''P2'', 1), (''P1'', 502)]" by code_simp
  ultimately show ?thesis using s by auto
qed

end
