(* ===== verification/Main_Program.thy ===== *)
theory Main_Program
  imports FIFO_Sched SJF_Sched RR_Schedule
begin

text \<open>
  \<^verbatim>\<open>main.c\<close>: reading the workload file with \<^verbatim>\<open>fscanf\<close> and handing the table to one
  of the four schedulers. The conversions are modelled on the characters of the file, with what
  happens to the variables when one fails; the theorems are that a well-formed file is read back
  exactly, what each policy then does from the file to the exit code, and what bad input does.
\<close>

section \<open>fscanf\<close>

definition isspace :: "char \<Rightarrow> bool" where
  "isspace c \<longleftrightarrow> (of_char c :: nat) = 32 \<or> (9 \<le> (of_char c :: nat) \<and> (of_char c :: nat) \<le> 13)"

definition isdigit :: "char \<Rightarrow> bool" where
  "isdigit c \<longleftrightarrow> 48 \<le> (of_char c :: nat) \<and> (of_char c :: nat) \<le> 57"

definition skip_space :: "string \<Rightarrow> string" where
  "skip_space s = dropWhile isspace s"

text \<open>\<open>%s\<close>: what is stored and the rest of the input; nothing is stored at the end of the file.\<close>

definition scan_string :: "string \<Rightarrow> (string \<times> string) option" where
  "scan_string s =
     (let t = skip_space s in
      if t = [] then None else Some (takeWhile (\<lambda>c. \<not> isspace c) t, dropWhile (\<lambda>c. \<not> isspace c) t))"

text \<open>\<open>%d\<close>: the number, if there is one, and the rest; a lone sign is consumed.\<close>

definition digits_value :: "string \<Rightarrow> int" where
  "digits_value ds = foldl (\<lambda>a c. 10 * a + (int (of_char c) - 48)) 0 ds"

fun scan_sign :: "string \<Rightarrow> int \<times> string" where
  "scan_sign [] = (1, [])"
| "scan_sign (c # s) =
     (if c = CHR ''-'' then (-1, s) else if c = CHR ''+'' then (1, s) else (1, c # s))"

definition scan_int :: "string \<Rightarrow> int option \<times> string" where
  "scan_int s =
     (case scan_sign (skip_space s) of (sg, t) \<Rightarrow>
        let ds = takeWhile isdigit t in
        (if ds = [] then None else Some (sg * digits_value ds), dropWhile isdigit t))"

text \<open>A C string ends at its first NUL.\<close>

definition c_str :: "string \<Rightarrow> string" where
  "c_str s = takeWhile (\<lambda>c. c \<noteq> CHR 0x00) s"

section \<open>The program\<close>

text \<open>
  \<open>fscanf(file, "%s %d %d", proc[i].name, &proc[i].ready, &proc[i].exec)\<close>: the conversions stop
  at the first that fails, and what they did not store stays as \<^verbatim>\<open>malloc\<close> left it. The
  array \<open>name\<close> has room for 19 characters and the NUL.
\<close>

definition read_proc :: "process \<Rightarrow> string \<Rightarrow> (process \<times> string) res" where
  "read_proc p s =
     (case scan_string s of
        None \<Rightarrow> Inr (p, [])
      | Some (w, s1) \<Rightarrow>
          if 20 \<le> length w then Inl (Undefined Buffer_Overflow)
          else (let p1 = p\<lparr>name := c_str w\<rparr> in
            case scan_int s1 of
              (None, s2) \<Rightarrow> Inr (p1, s2)
            | (Some r, s2) \<Rightarrow> bindr (c_int r) (\<lambda>r.
                let p2 = p1\<lparr>ready := r\<rparr> in
                case scan_int s2 of
                  (None, s3) \<Rightarrow> Inr (p2, s3)
                | (Some e, s3) \<Rightarrow> bindr (c_int e) (\<lambda>e. Inr (p2\<lparr>exec := e\<rparr>, s3)))))"

fun read_procs :: "os \<Rightarrow> nat \<Rightarrow> nat \<Rightarrow> string \<Rightarrow> process list res" where
  "read_procs E 0 i s = Inr []"
| "read_procs E (Suc k) i s =
     bindr (read_proc (malloc_init E i) s) (\<lambda>(p, s1).
       bindr (read_procs E k (Suc i) s1) (\<lambda>ps. Inr (p # ps)))"

text \<open>
  The policy (16 bytes), the number of processes, the table. A variable that was not stored is
  used uninitialised; a null pointer from \<^verbatim>\<open>malloc\<close> is written to as soon as there is an
  entry to read. With a count that is not positive no entry is read, and what \<^verbatim>\<open>malloc\<close> answers to it,
  a huge size for a negative count, is not looked at.
\<close>

definition read_input :: "os \<Rightarrow> string \<Rightarrow> (string \<times> int \<times> process list) res" where
  "read_input E s =
     (case scan_string s of
        None \<Rightarrow> Inl (Undefined Uninitialised)
      | Some (pol, s1) \<Rightarrow>
          if 16 \<le> length pol then Inl (Undefined Buffer_Overflow)
          else case scan_int s1 of
            (None, s2) \<Rightarrow> Inl (Undefined Uninitialised)
          | (Some n, s2) \<Rightarrow> bindr (c_int n) (\<lambda>n.
              if 0 < n \<and> \<not> malloc_ok E (n * 36) then Inl (Undefined Null_Pointer)
              else bindr (read_procs E (nat n) 0 s2) (\<lambda>ps. Inr (c_str pol, n, ps))))"

text \<open>
  FIFO, RR and SJF begin with \<open>qsort(proc, n_proc, \<dots>)\<close>, whose count is of type \<open>size_t\<close>: a negative
  \<open>n_proc\<close> becomes a huge number of elements, beyond any table. PSJF has no such call.
\<close>

definition qsort_count :: "int \<Rightarrow> unit res" where
  "qsort_count n = (if n < 0 then Inl (Undefined Bad_Index) else Inr ())"

lemma qsort_count_nat [simp]: "qsort_count (int n) = Inr ()"
  by (simp add: qsort_count_def)

definition dispatch :: "os \<Rightarrow> string \<Rightarrow> process list \<Rightarrow> int \<Rightarrow> (int \<times> trace) res option" where
  "dispatch E policy proc n_proc =
     (if policy = ''PSJF'' then
        bindo (PSJF E proc n_proc []) (\<lambda>s. Some (Inr (0, psjf_state.trace s)))
      else if policy = ''RR'' then
        bindo (Some (qsort_count n_proc)) (\<lambda>_. bindo (RR_main E proc n_proc []) (\<lambda>s. Some (Inr (0, rr_state.trace s))))
      else if policy = ''SJF'' then
        bindo (Some (qsort_count n_proc)) (\<lambda>_. bindo (SJF E proc n_proc []) (\<lambda>u. Some (Inr (0, []))))
      else if policy = ''FIFO'' then
        bindo (Some (qsort_count n_proc)) (\<lambda>_. bindo (FIFO E proc n_proc []) (\<lambda>s. Some (Inr (0, fifo_state.trace s))))
      else Some (Inr (0, [Printf ''policy not supported\<newline>'' []])))"

text \<open>
  \<open>main\<close> on the contents of the file \<open>argv[1]\<close>, or \<open>None\<close> when \<^verbatim>\<open>fopen\<close> answers a null pointer. Without
  an argument \<open>argv[1]\<close> is itself a null pointer, which \<^verbatim>\<open>fopen\<close> must not be given; the model starts
  where there is one.
\<close>

definition main :: "os \<Rightarrow> string option \<Rightarrow> (int \<times> trace) res option" where
  "main E file =
     (case file of
        None \<Rightarrow> Some (Inl (Exited 1 [Fprintf_stderr ''error: file open failure\<newline>'']))
      | Some s \<Rightarrow> bindo (Some (read_input E s)) (\<lambda>(policy, n_proc, proc). dispatch E policy proc n_proc))"

section \<open>Writing what is read\<close>

fun show_nat :: "nat \<Rightarrow> string" where
  "show_nat n = (if n < 10 then [char_of (48 + n)] else show_nat (n div 10) @ [char_of (48 + n mod 10)])"

declare show_nat.simps [simp del]

definition show_int :: "int \<Rightarrow> string" where
  "show_int i = (if i < 0 then CHR ''-'' # show_nat (nat (- i)) else show_nat (nat i))"

definition show_proc :: "process \<Rightarrow> string" where
  "show_proc p = name p @ '' '' @ show_int (ready p) @ '' '' @ show_int (exec p) @ ''\<newline>''"

definition show_file :: "string \<Rightarrow> process list \<Rightarrow> string" where
  "show_file policy ps =
     policy @ ''\<newline>'' @ show_int (int (length ps)) @ ''\<newline>'' @ concat (map show_proc ps)"

text \<open>Words that \<open>%s\<close> reads back into a buffer of a given size.\<close>

definition fits :: "nat \<Rightarrow> string \<Rightarrow> bool" where
  "fits k s \<longleftrightarrow> s \<noteq> [] \<and> length s < k \<and> (\<forall>c\<in>set s. \<not> isspace c \<and> c \<noteq> CHR 0x00)"

definition readable :: "process list \<Rightarrow> bool" where
  "readable ps \<longleftrightarrow> (\<forall>p\<in>set ps. fits 20 (name p) \<and> INT_MIN \<le> ready p \<and> ready p \<le> INT_MAX \<and>
     INT_MIN \<le> exec p \<and> exec p \<le> INT_MAX)"

text \<open>The table that comes out: the fields of the file, the others as the memory was.\<close>

definition loaded :: "os \<Rightarrow> nat \<Rightarrow> process list \<Rightarrow> process list" where
  "loaded E i ps = map (\<lambda>(j, p). (malloc_init E j)\<lparr>name := name p, ready := ready p, exec := exec p\<rparr>)
     (enumerate i ps)"

lemma of_char_digit: "(d :: nat) < 10 \<Longrightarrow> (of_char (char_of (48 + d) :: char) :: nat) = 48 + d"
  by (simp add: of_char_of)

lemma isdigit_digit: "(d :: nat) < 10 \<Longrightarrow> isdigit (char_of (48 + d))"
  using of_char_digit [of d] by (simp add: isdigit_def)

lemma show_nat_digits: "(\<forall>c\<in>set (show_nat n). isdigit c) \<and> show_nat n \<noteq> [] \<and> digits_value (show_nat n) = int n"
proof (induction n rule: show_nat.induct)
  case (1 n)
  show ?case
  proof (cases "n < 10")
    case True
    then show ?thesis
      by (subst (1 2 3) show_nat.simps) (simp add: digits_value_def of_char_digit isdigit_digit)
  next
    case False
    then have IH: "\<forall>c\<in>set (show_nat (n div 10)). isdigit c" "digits_value (show_nat (n div 10)) = int (n div 10)"
      using 1 by auto
    have d: "n mod 10 < 10" by simp
    have "digits_value (show_nat (n div 10) @ [char_of (48 + n mod 10)]) = int (n div 10) * 10 + int (n mod 10)"
      using IH(2) of_char_digit [OF d] by (simp add: digits_value_def)
    also have "\<dots> = int n" by (metis of_nat_add of_nat_mult of_nat_numeral div_mult_mod_eq)
    finally show ?thesis
      using False IH(1) isdigit_digit [OF d] by (subst (1 2 3) show_nat.simps) simp
  qed
qed

lemma isdigit_not_space: "isdigit c \<Longrightarrow> \<not> isspace c \<and> c \<noteq> CHR ''-'' \<and> c \<noteq> CHR ''+''"
  by (auto simp: isdigit_def isspace_def)

lemma takeWhile_upto: "\<forall>x\<in>set xs. P x \<Longrightarrow> \<not> P y \<Longrightarrow> takeWhile P (xs @ y # ys) = xs \<and> dropWhile P (xs @ y # ys) = y # ys"
  by (simp add: takeWhile_append2 dropWhile_append2)

lemma skip_space_word: "s \<noteq> [] \<Longrightarrow> \<not> isspace (hd s) \<Longrightarrow> skip_space (s @ t) = s @ t"
  by (cases s) (auto simp: skip_space_def)

lemma skip_space_char: "isspace c \<Longrightarrow> skip_space (c # t) = skip_space t"
  by (simp add: skip_space_def)

lemma scan_string_word:
  assumes "fits k s" and "isspace c"
  shows "scan_string (s @ c # t) = Some (s, c # t)" and "c_str s = s" and "length s < k"
proof -
  have s: "s \<noteq> []" "\<forall>x\<in>set s. \<not> isspace x" using assms(1) by (auto simp: fits_def)
  then have "skip_space (s @ c # t) = s @ c # t" by (intro skip_space_word) auto
  with s takeWhile_upto [of s "\<lambda>c. \<not> isspace c" c t] assms(2)
  show "scan_string (s @ c # t) = Some (s, c # t)" by (simp add: scan_string_def)
  show "c_str s = s" using assms(1) by (auto simp: c_str_def fits_def takeWhile_eq_all_conv)
  show "length s < k" using assms(1) by (simp add: fits_def)
qed

lemma scan_string_space: "isspace c \<Longrightarrow> scan_string (c # t) = scan_string t"
  by (simp add: scan_string_def skip_space_char)

lemma scan_int_show:
  assumes "isspace c" and that: "\<not> isdigit c'"
  shows "scan_int (c # show_int i @ c' # t) = (Some i, c' # t)"
proof -
  have d: "\<forall>x\<in>set (show_nat n). isdigit x" "show_nat n \<noteq> []" "digits_value (show_nat n) = int n" for n
    using show_nat_digits by auto
  have tw: "takeWhile isdigit (show_nat n @ c' # t) = show_nat n"
    "dropWhile isdigit (show_nat n @ c' # t) = c' # t" for n
    using takeWhile_upto [OF d(1) that] by auto
  have sk: "skip_space (show_nat n @ c' # t) = show_nat n @ c' # t" for n
    using d(1,2) [of n] isdigit_not_space by (intro skip_space_word) auto
  have sg: "scan_sign (show_nat n @ c' # t) = (1, show_nat n @ c' # t)" for n
    using d(1,2) [of n] isdigit_not_space by (cases "show_nat n") auto
  show ?thesis
  proof (cases "i < 0")
    case True
    have "skip_space (CHR ''-'' # u) = CHR ''-'' # u" for u by (simp add: skip_space_def isspace_def)
    with True assms tw [of "nat (- i)"] d [of "nat (- i)"] show ?thesis
      by (simp add: scan_int_def show_int_def skip_space_char)
  next
    case False
    with assms tw [of "nat i"] d [of "nat i"] sk [of "nat i"] sg [of "nat i"] show ?thesis
      by (simp add: scan_int_def show_int_def skip_space_char)
  qed
qed

lemma isspace_sep: "isspace (CHR '' '')" "isspace (CHR ''\<newline>'')" "\<not> isdigit (CHR '' '')" "\<not> isdigit (CHR ''\<newline>'')"
  by (simp_all add: isspace_def isdigit_def)

lemma read_proc_show:
  assumes "fits 20 (name p)" and "INT_MIN \<le> ready p" "ready p \<le> INT_MAX" "INT_MIN \<le> exec p" "exec p \<le> INT_MAX"
  shows "read_proc p0 (CHR ''\<newline>'' # show_proc p @ t) =
    Inr (p0\<lparr>name := name p, ready := ready p, exec := exec p\<rparr>, CHR ''\<newline>'' # t)"
proof -
  note w = scan_string_word [OF assms(1) isspace_sep(1)]
  have a: "scan_string (CHR ''\<newline>'' # name p @ CHR '' '' # u) = Some (name p, CHR '' '' # u)" for u
    using w(1) scan_string_space [OF isspace_sep(2)] by simp
  have b: "scan_int (CHR '' '' # show_int i @ CHR '' '' # u) = (Some i, CHR '' '' # u)" for i u
    by (rule scan_int_show [OF isspace_sep(1,3)])
  have c: "scan_int (CHR '' '' # show_int i @ CHR ''\<newline>'' # u) = (Some i, CHR ''\<newline>'' # u)" for i u
    by (rule scan_int_show [OF isspace_sep(1,4)])
  have "show_proc p @ t = name p @ CHR '' '' # show_int (ready p) @ CHR '' '' # show_int (exec p) @ CHR ''\<newline>'' # t"
    by (simp add: show_proc_def)
  with a b c w(2,3) assms(2-) show ?thesis by (simp add: read_proc_def Let_def)
qed

lemma read_procs_show:
  "readable ps \<Longrightarrow>
   read_procs E (length ps) i (CHR ''\<newline>'' # concat (map show_proc ps)) = Inr (loaded E i ps)"
proof (induction ps arbitrary: i)
  case Nil
  then show ?case by (simp add: loaded_def)
next
  case (Cons p ps)
  then have "read_procs E (length ps) (Suc i) (CHR ''\<newline>'' # concat (map show_proc ps)) = Inr (loaded E (Suc i) ps)"
    by (simp add: readable_def)
  with Cons.prems show ?case by (simp add: read_proc_show readable_def loaded_def)
qed

lemma read_input_file:
  assumes "fits 16 policy" and "readable ps" and "int (length ps) \<le> INT_MAX"
    and "malloc_ok E (int (length ps) * 36)"
  shows "read_input E (show_file policy ps) = Inr (policy, int (length ps), loaded E 0 ps)"
proof -
  note w = scan_string_word [OF assms(1) isspace_sep(2)]
  have "show_file policy ps = policy @ CHR ''\<newline>'' # show_int (int (length ps)) @ CHR ''\<newline>'' # concat (map show_proc ps)"
    by (simp add: show_file_def)
  moreover have "scan_int (CHR ''\<newline>'' # show_int i @ CHR ''\<newline>'' # u) = (Some i, CHR ''\<newline>'' # u)" for i u
    by (rule scan_int_show [OF isspace_sep(2,4)])
  moreover have "c_int (int (length ps)) = Inr (int (length ps))"
    using assms(3) by (intro c_int_nonneg) auto
  ultimately show ?thesis
    using w assms(4) read_procs_show [OF assms(2), of E 0] by (simp add: read_input_def)
qed

text \<open>
  C18: reading back: on the text of a workload, with a policy of at most 15 and names of at most 19
  characters and numbers in the range of \<open>int\<close>, the program ends up with exactly that policy, the
  number of processes and their names, ready and execution times; \<open>waiting\<close> and \<open>pid\<close> are
  whatever \<^verbatim>\<open>malloc\<close> gave.
\<close>

theorem read_input_show:
  assumes "fits 16 policy" and "readable ps" and "int (length ps) \<le> INT_MAX"
    and "malloc_ok E (int (length ps) * 36)"
  shows "read_input E (show_file policy ps) = Inr (policy, int (length ps),
    map (\<lambda>(i, p). (malloc_init E i)\<lparr>name := name p, ready := ready p, exec := exec p\<rparr>) (enumerate 0 ps))"
  using read_input_file [OF assms] by (simp add: loaded_def)

section \<open>From the file to the exit code\<close>

lemma loaded_map:
  assumes "\<And>q p. f (q\<lparr>name := name p, ready := ready p, exec := exec p\<rparr>) = f p"
  shows "map f (loaded E i ps) = map f ps"
  using assms by (induction ps arbitrary: i) (auto simp: loaded_def)

lemma loaded_fields:
  "length (loaded E i ps) = length ps" "map name (loaded E i ps) = map name ps"
  "jobs_of (loaded E i ps) = jobs_of ps" "map ready (loaded E i ps) = map ready ps"
  "map exec (loaded E i ps) = map exec ps"
  by (simp add: loaded_def) (rule loaded_map, simp)+

lemma workload_jobs: "workload ps \<longleftrightarrow> jobs_of ps \<noteq> [] \<and> (\<forall>j\<in>set (jobs_of ps). 0 \<le> fst j \<and> 0 < snd j) \<and>
    horizon 0 (jobs_of ps) \<le> INT_MAX"
  by (auto simp: workload_def)

lemma workload_loaded: "workload (loaded E i ps) \<longleftrightarrow> workload ps"
  by (simp add: workload_jobs loaded_fields del: map_is_Nil_conv)

lemma makespan_loaded:
  assumes "workload ps"
  shows "makespan (loaded E i ps) = makespan ps"
proof -
  have "first_done (jobs_of ps) (nat (makespan (loaded E i ps)))"
    using makespan_first_done(2) [of "loaded E i ps"] assms by (simp add: workload_loaded loaded_fields)
  with assms makespan_first_done(1) [of "loaded E i ps"] show ?thesis
    by (intro makespan_unique) (auto simp: workload_loaded)
qed

text \<open>A file that says what to run, and a kernel and library that go along.\<close>

definition good_file :: "os \<Rightarrow> process list \<Rightarrow> bool" where
  "good_file E ps \<longleftrightarrow> readable ps \<and> rr_workload ps \<and> horizon 0 (jobs_of ps) < INT_MAX \<and>
     malloc_ok E (int (length ps) * 36) \<and> (\<forall>i<length ps. waiting (malloc_init E i) \<noteq> 1)"

lemma main_dispatch:
  assumes "good_file E ps" and "fits 16 policy"
  shows "main E (Some (show_file policy ps)) = dispatch E policy (loaded E 0 ps) (int (length (loaded E 0 ps)))"
proof -
  have "int (length ps) \<le> INT_MAX"
    using assms(1) workload_length [of ps] by (simp add: good_file_def rr_workload_def)
  from read_input_file [OF assms(2) _ this] assms(1) show ?thesis
    by (simp add: main_def good_file_def loaded_fields)
qed

lemma loaded_psjf:
  assumes "good_file E ps"
  shows "psjf_workload (loaded E 0 ps)" and "rr_workload (loaded E 0 ps)" and "workload (loaded E 0 ps)"
    and "makespan (loaded E 0 ps) = makespan ps"
proof -
  have "waiting p \<noteq> 1" if "p \<in> set (loaded E 0 ps)" for p
    using that assms by (auto simp: loaded_def good_file_def in_set_enumerate_eq)
  then show "psjf_workload (loaded E 0 ps)" "rr_workload (loaded E 0 ps)" "workload (loaded E 0 ps)"
    "makespan (loaded E 0 ps) = makespan ps"
    using assms makespan_loaded [of ps]
    by (simp_all add: good_file_def psjf_workload_def rr_workload_def workload_loaded loaded_fields)
qed

text \<open>The rounds of the busy-wait that is one unit of time for a policy.\<close>

definition unit_rounds :: "string \<Rightarrow> int" where
  "unit_rounds policy = (if policy = ''PSJF'' then 10000000 else 1000000)"

lemma main_runs:
  assumes "forks_ok E" and "prio_ok E" and "c_qsort (qsort E)" and "good_file E ps"
    and "policy \<in> {''FIFO'', ''SJF'', ''PSJF'', ''RR''}"
  shows "\<exists>tr. main E (Some (show_file policy ps)) =
      Some (if policy = ''SJF'' then Inl (Exited 0 tr) else Inr (0, tr)) \<and> units (unit_rounds policy) tr = makespan ps"
proof -
  let ?ps = "loaded E 0 ps"
  note L = loaded_psjf [OF assms(4)]
  have fit: "fits 16 policy" using assms(5) by (auto simp: fits_def isspace_def)
  note D = main_dispatch [OF assms(4) fit]
  consider "policy = ''FIFO''" | "policy = ''SJF''" | "policy = ''PSJF''" | "policy = ''RR''"
    using assms(5) by auto
  then show ?thesis
  proof cases
    case 1
    from FIFO_runs [OF assms(1,3) L(3)] obtain s where
      s: "FIFO E ?ps (int (length ?ps)) [] = Some (Inr s)" "time_cnt s = makespan ?ps" by blast
    from FIFO_units [OF s(1)] s L(4) 1 show ?thesis unfolding D by (simp add: dispatch_def unit_rounds_def)
  next
    case 2
    from SJF_runs [OF assms(1,3) L(3)] obtain tr where
      "SJF E ?ps (int (length ?ps)) [] = Some (Inl (Exited 0 tr))" "units 1000000 tr = makespan ?ps" by blast
    with L(4) 2 show ?thesis unfolding D by (simp add: dispatch_def unit_rounds_def)
  next
    case 3
    from PSJF_runs [OF assms(1) L(1), of "[]"] obtain s where
      s: "PSJF E ?ps (int (length ?ps)) [] = Some (Inr s)" "PSJF_Sched.time s = makespan ?ps" by blast
    from PSJF_units [OF s(1)] s L(4) 3 show ?thesis unfolding D by (simp add: dispatch_def unit_rounds_def)
  next
    case 4
    from RR_runs [OF assms(1-3) L(2)] obtain s tr where
      s: "RR_main E ?ps (int (length ?ps)) [] = Some (Inr s)" "units 1000000 tr = makespan ?ps"
        "rr_state.trace s = Printf ''Average waiting time: %.2f\<newline>'' [Quot (wait s) (int (length ?ps))] # tr"
      by blast
    with L(4) 4 show ?thesis unfolding D by (simp add: dispatch_def unit_rounds_def)
  qed
qed

text \<open>
  C1: the whole program on a well-formed file, whichever of the four policies it names: it ends with
  status 0 (for SJF by \<open>exit(0)\<close>, for the others by returning from \<open>main\<close>), after spending exactly
  the makespan in units of time, each a busy-wait of ten million rounds under PSJF and of one million
  under the others.
\<close>

theorem main_ends_at_makespan:
  assumes "forks_ok E" and "prio_ok E" and "c_qsort (qsort E)" and "good_file E ps"
    and "policy \<in> {''FIFO'', ''SJF'', ''PSJF'', ''RR''}"
  shows "\<exists>tr. main E (Some (show_file policy ps)) =
      Some (if policy = ''SJF'' then Inl (Exited 0 tr) else Inr (0, tr)) \<and> units (unit_rounds policy) tr = makespan ps"
  using main_runs [OF assms] .

abbreviation row :: "process \<Rightarrow> string \<times> int \<times> int" where
  "row p \<equiv> (name p, ready p, exec p)"

lemma loaded_rows: "mset qs = mset (loaded E i ps) \<Longrightarrow> mset (map row qs) = mset (map row ps)"
proof -
  assume "mset qs = mset (loaded E i ps)"
  then have "mset (map row qs) = mset (map row (loaded E i ps))" by simp
  also have "map row (loaded E i ps) = map row ps" by (rule loaded_map) simp
  finally show ?thesis .
qed

lemma main_fifo_runs:
  assumes "forks_ok E" and "c_qsort (qsort E)" and "good_file E ps"
  shows "\<exists>qs tr. main E (Some (show_file ''FIFO'' ps)) = Some (Inr (0, tr)) \<and>
    mset (map row qs) = mset (map row ps) \<and> sorted (map ready qs) \<and> completions tr = fcfs_plan 0 qs"
proof -
  let ?ps = "loaded E 0 ps"
  have fit: "fits 16 ''FIFO''" by (simp add: fits_def isspace_def)
  from FIFO_runs [OF assms(1,2) loaded_psjf(3) [OF assms(3)]] obtain qs s where
    s: "mset qs = mset ?ps" "sorted (map ready qs)" "FIFO E ?ps (int (length ?ps)) [] = Some (Inr s)"
      "completions (fifo_state.trace s) = fcfs_plan 0 qs" by blast
  have "main E (Some (show_file ''FIFO'' ps)) = Some (Inr (0, fifo_state.trace s))"
    unfolding main_dispatch [OF assms(3) fit] using s(3) by (simp add: dispatch_def)
  with loaded_rows [OF s(1)] s(2,4) show ?thesis by blast
qed

lemma main_sjf_runs:
  assumes "forks_ok E" and "c_qsort (qsort E)" and "good_file E ps"
  shows "\<exists>qs tr. main E (Some (show_file ''SJF'' ps)) = Some (Inl (Exited 0 tr)) \<and>
    mset (map row qs) = mset (map row ps) \<and> sorted (map ready qs) \<and>
    sjf_log tr = np_plan sjf_choice (map ready qs) (map name qs) (length qs) (map exec qs) 0"
proof -
  let ?ps = "loaded E 0 ps"
  have fit: "fits 16 ''SJF''" by (simp add: fits_def isspace_def)
  from SJF_runs [OF assms(1,2) loaded_psjf(3) [OF assms(3)]] obtain qs tr where
    s: "mset qs = mset ?ps" "sorted (map ready qs)" "SJF E ?ps (int (length ?ps)) [] = Some (Inl (Exited 0 tr))"
      "sjf_log tr = np_plan sjf_choice (map ready qs) (map name qs) (length qs) (map exec qs) 0" by blast
  have "main E (Some (show_file ''SJF'' ps)) = Some (Inl (Exited 0 tr))"
    unfolding main_dispatch [OF assms(3) fit] using s(3) by (simp add: dispatch_def)
  with loaded_rows [OF s(1)] s(2,4) show ?thesis by blast
qed

lemma main_rr_runs:
  assumes "forks_ok E" and "prio_ok E" and "c_qsort (qsort E)" and "good_file E ps"
  shows "\<exists>qs tr. main E (Some (show_file ''RR'' ps)) = Some (Inr (0, tr)) \<and>
    mset (map row qs) = mset (map row ps) \<and> sorted (map ready qs) \<and>
    rr_finishes tr = rr_plan 500 (map ready qs) (map name qs) (map exec qs)"
proof -
  let ?ps = "loaded E 0 ps"
  have fit: "fits 16 ''RR''" by (simp add: fits_def isspace_def)
  from RR_schedule_runs [OF assms(1-3) loaded_psjf(2) [OF assms(4)]] obtain qs s tr where
    s: "mset qs = mset ?ps" "sorted (map ready qs)" "RR_main E ?ps (int (length ?ps)) [] = Some (Inr s)"
      "rr_state.trace s = Printf ''Average waiting time: %.2f\<newline>'' [Quot (wait s) (int (length ?ps))] # tr"
      "rr_finishes tr = rr_plan interval (map ready qs) (map name qs) (map exec qs)" by blast
  have "main E (Some (show_file ''RR'' ps)) = Some (Inr (0, rr_state.trace s))"
    unfolding main_dispatch [OF assms(4) fit] using s(3) by (simp add: dispatch_def)
  moreover have "rr_finishes (rr_state.trace s) = rr_plan 500 (map ready qs) (map name qs) (map exec qs)"
    using s(5) unfolding s(4) by (simp add: rr_finishes_def interval_def)
  ultimately show ?thesis using loaded_rows [OF s(1)] s(2) by blast
qed

text \<open>What a policy announces, and what it plans for a table in the order of the library's sort.\<close>

definition announced :: "string \<Rightarrow> trace \<Rightarrow> (string \<times> int) list" where
  "announced policy tr =
     (if policy = ''FIFO'' then completions tr else if policy = ''SJF'' then sjf_log tr else rr_finishes tr)"

definition planned :: "string \<Rightarrow> process list \<Rightarrow> (string \<times> int) list" where
  "planned policy qs =
     (if policy = ''FIFO'' then fcfs_plan 0 qs
      else if policy = ''SJF'' then np_plan sjf_choice (map ready qs) (map name qs) (length qs) (map exec qs) 0
      else rr_plan 500 (map ready qs) (map name qs) (map exec qs))"

text \<open>
  C8: the whole program under FIFO, SJF and RR: from the text of a workload to the announced ends,
  which are, in order and time, those that the plan of the policy gives for the file's processes,
  taken in some order sorted by ready time.
\<close>

theorem main_prints_plan:
  assumes "forks_ok E" and "prio_ok E" and "c_qsort (qsort E)" and "good_file E ps"
    and "policy \<in> {''FIFO'', ''SJF'', ''RR''}"
  shows "\<exists>qs tr. main E (Some (show_file policy ps)) =
      Some (if policy = ''SJF'' then Inl (Exited 0 tr) else Inr (0, tr)) \<and>
    mset (map row qs) = mset (map row ps) \<and> sorted (map ready qs) \<and>
    announced policy tr = planned policy qs"
proof -
  consider "policy = ''FIFO''" | "policy = ''SJF''" | "policy = ''RR''" using assms(5) by auto
  then show ?thesis
  proof cases
    case 1
    then show ?thesis using main_fifo_runs [OF assms(1,3,4)] by (auto simp: announced_def planned_def)
  next
    case 2
    then show ?thesis using main_sjf_runs [OF assms(1,3,4)] by (auto simp: announced_def planned_def)
  next
    case 3
    then show ?thesis using main_rr_runs [OF assms(1-4)] by (auto simp: announced_def planned_def)
  qed
qed

section \<open>Bad input\<close>

lemma scan_string_exact:
  assumes "\<forall>c\<in>set s. \<not> isspace c" and "s \<noteq> []" and "isspace c"
  shows "scan_string (s @ c # t) = Some (s, c # t)"
proof -
  have "skip_space (s @ c # t) = s @ c # t" using assms(1,2) by (intro skip_space_word) auto
  with assms takeWhile_upto [of s "\<lambda>c. \<not> isspace c" c t] show ?thesis by (simp add: scan_string_def)
qed

text \<open>
  C38: what \<open>main\<close> does with bad input: a file that does not open gives a message and status 1;
  a policy of 16 characters or more overflows its buffer; without a policy or without a number of
  processes it goes on with uninitialised variables.
\<close>

theorem main_bad_input:
  assumes "\<forall>c\<in>set pol. \<not> isspace c" and "pol \<noteq> []"
  shows "main E None = Some (Inl (Exited 1 [Fprintf_stderr ''error: file open failure\<newline>''])) \<and>
    (16 \<le> length pol \<longrightarrow> main E (Some (pol @ CHR ''\<newline>'' # t)) = Some (Inl (Undefined Buffer_Overflow))) \<and>
    main E (Some []) = Some (Inl (Undefined Uninitialised)) \<and>
    (length pol < 16 \<longrightarrow> main E (Some (pol @ CHR ''\<newline>'' # [])) = Some (Inl (Undefined Uninitialised)))"
proof -
  note a = scan_string_exact [OF assms isspace_sep(2)]
  have "scan_int [CHR ''\<newline>''] = (None, [])"
    by (simp add: scan_int_def skip_space_def isspace_sep)
  moreover have "scan_string [] = None" by (simp add: scan_string_def skip_space_def)
  ultimately show ?thesis using a by (simp add: main_def read_input_def)
qed

text \<open>
  A negative number of processes is undefined under the policies that sort.
\<close>

lemma main_negative_count:
  assumes "policy \<in> {''FIFO'', ''SJF'', ''RR''}" and "n < 0"
  shows "dispatch E policy [] n = Some (Inl (Undefined Bad_Index))"
  using assms by (auto simp: dispatch_def qsort_count_def)

text \<open>
  A policy that is none of the four, in any spelling such as lower case, is reported on the
  standard output and the program ends with status 0, the status of success.
\<close>

lemma main_unknown_policy:
  assumes "good_file E ps" and "fits 16 policy" and "policy \<notin> {''FIFO'', ''SJF'', ''PSJF'', ''RR''}"
  shows "main E (Some (show_file policy ps)) = Some (Inr (0, [Printf ''policy not supported\<newline>'' []]))"
  using main_dispatch [OF assms(1,2)] assms(3) by (simp add: dispatch_def)

text \<open>
  When the file ends early, the missing entries of the table stay as \<^verbatim>\<open>malloc\<close> left
  them, and nothing is reported.
\<close>

lemma read_procs_short_file:
  shows "read_procs E k i [] = Inr (map (malloc_init E) [i..<i + k])"
proof (induction k arbitrary: i)
  case (Suc k)
  have "read_proc p [] = Inr (p, [])" for p
    by (simp add: read_proc_def scan_string_def skip_space_def)
  with Suc show ?case by (simp add: upt_conv_Cons del: upt_Suc)
qed simp

section \<open>Witnesses\<close>

lemma demo_text: "show_file ''FIFO'' demo_procs = ''FIFO\<newline>2\<newline>P2 1 1\<newline>P1 0 2\<newline>''"
  by code_simp

lemma readable_demo [simp]: "readable demo_procs"
  by (simp add: readable_def demo_procs_def fits_def isspace_def INT_MAX_def INT_MIN_def)

lemma good_file_demo [simp]: "good_file demo_os demo_procs"
proof -
  have "horizon 0 (jobs_of demo_procs) = 4"
    by (simp add: demo_procs_def horizon_def last_arrival_def work_def)
  then show ?thesis by (simp add: good_file_def demo_os_def INT_MAX_def)
qed

lemma malloc_ok_demo [simp]: "malloc_ok demo_os n"
  by (simp add: demo_os_def)

theorem read_input_show_witness:
  "read_input demo_os ''FIFO\<newline>2\<newline>P2 1 1\<newline>P1 0 2\<newline>'' = Inr (''FIFO'', 2,
     [\<lparr>name = ''P2'', ready = 1, exec = 1, waiting = 0, pid = 0\<rparr>,
      \<lparr>name = ''P1'', ready = 0, exec = 2, waiting = 0, pid = 0\<rparr>])"
proof -
  have "fits 16 ''FIFO''" by (simp add: fits_def isspace_def)
  from read_input_show [OF this readable_demo, of demo_os] have
    "read_input demo_os (show_file ''FIFO'' demo_procs) = Inr (''FIFO'', 2,
       map (\<lambda>(i, p). (malloc_init demo_os i)\<lparr>name := name p, ready := ready p, exec := exec p\<rparr>) (enumerate 0 demo_procs))"
    by (simp add: INT_MAX_def)
  then show ?thesis unfolding demo_text by (simp add: demo_procs_def demo_os_def)
qed

theorem main_ends_at_makespan_witness:
  "\<exists>tr. main demo_os (Some (show_file ''SJF'' demo_procs)) = Some (Inl (Exited 0 tr)) \<and> units 1000000 tr = 3"
  using main_ends_at_makespan [of demo_os demo_procs "''SJF''"] libc.c_qsort_axioms by (simp add: unit_rounds_def)

theorem main_prints_plan_witness:
  "\<exists>qs tr. main demo_os (Some ''RR\<newline>2\<newline>P2 1 1\<newline>P1 0 2\<newline>'') = Some (Inr (0, tr)) \<and>
    sorted (map ready qs) \<and> announced ''RR'' tr = planned ''RR'' qs"
proof -
  have "show_file ''RR'' demo_procs = ''RR\<newline>2\<newline>P2 1 1\<newline>P1 0 2\<newline>''"
    by (simp add: show_file_def show_proc_def show_int_def show_nat.simps demo_procs_def
      char_of_def bit_Suc_0_iff)
  with main_prints_plan [of demo_os demo_procs "''RR''"] libc.c_qsort_axioms show ?thesis by auto
qed

theorem main_bad_input_witness:
  "main demo_os (Some ''FIRST_COME_FIRST_SERVED\<newline>1\<newline>'') = Some (Inl (Undefined Buffer_Overflow)) \<and>
   main demo_os (Some ''FIFO\<newline>'') = Some (Inl (Undefined Uninitialised))"
  using main_bad_input [of "''FIRST_COME_FIRST_SERVED''" demo_os "''1\<newline>''"] main_bad_input [of "''FIFO''" demo_os]
  by (simp add: isspace_def)

end
