(* ===== verification/Schedules_Compared.thy ===== *)
theory Schedules_Compared
  imports Main_Program
begin

text \<open>
  The four schedulers side by side, on the same workload: every one of them produces a legal schedule
  of the same jobs, so the optimality of shortest remaining time first applies to \<open>PSJF\<close> against each
  of the other three.
\<close>

section \<open>Every work-conserving loop is a schedule\<close>

lemma served_schedule:
  assumes "any_schedule js k ks" and "served (int k) ks ks'"
  shows "any_schedule js (Suc k) ks'"
  using assms by (auto simp: served_def intro: any_schedule.intros)

context work_conserving
begin

lemma reaches_schedule:
  assumes "reaches body s t" and "I s" and "clock s = 0"
  shows "0 \<le> clock t \<and> any_schedule (jobs s) (nat (clock t)) (jobs t)"
  using assms
proof (induction rule: reaches.induct)
  case start
  then show ?case by (simp add: any_schedule.begin_schedule)
next
  case (iterate s t u)
  have "I t" using iterate by (blast intro: reaches_I)
  note g = goes [OF this iterate.hyps(2)]
  have IH: "0 \<le> clock t" "any_schedule (jobs s) (nat (clock t)) (jobs t)" using iterate by auto
  with g have "any_schedule (jobs s) (Suc (nat (clock t))) (jobs u)" by (auto intro: served_schedule)
  moreover have "nat (clock u) = Suc (nat (clock t))" using g IH(1) by simp
  ultimately show ?case using g IH(1) by simp
qed

end

text \<open>FIFO and SJF are work conserving because the machine they refine is.\<close>

interpretation fifo_loop: work_conserving "fifo_body E n" "\<lambda>s. jobs_of (fifo_state.procs s)" time_cnt
  "fifo_inv E n" for E n
proof
  fix s assume "fifo_inv E n s"
  then show "\<exists>b s'. fifo_body E n s = Inr (b, s')" using fifo_body_refines by blast
next
  fix s s' assume inv: "fifo_inv E n s" and "fifo_body E n s = Inr (True, s')"
  with fifo_body_refines [OF inv] have "np_body fcfs_choice (fifo_abs s) = Inr (True, fifo_abs s')" by auto
  then show "work (jobs_of (fifo_state.procs s)) = 0"
    using fcfs.wc.stops [of "fifo_abs s"] inv by (simp add: fifo_inv_def fifo_abs_jobs)
next
  fix s s' assume inv: "fifo_inv E n s" and "fifo_body E n s = Inr (False, s')"
  with fifo_body_refines [OF inv] have "np_body fcfs_choice (fifo_abs s) = Inr (False, fifo_abs s')"
    "fifo_inv E n s'" by auto
  then show "fifo_inv E n s' \<and> 0 < work (jobs_of (fifo_state.procs s)) \<and> time_cnt s' = time_cnt s + 1 \<and>
      served (time_cnt s) (jobs_of (fifo_state.procs s)) (jobs_of (fifo_state.procs s'))"
    using fcfs.wc.goes [of "fifo_abs s" "fifo_abs s'"] inv
    by (simp add: fifo_inv_def fifo_abs_jobs) (simp add: fifo_abs_def)
next
  fix s j assume "fifo_inv E n s" and "j \<in> set (jobs_of (fifo_state.procs s))"
  then show "0 \<le> snd j"
    using fcfs.wc.nonneg [of "fifo_abs s" j] by (simp add: fifo_inv_def fifo_abs_jobs)
qed

interpretation sjf_loop: work_conserving "sjf_body E n" "\<lambda>s. jobs_of (sjf_state.procs s)" ntime
  "sjf_inv E n" for E n
proof
  fix s assume "sjf_inv E n s"
  then show "\<exists>b s'. sjf_body E n s = Inr (b, s')" using sjf_body_refines by blast
next
  fix s s' assume inv: "sjf_inv E n s" and "sjf_body E n s = Inr (True, s')"
  with sjf_body_refines [OF inv] have "np_body sjf_choice (sjf_abs s) = Inr (True, sjf_abs s')" by auto
  then show "work (jobs_of (sjf_state.procs s)) = 0"
    using shortest.wc.stops [of "sjf_abs s"] inv by (simp add: sjf_inv_def sjf_abs_jobs)
next
  fix s s' assume inv: "sjf_inv E n s" and "sjf_body E n s = Inr (False, s')"
  with sjf_body_refines [OF inv] have "np_body sjf_choice (sjf_abs s) = Inr (False, sjf_abs s')"
    "sjf_inv E n s'" by auto
  then show "sjf_inv E n s' \<and> 0 < work (jobs_of (sjf_state.procs s)) \<and> ntime s' = ntime s + 1 \<and>
      served (ntime s) (jobs_of (sjf_state.procs s)) (jobs_of (sjf_state.procs s'))"
    using shortest.wc.goes [of "sjf_abs s" "sjf_abs s'"] inv
    by (simp add: sjf_inv_def sjf_abs_jobs) (simp add: sjf_abs_def)
next
  fix s j assume "sjf_inv E n s" and "j \<in> set (jobs_of (sjf_state.procs s))"
  then show "0 \<le> snd j"
    using shortest.wc.nonneg [of "sjf_abs s" j] by (simp add: sjf_inv_def sjf_abs_jobs)
qed

section \<open>The order of the table does not matter\<close>

lemma any_schedule_perm:
  assumes "any_schedule js k ks" and "mset js' = mset js"
  shows "\<exists>ks'. any_schedule js' k ks' \<and> mset ks' = mset ks"
  using assms(1)
proof (induction rule: any_schedule.induct)
  case begin_schedule
  show ?case using assms(2) by (blast intro: any_schedule.begin_schedule)
next
  case (idle_unit k ks)
  then show ?case by (blast intro: any_schedule.idle_unit)
next
  case (serve_unit k ks i)
  then obtain ks' where ks': "any_schedule js' k ks'" "mset ks' = mset ks" by blast
  then have "ks ! i \<in> set ks'" using serve_unit.hyps(2) by (metis mset_eq_setD nth_mem)
  then obtain i' where i': "i' < length ks'" "ks' ! i' = ks ! i" by (auto simp: in_set_conv_nth)
  let ?l = "ks'[i' := (fst (ks' ! i'), snd (ks' ! i') - 1)]"
  have "any_schedule js' (Suc k) ?l"
    using serve_unit.hyps(3,4) i' by (intro any_schedule.serve_unit [OF ks'(1)]) auto
  moreover have "mset ?l = mset (ks[i := (fst (ks ! i), snd (ks ! i) - 1)])"
    using i' serve_unit.hyps(2) ks'(2) by (simp add: mset_update)
  ultimately show ?case by blast
qed

lemma completed_perm: "mset js = mset ks \<Longrightarrow> completed js = completed ks"
  unfolding completed_def by (metis mset_filter size_mset)

lemma completed_unfinished: "int (completed (jobs_of ps)) = int (length ps) - unfinished (map exec ps)"
  by (induction ps) (auto simp: completed_def unfinished_def)

text \<open>What \<open>PSJF\<close> has finished against any schedule of a permutation of its table.\<close>

lemma psjf_ahead:
  assumes "forks_ok E" and "psjf_workload ps" and "psjf_init E ps t = Inr s0"
    and "reaches (psjf_body E (int (length ps))) s0 s"
    and "any_schedule (jobs_of qs) (nat (psjf_state.time s)) (jobs_of rs)" and "mset qs = mset ps"
  shows "int (length rs) - unfinished (map exec rs) \<le> finished_process s"
proof -
  have "mset (jobs_of ps) = mset (jobs_of qs)" using assms(6) by simp
  from any_schedule_perm [OF assms(5) this] obtain ks where
    ks: "any_schedule (jobs_of ps) (nat (psjf_state.time s)) ks" "mset ks = mset (jobs_of rs)" by blast
  from psjf_init_ok [OF assms(1,2), of t] assms(3) have
    s0: "psjf_state.procs s0 = ps" "psjf_state.time s0 = 0" "psjf_inv E (int (length ps)) s0" by auto
  note s = psjf_srtf [OF s0(3,2) assms(4)]
  have "\<forall>j\<in>set (jobs_of ps). 0 \<le> snd j"
    using assms(2) by (auto simp: psjf_workload_def workload_def)
  from srtf_optimal [OF this ks(1)] have "completed (jobs_of rs) \<le> completed (jobs_of (psjf_state.procs s))"
    using s s0(1) completed_perm [OF ks(2)] by simp
  moreover have "finished_process s = int (completed (jobs_of (psjf_state.procs s)))"
    using s completed_unfinished [of "psjf_state.procs s"] unfolding psjf_inv_def by linarith
  ultimately show ?thesis using completed_unfinished [of rs] by simp
qed

section \<open>PSJF against the others\<close>

lemma np_finished: "mach_inv a \<Longrightarrow> int (length (log a)) \<le> int (length (arr a)) - unfinished (left a)"
  by (cases "ending a") (simp_all add: mach_inv_def)

text \<open>
  C3: the four schedulers started on the same workload and stopped at the top of a round when their
  clocks agree: \<open>PSJF\<close> has finished at least as many processes as \<open>FIFO\<close>, as \<open>SJF\<close> and as \<open>RR\<close>
  have counted, whatever the clock shows.
\<close>

theorem PSJF_leads:
  assumes "forks_ok E" and "c_qsort (qsort E)" and "psjf_workload ps" and "rr_workload ps"
    and "psjf_init E ps [] = Inr s0" and "reaches (psjf_body E (int (length ps))) s0 s"
  shows "(\<forall>f0 f. fifo_init E ps [] = Inr f0 \<longrightarrow> reaches (fifo_body E (int (length ps))) f0 f \<longrightarrow>
      time_cnt f = psjf_state.time s \<longrightarrow> finish f \<le> finished_process s) \<and>
    (\<forall>j0 j. sjf_init E ps [] = Inr j0 \<longrightarrow> reaches (sjf_body E (int (length ps))) j0 j \<longrightarrow>
      ntime j = psjf_state.time s \<longrightarrow> sjf_state.finish_cnt j \<le> finished_process s) \<and>
    (\<forall>r0 r. rr_init E ps [] = Inr r0 \<longrightarrow> reaches (\<lambda>s. the (rr_body E (int (length ps)) s)) r0 r \<longrightarrow>
      time_now r = psjf_state.time s \<longrightarrow> rr_state.finish_cnt r \<le> finished_process s)"
proof (intro conjI allI impI)
  let ?n = "int (length ps)"
  have wl: "workload ps" using assms(3) by (simp add: psjf_workload_def)
  note ahead = psjf_ahead [OF assms(1,3,5,6)]
  {
    fix f0 f assume init: "fifo_init E ps [] = Inr f0" and r: "reaches (fifo_body E ?n) f0 f"
      and t: "time_cnt f = psjf_state.time s"
    from fifo_init_ok [OF assms(2,1), of ps "[]"] init obtain qs tr where qs: "mset qs = mset ps"
      "f0 = \<lparr>fifo_state.procs = map (\<lambda>p. p\<lparr>pid := -1\<rparr>) qs, running = -1, finish = 0, time_cnt = 0, trace = tr\<rparr>"
      "completions tr = []" by (auto simp: completions_def)
    have wq: "workload qs" using workload_perm [OF qs(1) [symmetric] wl] .
    have "length qs = length ps" using qs(1) by (metis size_mset)
    then have i0: "fifo_inv E ?n f0" using fifo_start_inv(1) [OF wq assms(1) qs(3)] qs(2) by simp
    have "any_schedule (jobs_of qs) (nat (psjf_state.time s)) (jobs_of (fifo_state.procs f))"
      using fifo_loop.reaches_schedule [OF r i0] t by (simp add: qs(2) comp_def)
    from ahead [OF this qs(1)] have "int (length (fifo_state.procs f)) - unfinished (map exec (fifo_state.procs f))
        \<le> finished_process s" .
    moreover have "fifo_inv E ?n f" by (rule fifo_loop.reaches_I [OF r i0])
    ultimately show "finish f \<le> finished_process s"
      using np_finished [of "fifo_abs f"] by (simp add: fifo_inv_def) (simp add: fifo_abs_def)
  }
  {
    fix j0 j assume init: "sjf_init E ps [] = Inr j0" and r: "reaches (sjf_body E ?n) j0 j"
      and t: "ntime j = psjf_state.time s"
    from sjf_init_ok [OF assms(2,1) wl] init obtain qs where qs: "mset qs = mset ps"
      "sjf_inv E ?n j0" "sjf_abs j0 = np_init qs" "sjf_state.procs j0 = map (\<lambda>p. p\<lparr>pid := -1\<rparr>) qs" by auto
    have "ntime j0 = 0" using qs(3) by (simp add: sjf_abs_def np_init_def)
    from sjf_loop.reaches_schedule [OF r qs(2) this] t
    have "any_schedule (jobs_of qs) (nat (psjf_state.time s)) (jobs_of (sjf_state.procs j))"
      by (simp add: qs(4) comp_def)
    from ahead [OF this qs(1)] have "int (length (sjf_state.procs j)) - unfinished (map exec (sjf_state.procs j))
        \<le> finished_process s" .
    moreover have "sjf_inv E ?n j" by (rule sjf_loop.reaches_I [OF r qs(2)])
    ultimately show "sjf_state.finish_cnt j \<le> finished_process s"
      using np_finished [of "sjf_abs j"] by (simp add: sjf_inv_def) (simp add: sjf_abs_def)
  }
  {
    fix r0 r assume init: "rr_init E ps [] = Inr r0" and rr: "reaches (\<lambda>s. the (rr_body E ?n s)) r0 r"
      and t: "time_now r = psjf_state.time s"
    from rr_init_ok [OF assms(2,1,4) init] obtain qs where qs: "mset qs = mset ps"
      "rr_state.procs r0 = map (\<lambda>p. p\<lparr>pid := -1\<rparr>) qs" "time_now r0 = 0"
      "rr_inv E ?n (horizon 0 (jobs_of ps)) r0" by blast
    from rr_loop.reaches_schedule [OF rr qs(4,3)] t
    have "any_schedule (jobs_of qs) (nat (psjf_state.time s)) (jobs_of (rr_state.procs r))"
      by (simp add: qs(2) comp_def)
    from ahead [OF this qs(1)] have "int (length (rr_state.procs r)) - unfinished (map exec (rr_state.procs r))
        \<le> finished_process s" .
    moreover have "rr_inv E ?n (horizon 0 (jobs_of ps)) r" by (rule rr_loop.reaches_I [OF rr qs(4)])
    ultimately show "rr_state.finish_cnt r \<le> finished_process s"
      by (auto simp: rr_inv_def rr_table_def split: if_splits)
  }
qed

text \<open>On the demonstration workload, two units after the start.\<close>

lemma fifo_demo_reach:
  "\<exists>f0 f. fifo_init demo_os demo_procs [] = Inr f0 \<and> reaches (fifo_body demo_os 2) f0 f \<and> time_cnt f = 2"
proof -
  let ?init = "projr (fifo_init demo_os demo_procs [])"
  let ?r = "snd (projr (fifo_body demo_os 2 ?init))"
  let ?s = "snd (projr (fifo_body demo_os 2 ?r))"
  have init: "fifo_init demo_os demo_procs [] = Inr ?init" by (rule res_ok) code_simp
  have a: "fifo_body demo_os 2 ?init = Inr (False, ?r)" by (rule res_go) code_simp+
  have b: "fifo_body demo_os 2 ?r = Inr (False, ?s)" by (rule res_go) code_simp+
  have "reaches (fifo_body demo_os 2) ?init ?s"
    by (rule reaches_step [where body = "fifo_body demo_os 2", OF a],
        rule reaches_step [where body = "fifo_body demo_os 2", OF b], rule reaches.start)
  moreover have "time_cnt ?s = 2" by code_simp
  ultimately show ?thesis using init by blast
qed

theorem PSJF_leads_witness:
  "\<exists>s0 s f0 f. psjf_init demo_os demo_procs [] = Inr s0 \<and> reaches (psjf_body demo_os 2) s0 s \<and>
    fifo_init demo_os demo_procs [] = Inr f0 \<and> reaches (fifo_body demo_os 2) f0 f \<and>
    time_cnt f = 2 \<and> finished_process s = 1 \<and> finish f \<le> 1"
proof -
  from psjf_demo_reach obtain s0 s where s: "psjf_init demo_os demo_procs [] = Inr s0"
    "reaches (psjf_body demo_os 2) s0 s" "psjf_state.time s = 2" "finished_process s = 1" by blast
  from fifo_demo_reach obtain f0 f where f: "fifo_init demo_os demo_procs [] = Inr f0"
    "reaches (fifo_body demo_os 2) f0 f" "time_cnt f = 2" by blast
  have "finish f \<le> finished_process s"
    using PSJF_leads [of demo_os demo_procs s0 s] s f libc.c_qsort_axioms by simp
  with s f show ?thesis by auto
qed

end
