(* ===== verification/Preemptive.thy ===== *)
theory Preemptive
  imports Machine Shortest_Remaining
begin

text \<open>
  Shortest remaining time first on the abstract machine, choosing anew in every round. Its decision
  stands until the job ends or the next job arrives, which gives a plan that jumps from event to
  event. The machine passes through the states of \<open>srtf_run\<close>, and its plan tells when each job ends.
\<close>

definition sr_choice :: "int list \<Rightarrow> int list \<Rightarrow> int \<Rightarrow> nat option" where
  "sr_choice as l t = best (\<lambda>i. as ! i \<le> t \<and> 0 < l ! i) (\<lambda>i. l ! i) (length as)"

definition sr_pick :: "mach \<Rightarrow> mach" where
  "sr_pick a = a\<lparr>cur := sr_choice (arr a) (left a) (now a)\<rparr>"

definition sr_slice :: "int list \<Rightarrow> int list \<Rightarrow> int \<Rightarrow> nat \<Rightarrow> int" where
  "sr_slice as l t i =
     (case filter (\<lambda>x. t < x) as of [] \<Rightarrow> l ! i | x # xs \<Rightarrow> min (l ! i) (Min (set (x # xs)) - t))"

abbreviation sr_plan :: "int list \<Rightarrow> string list \<Rightarrow> int list \<Rightarrow> (string \<times> int) list" where
  "sr_plan as ns l \<equiv> plan (\<lambda>as l t c. sr_choice as l t) sr_slice as ns l None 0"

lemma sr_choice_Some:
  "sr_choice as l t = Some i \<Longrightarrow> i < length as \<and> as ! i \<le> t \<and> 0 < l ! i \<and>
    (\<forall>j<length as. as ! j \<le> t \<longrightarrow> 0 < l ! j \<longrightarrow> l ! i \<le> l ! j) \<and>
    (\<forall>j<i. as ! j \<le> t \<longrightarrow> 0 < l ! j \<longrightarrow> l ! i < l ! j)"
  unfolding sr_choice_def by (drule best_Some) auto

lemma sr_choice_None: "sr_choice as l t = None \<longleftrightarrow> (\<forall>i<length as. as ! i \<le> t \<longrightarrow> \<not> 0 < l ! i)"
  unfolding sr_choice_def best_None by auto

text \<open>Nobody arrives within a slice.\<close>

lemma sr_slice_arrivals:
  assumes "k < sr_slice as l t i" and "x \<in> set as" and "x \<le> t + k"
  shows "x \<le> t"
proof (rule ccontr)
  assume "\<not> x \<le> t"
  then have x: "x \<in> set (filter (\<lambda>x. t < x) as)" using assms(2) by simp
  then obtain y ys where f: "filter (\<lambda>x. t < x) as = y # ys" by (cases "filter (\<lambda>x. t < x) as") auto
  have "Min (set (y # ys)) \<le> x" using x unfolding f by (intro Min_le) auto
  with assms(1,3) show False by (simp add: sr_slice_def f)
qed

lemma sr_slice_pos:
  assumes "0 < l ! i"
  shows "0 < sr_slice as l t i"
proof (cases "filter (\<lambda>x. t < x) as")
  case (Cons y ys)
  have "Min (set (y # ys)) \<in> set (y # ys)" by (intro Min_in) auto
  then have "Min (set (y # ys)) \<in> set (filter (\<lambda>x. t < x) as)" unfolding Cons .
  then have "t < Min (set (y # ys))" by simp
  with assms show ?thesis by (simp add: sr_slice_def Cons)
qed (use assms in \<open>simp add: sr_slice_def\<close>)

lemma sr_slice_le: "sr_slice as l t i \<le> l ! i"
  by (simp add: sr_slice_def split: list.split)

interpretation shortest_remaining: sliced sr_pick "\<lambda>as l t c. sr_choice as l t" sr_slice "\<lambda>a. True"
proof
  fix a :: mach
  show "arr (sr_pick a) = arr a" "nm (sr_pick a) = nm a" "left (sr_pick a) = left a"
    "now (sr_pick a) = now a" "log (sr_pick a) = log a" by (simp_all add: sr_pick_def)
  show "nobody a" if "mach_inv a" "cur (sr_pick a) = None"
  proof (intro allI impI)
    fix i assume i: "i < length (arr a)" "arr a ! i \<le> now a"
    then have "\<not> 0 < left a ! i" using that(2) by (simp add: sr_pick_def sr_choice_None)
    moreover have "left a ! i \<in> set (left a)" using i(1) that(1) by (simp add: mach_inv_def)
    then have "0 \<le> left a ! i" using that(1) by (simp add: mach_inv_def)
    ultimately show "left a ! i = 0" by simp
  qed
  show "i < length (arr a) \<and> arr a ! i \<le> now a \<and> left a ! i \<noteq> 0" if "cur (sr_pick a) = Some i" for i
    using that by (auto simp: sr_pick_def dest: sr_choice_Some)
  show "sr_pick a = a" if "cur a = None" "nobody a"
  proof -
    have "sr_choice (arr a) (left a) (now a) = None" using that(2) by (auto simp: sr_choice_None)
    with that(1) show ?thesis by (simp add: sr_pick_def)
  qed
  show "0 < sr_slice (arr a) (left a) (now a) i \<and> sr_slice (arr a) (left a) (now a) i \<le> left a ! i"
    if "cur (sr_pick a) = Some i" for i
    using that by (auto simp: sr_pick_def sr_slice_le dest!: sr_choice_Some intro: sr_slice_pos)
  show "sr_pick (advance k i (sr_pick a)) = advance k i (sr_pick a)"
    if "mach_inv a" "cur (sr_pick a) = Some i" "0 < k" "k < sr_slice (arr a) (left a) (now a) i" for i k
  proof -
    let ?as = "arr a" and ?l = "left a" and ?t = "now a" and ?l' = "(left a)[i := left a ! i - k]"
    have c: "sr_choice ?as ?l ?t = Some i" using that(2) by (simp add: sr_pick_def)
    note b = sr_choice_Some [OF c]
    have len: "length ?l = length ?as" using that(1) by (simp add: mach_inv_def)
    have k: "k < ?l ! i" using that(4) sr_slice_le [of ?as ?l ?t i] by linarith
    have here: "?as ! j \<le> ?t \<and> 0 < ?l ! j" if "j < length ?as" "?as ! j \<le> ?t + k" "0 < ?l' ! j" for j
      using that b len sr_slice_arrivals [OF \<open>k < sr_slice ?as ?l ?t i\<close>, of "?as ! j"]
      by (cases "j = i") auto
    have "sr_choice ?as ?l' (?t + k) = Some i"
      unfolding sr_choice_def
    proof (rule best_SomeI)
      show "i < length ?as" "?as ! i \<le> ?t + k \<and> 0 < ?l' ! i" using b k len that(3) by auto
      show "?l' ! i \<le> ?l' ! j" if "j < length ?as" "?as ! j \<le> ?t + k \<and> 0 < ?l' ! j" for j
        using that here [of j] b len \<open>0 < k\<close> by (cases "j = i") auto
      show "?l' ! i < ?l' ! j" if "j < i" "?as ! j \<le> ?t + k \<and> 0 < ?l' ! j" for j
        using that here [of j] b len \<open>0 < k\<close> by (cases "j = i") force+
    qed
    then show ?thesis by (simp add: sr_pick_def advance_def c)
  qed
qed (auto simp: sr_pick_def)

lemma srtf_sr_choice: "length l = length as \<Longrightarrow> srtf_choice t (zip as l) = sr_choice as l t"
  by (auto simp: srtf_choice_def sr_choice_def intro!: best_cong)

text \<open>A round of the machine is a step of the policy.\<close>

lemma sr_body_step:
  assumes "mach_inv a" and "mach_body sr_pick a = Inr (False, b)"
  shows "mach_jobs b = srtf_step (now a) (mach_jobs a)" and "now b = now a + 1"
proof -
  have nb: "\<not> (ending a \<and> Suc (length (log a)) = length (arr a))"
    using assms(2) mach_body_break_iff [of sr_pick a "mach_check a"] by auto
  have len: "length (left a) = length (arr a)" using assms(1) by (simp add: mach_inv_def)
  have b: "b = mach_tick (sr_pick (mach_check a))" using assms(2) mach_body_go [OF nb, of sr_pick] by simp
  then show "now b = now a + 1" by (simp add: mach_tick_def sr_pick_def check_keeps split: option.split)
  show "mach_jobs b = srtf_step (now a) (mach_jobs a)"
  proof (cases "sr_choice (arr a) (left a) (now a)")
    case (Some i)
    then have i: "i < length (arr a)" using sr_choice_Some by blast
    have "zip (arr a) ((left a)[i := x]) = (mach_jobs a)[i := (arr a ! i, x)]" for x
      using update_zip [of "arr a" "left a" i "(arr a ! i, x)"] by simp
    with Some i len show ?thesis
      by (simp add: b mach_tick_def sr_pick_def check_keeps srtf_step_def srtf_sr_choice)
  qed (simp add: b mach_tick_def sr_pick_def check_keeps srtf_step_def srtf_sr_choice len)
qed

end
