(* ===== verification/PSJF_Schedule.thy ===== *)
theory PSJF_Schedule
  imports PSJF_Sched Preemptive
begin

text \<open>
  When each process of \<open>PSJF\<close> ends: the scheduler prints nothing about it, but at every round the
  finished processes of its table are those whose end in the plan of shortest remaining time first
  has come.
\<close>

section \<open>The names in the table\<close>

lemma spawn_all_map:
  assumes "\<And>p t q t'. start p t = Inr (q, t') \<Longrightarrow> f q = f p"
  shows "spawn_all start tm ps t = Inr (qs, t') \<Longrightarrow> map f qs = map f ps"
  using assms by (induction ps arbitrary: t qs) (fastforce simp: bindr_eq_Inr split: if_splits)+

lemma psjf_start_name: "psjf_start E p t = Inr (q, t') \<Longrightarrow> name q = name p"
  by (auto simp: psjf_start_def bindr_eq_Inr sched_setscheduler_def Let_def)

lemma psjf_select_names: "psjf_select E s = Inr s1 \<Longrightarrow> map name (procs s1) = map name (procs s)"
  by (auto simp: psjf_select_def bindr_eq_Inr arr_get_Inr arr_set_def Let_def map_update list_update_same_conv
      split: if_splits)

lemma psjf_body_names:
  assumes "psjf_body E n s = Inr (b, s1)"
  shows "map name (procs s1) = map name (procs s)"
proof (cases "finished_process s = n")
  case False
  with assms obtain ps t s2 where p: "psjf_spawn E (time s) (procs s) (trace s) = Inr (ps, t)"
    "psjf_select E (s\<lparr>procs := ps, trace := t\<rparr>) = Inr s2" "procs s1 = procs s2"
    by (auto simp: psjf_body_def bindr_eq_Inr)
  have "map name ps = map name (procs s)"
    by (rule spawn_all_map [OF _ p(1) [unfolded psjf_spawn_def]]) (rule psjf_start_name)
  with psjf_select_names [OF p(2)] p(3) show ?thesis by simp
qed (use assms in \<open>simp add: psjf_body_def\<close>)

section \<open>Along with the machine\<close>

definition psjf_with :: "psjf_state \<Rightarrow> mach \<Rightarrow> bool" where
  "psjf_with s a \<longleftrightarrow> arr a = map ready (procs s) \<and> nm a = map name (procs s) \<and> left a = map exec (procs s) \<and>
     now a = time s \<and> mach_inv a \<and> mach_noted a"

lemma psjf_with_round:
  assumes w: "psjf_with s a" and inv: "psjf_inv E n s" and go: "psjf_body E n s = Inr (False, s1)"
  shows "\<exists>b. mach_body sr_pick a = Inr (False, b) \<and> psjf_with s1 b"
proof -
  have ne: "finished_process s \<noteq> n" using go by (auto simp: psjf_body_def)
  from psjf_body_go [OF inv ne] go have s1: "time s1 = time s + 1"
    "jobs_of (procs s1) = srtf_step (time s) (jobs_of (procs s))" by auto
  have "unfinished (left a) \<noteq> 0" using inv ne w by (auto simp: psjf_inv_def psjf_with_def)
  then have nb: "\<not> (ending a \<and> Suc (length (log a)) = length (arr a))"
    using w by (auto simp: psjf_with_def mach_inv_def)
  then obtain b where b: "mach_body sr_pick a = Inr (False, b)" using mach_body_go by blast
  have jobs: "mach_jobs b = jobs_of (procs s1)" and "now b = time s1"
    using sr_body_step [OF _ b] w s1 by (auto simp: psjf_with_def jobs_of_zip)
  moreover have inv_b: "mach_inv b" using shortest_remaining.wc.goes [OF _ b] w by (simp add: psjf_with_def)
  moreover have "arr b = map ready (procs s1) \<and> left b = map exec (procs s1)"
  proof -
    have "map fst (mach_jobs b) = map fst (jobs_of (procs s1))" "map snd (mach_jobs b) = map snd (jobs_of (procs s1))"
      using jobs by simp_all
    with inv_b show ?thesis by (simp add: mach_inv_def comp_def)
  qed
  moreover have "nm b = nm a"
    using b mach_body_go [OF nb, of sr_pick]
    by (auto simp: mach_tick_def sr_pick_def check_keeps split: option.splits)
  moreover have "mach_noted b" using shortest_remaining.body_noted [OF _ _ b] w by (simp add: psjf_with_def)
  ultimately show ?thesis using b w psjf_body_names [OF go] by (auto simp: psjf_with_def)
qed

lemma psjf_with_reaches:
  assumes "reaches (psjf_body E n) s0 s" and "psjf_with s0 a0" and "psjf_inv E n s0"
  shows "\<exists>a. reaches (mach_body sr_pick) a0 a \<and> psjf_with s a \<and> psjf_inv E n s"
  using assms
proof (induction rule: reaches.induct)
  case start
  then show ?case by (blast intro: reaches.start)
next
  case (iterate s0 t u)
  then obtain a where a: "reaches (mach_body sr_pick) a0 a" "psjf_with t a" "psjf_inv E n t" by blast
  from psjf_with_round [OF a(2,3) iterate.hyps(2)] obtain b where
    "mach_body sr_pick a = Inr (False, b)" "psjf_with u b" by blast
  moreover have "psjf_inv E n u" using psjf.goes [OF a(3) iterate.hyps(2)] by blast
  ultimately show ?case using a(1) by (blast intro: reaches.iterate)
qed

text \<open>The processes that have ended by a time, in the plan.\<close>

definition ended_by :: "int \<Rightarrow> (string \<times> int) list \<Rightarrow> string list" where
  "ended_by t ends = map fst (filter (\<lambda>e. snd e \<le> t) ends)"

lemma psjf_with_ended:
  assumes w: "psjf_with s a" and r: "reaches (mach_body sr_pick) a0 a"
    and run: "run_loop (mach_body sr_pick) a0 = Some (Inr c)"
  shows "mset (ended_by (time s) (log c)) = mset (map name (filter (\<lambda>p. exec p = 0) (procs s)))"
proof -
  have a: "mach_inv a" "mach_noted a" using w by (simp_all add: psjf_with_def)
  from shortest_remaining.later_completions [OF a(1) TrueI] run_loop_reaches [OF r] run obtain rest where
    log: "log c = logged a @ rest" and later: "\<forall>e\<in>set rest. now a < snd e" by auto
  have "filter (\<lambda>e. snd e \<le> time s) rest = []" using later w by (auto simp: psjf_with_def filter_empty_conv)
  moreover have "filter (\<lambda>e. snd e \<le> time s) (logged a) = logged a"
    using a(2) w by (auto simp: psjf_with_def mach_noted_def)
  ultimately have "mset (ended_by (time s) (log c)) = mset (map fst (logged a))"
    by (simp add: ended_by_def log)
  also have "\<dots> = mset (map (\<lambda>i. nm a ! i) (filter (\<lambda>i. left a ! i = 0) [0..<length (arr a)]))"
    using a(2) by (simp add: mach_noted_def)
  also have "map (\<lambda>i. nm a ! i) (filter (\<lambda>i. left a ! i = 0) [0..<length (arr a)]) =
      map name (filter (\<lambda>p. exec p = 0) (procs s))"
  proof -
    have "map (\<lambda>i. nm a ! i) (filter (\<lambda>i. left a ! i = 0) [0..<length (arr a)]) =
        map (\<lambda>i. name (procs s ! i)) (filter (\<lambda>i. exec (procs s ! i) = 0) [0..<length (procs s)])"
      using w by (auto simp: psjf_with_def intro!: map_cong filter_cong)
    also have "\<dots> = map name (filter (\<lambda>p. exec p = 0) (map (\<lambda>i. procs s ! i) [0..<length (procs s)]))"
      by (simp add: filter_map comp_def)
    finally show ?thesis by (simp add: map_nth)
  qed
  finally show ?thesis .
qed

lemma psjf_ends:
  assumes "forks_ok E" and "psjf_workload ps" and "psjf_init E ps t = Inr s0"
    and "reaches (psjf_body E (int (length ps))) s0 s"
  shows "mset (map name (filter (\<lambda>p. exec p = 0) (procs s))) =
    mset (ended_by (time s) (sr_plan (map ready ps) (map name ps) (map exec ps)))"
proof -
  let ?a = "np_init ps"
  have wl: "workload ps" using assms(2) by (simp add: psjf_workload_def)
  note inv = np_init_inv(1) [OF wl]
  from psjf_init_ok [OF assms(1,2), of t] assms(3) have s0: "procs s0 = ps" "time s0 = 0"
    "psjf_inv E (int (length ps)) s0" by auto
  have "exec (ps ! i) \<noteq> 0" if "i < length ps" for i
  proof -
    have "0 < exec (ps ! i)" using wl nth_mem [OF that] unfolding workload_def by blast
    then show ?thesis by simp
  qed
  then have "mach_noted ?a" by (auto simp: mach_noted_def logged_def np_init_def filter_empty_conv)
  with inv s0 have w: "psjf_with s0 ?a" by (simp add: psjf_with_def np_init_def)
  from psjf_with_reaches [OF assms(4) w s0(3)] obtain a where
    a: "reaches (mach_body sr_pick) ?a a" "psjf_with s a" by blast
  have "\<not> ending ?a" by (simp add: ending_def np_init_def)
  from shortest_remaining.follows_plan [OF inv this TrueI] obtain c where
    "run_loop (mach_body sr_pick) ?a = Some (Inr c)"
    "log c = sr_plan (map ready ps) (map name ps) (map exec ps)" by (auto simp: np_init_def)
  with psjf_with_ended [OF a(2,1)] show ?thesis by metis
qed

text \<open>
  C7: the schedule of \<open>PSJF\<close>: at the top of every round the processes with nothing left to execute are,
  by name, those whose end in the plan of shortest remaining time first, which jumps from one arrival
  or completion to the next, is not later than the clock.
\<close>

theorem PSJF_schedule:
  assumes "forks_ok E" and "psjf_workload ps" and "psjf_init E ps t = Inr s0"
    and "reaches (psjf_body E (int (length ps))) s0 s"
  shows "mset (map name (filter (\<lambda>p. exec p = 0) (procs s))) =
    mset (ended_by (time s) (sr_plan (map ready ps) (map name ps) (map exec ps)))"
  by (rule psjf_ends [OF assms])

theorem PSJF_schedule_witness:
  "\<exists>s0 s. psjf_init demo_os demo_procs [] = Inr s0 \<and> reaches (psjf_body demo_os 2) s0 s \<and> time s = 2 \<and>
     map name (filter (\<lambda>p. exec p = 0) (procs s)) = [''P2'']"
proof -
  from psjf_demo_reach obtain s0 s where s: "psjf_init demo_os demo_procs [] = Inr s0"
    "reaches (psjf_body demo_os 2) s0 s" "time s = 2" by blast
  have "ended_by 2 (sr_plan (map ready demo_procs) (map name demo_procs) (map exec demo_procs)) = [''P2'']"
    by code_simp
  with PSJF_schedule [of demo_os demo_procs "[]" s0 s] s
  have "mset (map name (filter (\<lambda>p. exec p = 0) (procs s))) = {#''P2''#}" by simp
  then have "map name (filter (\<lambda>p. exec p = 0) (procs s)) = [''P2'']"
    by (metis mset_single_iff)
  with s show ?thesis by (intro exI [of _ s0] exI [of _ s]) simp
qed

end
