(* ===== verification/SJF_Books.thy ===== *)
theory SJF_Books
  imports SJF_Sched Bookkeeping
begin

text \<open>
  \<open>SJF\<close> in any environment: its loop keeps the books of \<open>Bookkeeping\<close>, so exit status 0 of the parent
  means that every process has run. \<open>SJF\<close> ends in \<^verbatim>\<open>exit(0)\<close> on both sides of \<^verbatim>\<open>fork\<close>, which is why the
  parent's side is named by the condition that no answer of \<^verbatim>\<open>fork\<close> is 0.
\<close>

definition sjf_book :: "sjf_state \<Rightarrow> book" where
  "sjf_book s = \<lparr>entries = procs s, active = running s, counted = finish_cnt s, clock = ntime s\<rparr>"

lemma sjf_book_fields [simp]:
  "entries (sjf_book s) = procs s" "active (sjf_book s) = running s"
  "counted (sjf_book s) = finish_cnt s" "clock (sjf_book s) = ntime s"
  by (simp_all add: sjf_book_def)

section \<open>A round\<close>

text \<open>The printed lines are counted as well.\<close>

definition sjf_lines :: "sjf_state \<Rightarrow> bool" where
  "sjf_lines s \<longleftrightarrow> finish_cnt s = int (length (sjf_log (trace s)))"

lemma sjf_check_book:
  assumes "sjf_check n s = Inr (b, s1)"
  shows "\<not> b \<and> s1 = s \<and> (\<forall>i. running s = int i \<longrightarrow> exec (procs s ! i) \<noteq> 0) \<or>
    book_step (sjf_book s) (sjf_book s1) \<and> running s \<noteq> -1 \<and> running s1 = -1 \<and> (b \<longrightarrow> finish_cnt s1 = n) \<and>
      (sjf_lines s \<longrightarrow> sjf_lines s1)"
proof (cases "running s = -1 \<or> exec (procs s ! nat (running s)) \<noteq> 0")
  case True
  with assms show ?thesis by (auto simp: sjf_check_def bindr_eq_Inr arr_get_Inr split: if_splits)
next
  case False
  define i where "i = nat (running s)"
  have r: "running s = int i" "exec (procs s ! i) = 0"
    using assms False by (auto simp: sjf_check_def bindr_eq_Inr arr_get_Inr i_def)
  then have "book_step (sjf_book s) ((sjf_book s)\<lparr>active := -1, counted := counted (sjf_book s) + 1\<rparr>)"
    by (intro book_step.collect) simp_all
  with assms r show ?thesis
    by (auto simp: sjf_check_def bindr_eq_Inr arr_get_Inr c_int_Inr sjf_book_def sjf_lines_def)
qed

lemma sjf_switch_book:
  assumes "sjf_switch E s = Inr s1"
  shows "procs s1 = procs s \<and> finish_cnt s1 = finish_cnt s \<and> ntime s1 = ntime s \<and>
    sjf_log (trace s1) = sjf_log (trace s) \<and>
    (running s1 = running s \<or> (\<exists>i < length (procs s). running s1 = int i \<and> eligible (procs s ! i)))"
proof -
  have "finish_cnt s1 = finish_cnt s \<and> ntime s1 = ntime s"
    using assms by (auto simp: sjf_switch_def bindr_eq_Inr sched_setscheduler_def Let_def split: if_splits)
  with assms show ?thesis by (cases rule: sjf_switch_cases) auto
qed

lemma sjf_tick_book:
  assumes "sjf_tick s = Inr s1"
  shows "running s1 = running s \<and> finish_cnt s1 = finish_cnt s \<and> ntime s1 = ntime s + 1 \<and>
    sjf_log (trace s1) = sjf_log (trace s) \<and>
    (running s = -1 \<and> procs s1 = procs s \<or>
     (\<exists>i < length (procs s). running s = int i \<and> procs s1 = charge (procs s) i))"
proof (cases "running s = -1")
  case True
  with assms show ?thesis by (auto simp: sjf_tick_def bindr_eq_Inr c_int_Inr Let_def UNIT_T_def)
next
  case False
  with assms have "0 \<le> running s" by (auto simp: sjf_tick_def bindr_eq_Inr arr_get_Inr Let_def)
  then obtain i where "running s = int i" by (metis nonneg_int_cases)
  with assms show ?thesis
    by (auto simp: sjf_tick_def bindr_eq_Inr c_int_Inr arr_get_Inr arr_set_Inr Let_def charge_def UNIT_T_def)
qed

lemma sjf_body_book:
  assumes "sjf_body E n s = Inr (False, s1)"
  shows "book_step\<^sup>*\<^sup>* (sjf_book s) (sjf_book s1) \<and> (sjf_lines s \<longrightarrow> sjf_lines s1)"
proof -
  from assms obtain s2 ps t s3 where c: "sjf_check n s = Inr (False, s2)"
    and sp: "sjf_spawn E (ntime s2) (procs s2) (trace s2) = Inr (ps, t)"
    and sw: "sjf_switch E (s2\<lparr>procs := ps, trace := t\<rparr>) = Inr s3" and tk: "sjf_tick s3 = Inr s1"
    by (auto simp: sjf_body_def bindr_eq_Inr split: if_splits)
  have re: "respawned (ntime s2) (procs s2) ps"
    using sjf.spawn_any [OF sp [unfolded sjf_spawn_def]] by auto
  note ch = sjf_check_book [OF c] and tick = sjf_tick_book [OF tk] and switch = sjf_switch_book [OF sw]
  have "book_step\<^sup>*\<^sup>* (sjf_book s) (sjf_book s2)" using ch by auto
  moreover have "book_step (sjf_book s2)
      \<lparr>entries = procs s1, active = running s1, counted = counted (sjf_book s2), clock = clock (sjf_book s2) + 1\<rparr>"
    by (rule book_unit [where ps = ps]) (use ch re switch tick in auto)
  then have "book_step (sjf_book s2) (sjf_book s1)" using switch tick by (simp add: sjf_book_def)
  moreover have "sjf_lines s \<longrightarrow> sjf_lines s1"
    using ch sjf_spawn_log(1) [OF sp] switch tick by (auto simp: sjf_lines_def)
  ultimately show ?thesis by (meson rtranclp.rtrancl_into_rtrancl)
qed

lemma sjf_body_stop:
  assumes "sjf_body E n s = Inr (True, s1)"
  shows "book_step (sjf_book s) (sjf_book s1) \<and> running s1 = -1 \<and> running s \<noteq> -1 \<and> finish_cnt s1 = n \<and>
    (sjf_lines s \<longrightarrow> sjf_lines s1)"
proof -
  have "sjf_check n s = Inr (True, s1)"
    using assms by (auto simp: sjf_body_def bindr_eq_Inr split: if_splits)
  from sjf_check_book [OF this] show ?thesis by auto
qed

interpretation sjf_books: booked "\<lambda>s s1. sjf_body E n s = Inr (False, s1)"
  "\<lambda>s s1. sjf_body E n s = Inr (True, s1)" sjf_book n for E n
proof
  fix s s1 assume "sjf_body E n s = Inr (False, s1)"
  then show "book_step\<^sup>*\<^sup>* (sjf_book s) (sjf_book s1)" using sjf_body_book by blast
next
  fix s s1 assume "sjf_body E n s = Inr (True, s1)"
  from sjf_body_stop [OF this] show "book_step (sjf_book s) (sjf_book s1) \<and> active (sjf_book s1) = -1 \<and>
      active (sjf_book s) \<noteq> -1 \<and> counted (sjf_book s1) = n" by simp
qed

section \<open>Exit status 0\<close>

lemma spawn_all_error: "spawn_all start tm ps t = Inl e \<Longrightarrow> \<exists>p t'. start p t' = Inl e"
  by (induction ps arbitrary: t) (auto simp: bindr_eq_Inl split: if_splits)

text \<open>The parent's part of a round never ends with status 0.\<close>

lemma arr_error: "arr_get xs i \<noteq> Inl (Exited c tr)" "arr_set xs i y \<noteq> Inl (Exited c tr)"
  "c_int k \<noteq> Inl (Exited c tr)"
  by (auto simp: arr_get_def arr_set_def c_int_def)

lemma sjf_start_error:
  assumes "\<And>t. fork_ret E t \<noteq> 0"
  shows "sjf_start E p t \<noteq> Inl (Exited 0 tr)"
  using assms
  by (auto simp: sjf_start_def bindr_eq_Inl proc_assign_cpu_def sched_setaffinity_def sched_setscheduler_def
      Let_def split: if_splits)

lemma sjf_body_error:
  assumes "\<And>t. fork_ret E t \<noteq> 0"
  shows "sjf_body E n s \<noteq> Inl (Exited 0 tr)"
proof
  assume "sjf_body E n s = Inl (Exited 0 tr)"
  moreover have "sjf_spawn E tm ps t \<noteq> Inl (Exited 0 tr)" for tm ps t
    using spawn_all_error sjf_start_error [OF assms] unfolding sjf_spawn_def by metis
  ultimately show False
    by (auto simp: sjf_body_def sjf_check_def sjf_switch_def sjf_tick_def bindr_eq_Inl arr_error
        sched_setscheduler_def Let_def split: if_splits)
qed

lemma sjf_init_any:
  assumes "sjf_init E ps t = Inr s"
  shows "\<exists>tr. s = \<lparr>procs = map (\<lambda>p. p\<lparr>pid := -1\<rparr>) (qsort E (\<lambda>a b. projr (cmp a b)) ps), t_last = 0, ntime = 0,
      running = -1, finish_cnt = 0, trace = tr\<rparr> \<and> sjf_log tr = sjf_log t"
proof -
  from assms obtain qs where "run_qsort E cmp ps = Inr qs" by (auto simp: sjf_init_def Let_def bindr_eq_Inr)
  moreover from run_qsort_value [OF this] have "qs = qsort E (\<lambda>a b. projr (cmp a b)) ps" .
  ultimately show ?thesis
    using assms by (auto simp: sjf_init_def bindr_eq_Inr Let_def proc_assign_cpu_def sched_setaffinity_def
        sched_setscheduler_def split: if_splits)
qed

lemma sjf_init_error:
  assumes "sjf_init E ps t = Inl (Exited 0 tr)"
  shows False
proof -
  have "run_qsort E cmp ps \<noteq> Inl (Exited 0 tr)"
    by (auto simp: run_qsort_def cmp_def c_int_def filter_eq_Cons_iff Let_def split: list.splits)
  with assms show False
    by (auto simp: sjf_init_def bindr_eq_Inl Let_def proc_assign_cpu_def sched_setaffinity_def
        sched_setscheduler_def split: if_splits)
qed

lemma SJF_exits:
  assumes "\<And>t. fork_ret E t \<noteq> 0" and "SJF E ps n [] = Some (Inl (Exited 0 tr))"
  obtains s0 s where "sjf_init E ps [] = Inr s0" "run_loop (sjf_body E n) s0 = Some (Inr s)" "tr = trace s"
proof (cases "sjf_init E ps []")
  case (Inl e)
  with assms(2) sjf_init_error [of E ps "[]" tr] show ?thesis by (simp add: SJF_def)
next
  case (Inr s0)
  with assms(2) obtain r where r: "run_loop (sjf_body E n) s0 = Some r"
    "bindr r (\<lambda>u. Inl (Exited 0 (trace u)) :: unit res) = Inl (Exited 0 tr)" by (auto simp: SJF_def)
  show ?thesis
  proof (cases r)
    case (Inl e)
    with run_loop_returns [OF r(1)] obtain t where "sjf_body E n t = Inl e" by auto
    with r(2) Inl sjf_body_error [OF assms(1)] show ?thesis by auto
  next
    case (Inr s)
    with r that \<open>sjf_init E ps [] = Inr s0\<close> show ?thesis by auto
  qed
qed

text \<open>
  C13: whatever the kernel answers, if the parent of \<open>SJF\<close> ends with status 0 then every process had a
  non-negative ready time and a positive execution time, was forked successfully and has been run down
  to zero, and there is one line of output for each.
\<close>

theorem SJF_exits_only_when_all_ran:
  assumes "c_qsort (qsort E)" and "\<And>t. fork_ret E t \<noteq> 0"
    and "SJF E ps (int (length ps)) [] = Some (Inl (Exited 0 tr))"
  shows "ps \<noteq> [] \<and> (\<forall>p\<in>set ps. 0 \<le> ready p \<and> 0 < exec p) \<and> length (sjf_log tr) = length ps \<and>
    (\<exists>s0 s. sjf_init E ps [] = Inr s0 \<and> run_loop (sjf_body E (int (length ps))) s0 = Some (Inr s) \<and>
       trace s = tr \<and> (\<forall>p\<in>set (procs s). pid p \<noteq> -1 \<and> exec p = 0))"
proof -
  define qs where "qs = qsort E (\<lambda>a b. projr (cmp a b)) ps"
  have qs: "set qs = set ps" "length qs = length ps"
    using c_qsort.qs_set [OF assms(1)] c_qsort.qs_length [OF assms(1)] by (auto simp: qs_def)
  obtain s0 s where init: "sjf_init E ps [] = Inr s0"
    and run: "run_loop (sjf_body E (int (length ps))) s0 = Some (Inr s)" and tr: "tr = trace s"
    by (rule SJF_exits [OF assms(2,3)])
  from sjf_init_any [OF init] have s0: "sjf_lines s0"
    "sjf_book s0 = \<lparr>entries = map (\<lambda>p. p\<lparr>pid := -1\<rparr>) qs, active = -1, counted = 0, clock = 0\<rparr>"
    by (auto simp: sjf_book_def sjf_lines_def qs_def)
  from run_loop_returns [OF run] obtain u where
    u: "reaches (sjf_body E (int (length ps))) s0 u" "sjf_body E (int (length ps)) u = Inr (True, s)" by auto
  have n: "int (length ps) = int (length qs)" using qs(2) by simp
  note all = sjf_books.all_ran [OF reaches_rtranclp [OF u(1)] u(2) n s0(2)]
  have "sjf_lines u"
    by (rule reaches_invariant [OF u(1)]) (use s0(1) sjf_body_book in blast)+
  then have "length (sjf_log tr) = length ps"
    using sjf_body_stop [OF u(2)] by (simp add: sjf_lines_def tr)
  moreover have "ps \<noteq> []" "\<forall>p\<in>set ps. 0 \<le> ready p \<and> 0 < exec p" using all(1,2) qs by auto
  moreover have "\<forall>p\<in>set (procs s). pid p \<noteq> -1 \<and> exec p = 0" using all(3) by simp
  ultimately show ?thesis using init run tr by blast
qed

theorem SJF_exits_only_when_all_ran_witness:
  "\<exists>tr. SJF demo_os demo_procs 2 [] = Some (Inl (Exited 0 tr)) \<and> length (sjf_log tr) = 2"
proof -
  obtain tr where tr: "SJF demo_os demo_procs (int (length demo_procs)) [] = Some (Inl (Exited 0 tr))"
    using SJF_runs [of demo_os demo_procs] libc.c_qsort_axioms by auto
  have "fork_ret demo_os t \<noteq> 0" for t using forks_okD [OF forks_ok_demo, of t] by auto
  from SJF_exits_only_when_all_ran [OF _ this tr] libc.c_qsort_axioms tr show ?thesis by auto
qed

end
