(* ===== verification/RR_Books.thy ===== *)
theory RR_Books
  imports RR_Sched Bookkeeping
begin

text \<open>
  \<open>RR\<close> in any environment: its loop, whose search may run for ever, keeps the books of \<open>Bookkeeping\<close>, so
  a return of \<open>RR_main\<close> means that every process has run.
\<close>

definition rr_book :: "rr_state \<Rightarrow> book" where
  "rr_book s = \<lparr>entries = procs s, active = running s, counted = finish_cnt s, clock = time_now s\<rparr>"

lemma rr_book_fields [simp]:
  "entries (rr_book s) = procs s" "active (rr_book s) = running s"
  "counted (rr_book s) = finish_cnt s" "clock (rr_book s) = time_now s"
  by (simp_all add: rr_book_def)

section \<open>A round\<close>

definition rr_lines :: "rr_state \<Rightarrow> bool" where
  "rr_lines s \<longleftrightarrow> finish_cnt s = int (length (rr_finishes (trace s)))"

lemma rr_check_book:
  assumes "rr_check n s = Inr (b, s1)"
  shows "\<not> b \<and> s1 = s \<and> (\<forall>i. running s = int i \<longrightarrow> exec (procs s ! i) \<noteq> 0) \<or>
    book_step (rr_book s) (rr_book s1) \<and> running s \<noteq> -1 \<and> running s1 = -1 \<and> (b \<longrightarrow> finish_cnt s1 = n) \<and>
      (rr_lines s \<longrightarrow> rr_lines s1)"
proof (cases "running s = -1 \<or> exec (procs s ! nat (running s)) \<noteq> 0")
  case True
  with assms show ?thesis by (auto simp: rr_check_def bindr_eq_Inr arr_get_Inr split: if_splits)
next
  case False
  define i where "i = nat (running s)"
  have r: "running s = int i" "exec (procs s ! i) = 0"
    using assms False by (auto simp: rr_check_def bindr_eq_Inr arr_get_Inr i_def)
  then have "book_step (rr_book s) ((rr_book s)\<lparr>active := -1, counted := counted (rr_book s) + 1\<rparr>)"
    by (intro book_step.collect) simp_all
  with assms r show ?thesis
    by (auto simp: rr_check_def bindr_eq_Inr arr_get_Inr c_int_Inr rr_book_def rr_lines_def rr_finishes_def)
qed

text \<open>Whatever the table, the search gives the running process or one that can run.\<close>

lemma rr_first_value: "rr_first ps i = int k \<Longrightarrow> eligible (ps ! k)"
proof (induction ps i rule: rr_first.induct)
  case (1 ps i)
  then show ?case by (subst (asm) (2) rr_first.simps) (auto simp: eligible_def split: if_splits)
qed

lemma RR_next_any:
  assumes "RR_next s n = Some (Inr (int i))"
  shows "running s = int i \<or> eligible (procs s ! i)"
proof (cases "running s = -1")
  case True
  with assms show ?thesis using rr_first_value [of "procs s" 0 i] by (simp add: RR_next_def)
next
  case False
  with assms have "(\<exists>r. rr_ring (procs s) n r = Some (Inr (int i))) \<or> int i = running s"
    by (auto simp: RR_next_def bindo_eq_Some_Inr split: if_splits)
  then show ?thesis using rr_ring_result [of "procs s" n _ "int i"] by auto
qed

lemma rr_switch_book:
  assumes "rr_switch E x s = Inr s1"
  shows "procs s1 = procs s \<and> finish_cnt s1 = finish_cnt s \<and> time_now s1 = time_now s \<and>
    rr_finishes (trace s1) = rr_finishes (trace s) \<and>
    (running s1 = running s \<or> (\<exists>i < length (procs s). running s1 = int i \<and> x = int i))"
  using assms
proof (cases rule: rr_switch_cases)
  case (2 i old t2)
  then have "rr_finishes t2 = rr_finishes (trace s)"
    by (auto simp: pid_at_def rr_finishes_def bindr_eq_Inr split: if_splits)
  with 2 show ?thesis by (auto simp: rr_finishes_def)
qed simp

lemma rr_tick_book:
  assumes "rr_tick s = Inr s1"
  shows "running s1 = running s \<and> finish_cnt s1 = finish_cnt s \<and> time_now s1 = time_now s + 1 \<and>
    rr_finishes (trace s1) = rr_finishes (trace s) \<and>
    (running s = -1 \<and> procs s1 = procs s \<or>
     (\<exists>i < length (procs s). running s = int i \<and> procs s1 = charge (procs s) i))"
proof (cases "running s = -1")
  case True
  with assms show ?thesis
    by (auto simp: rr_tick_def bindr_eq_Inr c_int_Inr Let_def Unit_time_def rr_finishes_def)
next
  case False
  with assms have "0 \<le> running s" by (auto simp: rr_tick_def bindr_eq_Inr arr_get_Inr Let_def)
  then obtain i where "running s = int i" by (metis nonneg_int_cases)
  with assms show ?thesis
    by (auto simp: rr_tick_def bindr_eq_Inr c_int_Inr arr_get_Inr arr_set_Inr Let_def charge_def
        Unit_time_def rr_finishes_def)
qed

lemma rr_body_book:
  assumes "rr_body E n s = Some (Inr (False, s1))"
  shows "book_step\<^sup>*\<^sup>* (rr_book s) (rr_book s1) \<and> (rr_lines s \<longrightarrow> rr_lines s1)"
proof -
  from rr_body_parts [OF assms] obtain s2 ps t x s3 where c: "rr_check n s = Inr (False, s2)"
    and sp: "rr_spawn E (time_now s2) (procs s2) (trace s2) = Inr (ps, t)"
    and nx: "RR_next (s2\<lparr>procs := ps, trace := t\<rparr>) n = Some (Inr x)"
    and sw: "rr_switch E x (s2\<lparr>procs := ps, trace := t\<rparr>) = Inr s3" and tk: "rr_tick s3 = Inr s1" by blast
  have re: "respawned (time_now s2) (procs s2) ps" "rr_finishes t = rr_finishes (trace s2)"
    using rr.spawn_any [OF sp [unfolded rr_spawn_def]] by (auto simp: rr_finishes_def)
  note ch = rr_check_book [OF c] and tick = rr_tick_book [OF tk] and switch = rr_switch_book [OF sw]
  have el: "running s2 = int i \<or> eligible (ps ! i)" if "x = int i" for i
    using RR_next_any [of "s2\<lparr>procs := ps, trace := t\<rparr>" n i] nx that by simp
  have "book_step\<^sup>*\<^sup>* (rr_book s) (rr_book s2)" using ch by auto
  moreover have "book_step (rr_book s2)
      \<lparr>entries = procs s1, active = running s1, counted = counted (rr_book s2), clock = clock (rr_book s2) + 1\<rparr>"
    by (rule book_unit [where ps = ps]) (use ch re switch tick el in auto)
  then have "book_step (rr_book s2) (rr_book s1)" using switch tick by (simp add: rr_book_def)
  moreover have "rr_lines s \<longrightarrow> rr_lines s1" using ch re(2) switch tick by (auto simp: rr_lines_def)
  ultimately show ?thesis by (meson rtranclp.rtrancl_into_rtrancl)
qed

lemma rr_body_stop:
  assumes "rr_body E n s = Some (Inr (True, s1))"
  shows "book_step (rr_book s) (rr_book s1) \<and> running s1 = -1 \<and> running s \<noteq> -1 \<and> finish_cnt s1 = n \<and>
    (rr_lines s \<longrightarrow> rr_lines s1)"
proof -
  have "rr_check n s = Inr (True, s1)"
    using assms by (auto simp: rr_body_def bindo_eq_Some_Inr bindr_eq_Inr split: if_splits)
  from rr_check_book [OF this] show ?thesis by auto
qed

interpretation rr_books: booked "\<lambda>s s1. rr_body E n s = Some (Inr (False, s1))"
  "\<lambda>s s1. rr_body E n s = Some (Inr (True, s1))" rr_book n for E n
proof
  fix s s1 assume "rr_body E n s = Some (Inr (False, s1))"
  then show "book_step\<^sup>*\<^sup>* (rr_book s) (rr_book s1)" using rr_body_book by blast
next
  fix s s1 assume "rr_body E n s = Some (Inr (True, s1))"
  from rr_body_stop [OF this] show "book_step (rr_book s) (rr_book s1) \<and> active (rr_book s1) = -1 \<and>
      active (rr_book s) \<noteq> -1 \<and> counted (rr_book s1) = n" by simp
qed

section \<open>A return\<close>

lemma rr_init_any:
  assumes "rr_init E ps t = Inr s"
  shows "\<exists>tr. s = \<lparr>procs = map (\<lambda>p. p\<lparr>pid := -1\<rparr>) (qsort E (\<lambda>a b. projr (RR_compare a b)) ps), time_now = 0,
      time_last = 0, running = -1, finish_cnt = 0, wait = 0, trace = tr\<rparr> \<and> rr_finishes tr = rr_finishes t"
proof -
  from assms obtain qs where "run_qsort E RR_compare ps = Inr qs" by (auto simp: rr_init_def bindr_eq_Inr)
  moreover from run_qsort_value [OF this] have "qs = qsort E (\<lambda>a b. projr (RR_compare a b)) ps" .
  ultimately show ?thesis
    using assms by (auto simp: rr_init_def bindr_eq_Inr Let_def proc_assign_cpu_def sched_setaffinity_def
        sched_setscheduler_def rr_finishes_def split: if_splits)
qed

text \<open>
  C12: whatever the kernel answers, if \<open>RR_main\<close> returns then every process had a non-negative ready time
  and a positive execution time, was forked successfully and has been run down to zero, over however
  many turns, and its end has been printed. A failed fork or a process with nothing to execute is not
  skipped: \<open>RR_main\<close> does not return.
\<close>

theorem RR_returns_only_when_all_ran:
  assumes "c_qsort (qsort E)" and "RR_main E ps (int (length ps)) [] = Some (Inr s)"
  shows "ps \<noteq> [] \<and> (\<forall>p\<in>set ps. 0 \<le> ready p \<and> 0 < exec p) \<and>
    (\<forall>p\<in>set (procs s). pid p \<noteq> -1 \<and> exec p = 0) \<and> length (rr_finishes (trace s)) = length ps"
proof -
  let ?go = "\<lambda>s s1. rr_body E (int (length ps)) s = Some (Inr (False, s1))"
  define qs where "qs = qsort E (\<lambda>a b. projr (RR_compare a b)) ps"
  have qs: "set qs = set ps" "length qs = length ps"
    using c_qsort.qs_set [OF assms(1)] c_qsort.qs_length [OF assms(1)] by (auto simp: qs_def)
  from assms(2) obtain s0 v where init: "rr_init E ps [] = Inr s0"
    and run: "run_loopo (rr_body E (int (length ps))) s0 = Some (Inr v)"
    and s: "procs s = procs v" "rr_finishes (trace s) = rr_finishes (trace v)"
    by (auto simp: RR_main_def bindo_eq_Some_Inr rr_finishes_def split: sum.splits)
  from rr_init_any [OF init] have s0: "rr_lines s0"
    "rr_book s0 = \<lparr>entries = map (\<lambda>p. p\<lparr>pid := -1\<rparr>) qs, active = -1, counted = 0, clock = 0\<rparr>"
    by (auto simp: rr_book_def rr_lines_def qs_def rr_finishes_def)
  from run_loopo_returns [OF run] obtain u where
    u: "?go\<^sup>*\<^sup>* s0 u" "rr_body E (int (length ps)) u = Some (Inr (True, v))" by blast
  have n: "int (length ps) = int (length qs)" using qs(2) by simp
  note all = rr_books.all_ran [OF u n s0(2)]
  from u(1) have "rr_lines u"
    by (induction rule: rtranclp_induct) (use s0(1) rr_body_book in blast)+
  then have "length (rr_finishes (trace s)) = length ps"
    using rr_body_stop [OF u(2)] by (simp add: rr_lines_def s)
  moreover have "ps \<noteq> []" "\<forall>p\<in>set ps. 0 \<le> ready p \<and> 0 < exec p" using all(1,2) qs by auto
  moreover have "\<forall>p\<in>set (procs s). pid p \<noteq> -1 \<and> exec p = 0" using all(3) s by simp
  ultimately show ?thesis by blast
qed

theorem RR_returns_only_when_all_ran_witness:
  "\<exists>s. RR_main demo_os demo_procs 2 [] = Some (Inr s) \<and> (\<forall>p\<in>set (procs s). pid p \<noteq> -1 \<and> exec p = 0) \<and>
    length (rr_finishes (trace s)) = 2"
proof -
  obtain s where s: "RR_main demo_os demo_procs (int (length demo_procs)) [] = Some (Inr s)"
    using RR_runs [of demo_os demo_procs] libc.c_qsort_axioms by auto
  from RR_returns_only_when_all_ran [OF _ s] libc.c_qsort_axioms s show ?thesis by auto
qed

end
