(* ===== verification/Kernel_Calls.thy ===== *)
theory Kernel_Calls
  imports Os_Model Syscall_Table
begin

text \<open>
  The kernel side (\<^verbatim>\<open>kernel_files/\<close>): the system calls \<open>my_syscall_0\<close> and
  \<open>my_syscall_1\<close>, their older forms \<open>sys_getTime\<close> and \<open>sys_printk\<close>, the macros of
  \<^verbatim>\<open>syscalls.h\<close> that define a system call (argument mapping, metadata, the stub that
  casts the registers), and the numbers the table gives them. Memory is a partial map from 64-bit
  addresses to bytes, so an unmapped address, an overlap of the two results and the wrap of an
  address are visible. \<^verbatim>\<open>getnstimeofday\<close> and \<^verbatim>\<open>printk\<close> are the kernel's own:
  fields of the record \<open>kernel\<close>.
\<close>

unbundle bit_operations_syntax

section \<open>Byte-addressed memory\<close>

type_synonym addr = "64 word"
type_synonym memory = "addr \<Rightarrow> 8 word option"

datatype kerror = Page_Fault addr

type_synonym 'a kres = "kerror + 'a"

fun store_bytes :: "memory \<Rightarrow> addr \<Rightarrow> 8 word list \<Rightarrow> memory kres" where
  "store_bytes m a [] = Inr m"
| "store_bytes m a (b # bs) =
     (case m a of None \<Rightarrow> Inl (Page_Fault a) | Some _ \<Rightarrow> store_bytes (m(a \<mapsto> b)) (a + 1) bs)"

fun load_bytes :: "memory \<Rightarrow> addr \<Rightarrow> nat \<Rightarrow> 8 word list kres" where
  "load_bytes m a 0 = Inr []"
| "load_bytes m a (Suc n) =
     (case m a of
        None \<Rightarrow> Inl (Page_Fault a)
      | Some b \<Rightarrow> bindr (load_bytes m (a + 1) n) (\<lambda>bs. Inr (b # bs)))"

text \<open>The little-endian bytes of a machine word, and back.\<close>

fun split_bytes :: "nat \<Rightarrow> 64 word \<Rightarrow> 8 word list" where
  "split_bytes 0 v = []"
| "split_bytes (Suc n) v = ucast v # split_bytes n (drop_bit 8 v)"

fun join_bytes :: "8 word list \<Rightarrow> 64 word" where
  "join_bytes [] = 0"
| "join_bytes (b # bs) = ucast b OR push_bit 8 (join_bytes bs)"

definition store_long :: "memory \<Rightarrow> addr \<Rightarrow> 64 word \<Rightarrow> memory kres" where
  "store_long m a v = store_bytes m a (split_bytes 8 v)"

definition load_long :: "memory \<Rightarrow> addr \<Rightarrow> 64 word kres" where
  "load_long m a = bindr (load_bytes m a 8) (\<lambda>bs. Inr (join_bytes bs))"

text \<open>The addresses of \<open>n\<close> bytes from \<open>a\<close> on.\<close>

definition span :: "addr \<Rightarrow> nat \<Rightarrow> addr set" where
  "span a n = (\<lambda>i. a + of_nat i) ` {..<n}"

lemma span_0 [simp]: "span a 0 = {}"
  by (simp add: span_def)

lemma span_Suc [simp]: "span a (Suc n) = insert a (span (a + 1) n)"
  by (simp add: span_def lessThan_Suc_eq_insert_0 image_image algebra_simps)

lemma span_mem: "i < n \<Longrightarrow> a + of_nat i \<in> span a n"
  by (auto simp: span_def)

lemma span_fresh: "n < 2 ^ 64 \<Longrightarrow> a \<notin> span (a + 1) n"
proof
  assume n: "n < 2 ^ 64" and "a \<in> span (a + 1) n"
  then obtain i where i: "i < n" "a = a + 1 + of_nat i" by (auto simp: span_def)
  then have "(of_nat (Suc i) :: 64 word) = 0" by (simp add: algebra_simps)
  then have "2 ^ 64 dvd Suc i" by (simp add: word_of_nat_eq_0_iff del: of_nat_Suc)
  with i(1) n show False by (auto dest: dvd_imp_le)
qed

lemma length_split_bytes [simp]: "length (split_bytes n v) = n"
  by (induction n arbitrary: v) auto

lemma split_low: "ucast (ucast v :: 8 word) OR push_bit 8 (take_bit k (drop_bit 8 v)) = take_bit (8 + k) (v :: 64 word)"
  by (rule bit_word_eqI) (auto simp: bit_simps)

lemma join_split: "join_bytes (split_bytes n v) = take_bit (8 * n) v"
proof (induction n arbitrary: v)
  case (Suc n)
  then show ?case using split_low [of v "8 * n"] by simp
qed simp

lemma join_split_8 [simp]: "join_bytes (split_bytes 8 v) = v"
  by (rule bit_word_eqI) (simp add: join_split bit_simps)

lemma store_bytes_Cons:
  "store_bytes m a (b # bs) = Inr m' \<longleftrightarrow> a \<in> dom m \<and> store_bytes (m(a \<mapsto> b)) (a + 1) bs = Inr m'"
  by (auto split: option.splits)

lemma store_bytes_ok:
  "store_bytes m a bs = Inr m' \<Longrightarrow> span a (length bs) \<subseteq> dom m \<and> dom m' = dom m"
proof (induction bs arbitrary: m a)
  case (Cons b bs)
  then have a: "a \<in> dom m" and s: "store_bytes (m(a \<mapsto> b)) (a + 1) bs = Inr m'"
    by (simp_all only: store_bytes_Cons)
  have d: "dom (m(a \<mapsto> b)) = dom m" using a by auto
  from Cons.IH [OF s] a show ?case unfolding d by simp
qed simp

lemma store_bytes_defined:
  "span a (length bs) \<subseteq> dom m \<Longrightarrow> \<exists>m'. store_bytes m a bs = Inr m'"
proof (induction bs arbitrary: m a)
  case (Cons b bs)
  then have a: "a \<in> dom m" and "span (a + 1) (length bs) \<subseteq> dom (m(a \<mapsto> b))" by auto
  from Cons.IH [OF this(2)] a show ?case by (auto simp only: store_bytes_Cons)
qed simp

lemma store_bytes_outside:
  "store_bytes m a bs = Inr m' \<Longrightarrow> x \<notin> span a (length bs) \<Longrightarrow> m' x = m x"
proof (induction bs arbitrary: m a)
  case (Cons b bs)
  then have "store_bytes (m(a \<mapsto> b)) (a + 1) bs = Inr m'" by (simp only: store_bytes_Cons)
  from Cons.IH [OF this] Cons.prems(2) show ?case by simp
qed simp

lemma load_store_bytes:
  "store_bytes m a bs = Inr m' \<Longrightarrow> length bs \<le> 2 ^ 64 \<Longrightarrow> load_bytes m' a (length bs) = Inr bs"
proof (induction bs arbitrary: m a)
  case (Cons b bs)
  then have s: "store_bytes (m(a \<mapsto> b)) (a + 1) bs = Inr m'" by (simp only: store_bytes_Cons)
  with Cons have "load_bytes m' (a + 1) (length bs) = Inr bs" by simp
  moreover have "m' a = Some b"
    using store_bytes_outside [OF s, of a] span_fresh [of "length bs" a] Cons.prems(2) by simp
  ultimately show ?case by simp
qed simp

lemma load_bytes_cong:
  "(\<And>x. x \<in> span a n \<Longrightarrow> m x = m' x) \<Longrightarrow> load_bytes m a n = load_bytes m' a n"
proof (induction n arbitrary: a)
  case (Suc n)
  from Suc.IH [of "a + 1"] Suc.prems have "load_bytes m (a + 1) n = load_bytes m' (a + 1) n" "m a = m' a"
    by simp_all
  then show ?case by (simp split: option.splits)
qed simp

lemma store_long_dom: "store_long m a v = Inr m' \<Longrightarrow> dom m' = dom m"
  using store_bytes_ok unfolding store_long_def by blast

lemma store_long_defined: "span a 8 \<subseteq> dom m \<Longrightarrow> \<exists>m'. store_long m a v = Inr m'"
  using store_bytes_defined [of a "split_bytes 8 v" m] by (simp add: store_long_def)

lemma store_long_faults: "\<not> span a 8 \<subseteq> dom m \<Longrightarrow> \<exists>x. store_long m a v = Inl (Page_Fault x)"
  using store_bytes_ok [of m a "split_bytes 8 v"]
  by (cases "store_long m a v") (auto simp: store_long_def intro: kerror.exhaust)

lemma store_long_outside: "store_long m a v = Inr m' \<Longrightarrow> x \<notin> span a 8 \<Longrightarrow> m' x = m x"
  unfolding store_long_def by (erule store_bytes_outside) simp

lemma load_store_long: "store_long m a v = Inr m' \<Longrightarrow> load_long m' a = Inr v"
  using load_store_bytes [of m a "split_bytes 8 v" m'] by (simp add: store_long_def load_long_def)

lemma load_store_long_other:
  "store_long m a v = Inr m' \<Longrightarrow> span a 8 \<inter> span b 8 = {} \<Longrightarrow> load_long m' b = load_long m b"
  unfolding load_long_def
  by (subst load_bytes_cong [of b 8 m' m]) (auto dest: store_long_outside)

lemmas store_long_simps = store_long_dom store_long_outside load_store_long load_store_long_other

section \<open>The kernel's state and services\<close>

record timespec =
  tv_sec :: "64 word"
  tv_nsec :: "64 word"

record kstate =
  mem :: memory
  klog :: "string list"   \<comment> \<open>the kernel log, newest line first\<close>
  clock_reads :: nat       \<comment> \<open>how often the clock was read\<close>

text \<open>
  \<open>clock n\<close> is the time of the \<open>n\<close>-th reading; \<open>vprintk\<close> is the text that the format string
  and a pointer argument give on a memory as the next line of the log, or the fault of reading
  through the pointer; nothing is assumed of it;
  \<open>other_call\<close> is every system call the repository does not define.
\<close>

record kernel =
  clock :: "nat \<Rightarrow> timespec"
  vprintk :: "string \<Rightarrow> addr \<Rightarrow> memory \<Rightarrow> string kres"
  other_call :: "nat \<Rightarrow> addr list \<Rightarrow> kstate \<Rightarrow> (64 word \<times> kstate) kres"

definition getnstimeofday :: "kernel \<Rightarrow> kstate \<Rightarrow> timespec \<times> kstate" where
  "getnstimeofday K s = (clock K (clock_reads s), s\<lparr>clock_reads := Suc (clock_reads s)\<rparr>)"

definition printk :: "kernel \<Rightarrow> string \<Rightarrow> addr \<Rightarrow> kstate \<Rightarrow> kstate kres" where
  "printk K fmt a s =
     bindr (vprintk K fmt a (mem s)) (\<lambda>line. Inr (s\<lparr>klog := line # klog s\<rparr>))"

text \<open>\<open>*p = v\<close> for a pointer to \<open>unsigned long\<close>.\<close>

definition put_long :: "addr \<Rightarrow> 64 word \<Rightarrow> kstate \<Rightarrow> kstate kres" where
  "put_long p v s = bindr (store_long (mem s) p v) (\<lambda>m. Inr (s\<lparr>mem := m\<rparr>))"

section \<open>The system calls\<close>

definition my_syscall_0 :: "kernel \<Rightarrow> addr \<Rightarrow> addr \<Rightarrow> kstate \<Rightarrow> (64 word \<times> kstate) kres" where
  "my_syscall_0 K a b s =
     (let (t, s) = getnstimeofday K s in
      bindr (put_long a (tv_sec t) s) (\<lambda>s.
      bindr (put_long b (tv_nsec t) s) (\<lambda>s.
      Inr (0, s))))"

definition line_format :: string where
  "line_format = ''%s'' @ [CHR 0x0A]"

definition my_syscall_1 :: "kernel \<Rightarrow> addr \<Rightarrow> kstate \<Rightarrow> (64 word \<times> kstate) kres" where
  "my_syscall_1 K a s = bindr (printk K line_format a s) (\<lambda>s. Inr (0, s))"

text \<open>
  The older pair. \<open>sys_getTime\<close> hands its pointer to \<^verbatim>\<open>getnstimeofday\<close>, which fills the
  structure field by field.
\<close>

definition sys_getTime :: "kernel \<Rightarrow> addr \<Rightarrow> kstate \<Rightarrow> (64 word \<times> kstate) kres" where
  "sys_getTime K t s =
     (let (v, s) = getnstimeofday K s in
      bindr (put_long t (tv_sec v) s) (\<lambda>s.
      bindr (put_long (t + 8) (tv_nsec v) s) (\<lambda>s.
      Inr (0, s))))"

definition sys_printk :: "kernel \<Rightarrow> addr \<Rightarrow> kstate \<Rightarrow> (64 word \<times> kstate) kres" where
  "sys_printk K input s = bindr (printk K line_format input s) (\<lambda>s. Inr (0, s))"

section \<open>Defining a system call\<close>

datatype ctype = C_Char | C_Int | C_UInt | C_Long | C_ULong | C_LLong | C_ULLong
  | C_Ptr ctype

primrec spelled :: "ctype \<Rightarrow> string" where
  "spelled C_Char = ''char''"
| "spelled C_Int = ''int''"
| "spelled C_UInt = ''unsigned int''"
| "spelled C_Long = ''long''"
| "spelled C_ULong = ''unsigned long''"
| "spelled C_LLong = ''long long''"
| "spelled C_ULLong = ''unsigned long long''"
| "spelled (C_Ptr t) = spelled t @ ''*''"

primrec sizeof :: "ctype \<Rightarrow> nat" where
  "sizeof C_Char = 1"
| "sizeof C_Int = 4"
| "sizeof C_UInt = 4"
| "sizeof C_Long = 8"
| "sizeof C_ULong = 8"
| "sizeof C_LLong = 8"
| "sizeof C_ULLong = 8"
| "sizeof (C_Ptr t) = 8"

text \<open>
  \<open>__MAP(n, m, t1, a1, ..)\<close>: the macro \<open>m\<close> on the first \<open>n\<close> pairs. With fewer pairs, or more
  than the six levels the header writes out, nothing expands (\<open>None\<close>).
\<close>

fun sc_map_levels :: "nat \<Rightarrow> ('t \<Rightarrow> 'a \<Rightarrow> 'b) \<Rightarrow> ('t \<times> 'a) list \<Rightarrow> 'b list option" where
  "sc_map_levels 0 m ps = Some []"
| "sc_map_levels (Suc n) m [] = None"
| "sc_map_levels (Suc n) m ((t, a) # ps) = map_option (Cons (m t a)) (sc_map_levels n m ps)"

definition SYSCALL_DEFINE_MAXARGS :: nat where "SYSCALL_DEFINE_MAXARGS = 6"

definition sc_map :: "nat \<Rightarrow> ('t \<Rightarrow> 'a \<Rightarrow> 'b) \<Rightarrow> ('t \<times> 'a) list \<Rightarrow> 'b list option" where
  "sc_map n m ps = (if n \<le> SYSCALL_DEFINE_MAXARGS then sc_map_levels n m ps else None)"

definition sc_is_ll :: "ctype \<Rightarrow> bool" where
  "sc_is_ll t \<longleftrightarrow> t = C_LLong \<or> t = C_ULLong"

text \<open>
  \<open>__SC_CAST\<close>: a register, declared \<open>long\<close> by \<open>__SC_LONG\<close>, cast to the argument's type. The value
  is kept in 64 bits, sign- or zero-extended as C widens it.
\<close>

primrec sc_cast :: "ctype \<Rightarrow> 64 word \<Rightarrow> 64 word" where
  "sc_cast C_Char r = signed_take_bit 7 r"
| "sc_cast C_Int r = signed_take_bit 31 r"
| "sc_cast C_UInt r = take_bit 32 r"
| "sc_cast C_Long r = r"
| "sc_cast C_ULong r = r"
| "sc_cast C_LLong r = r"
| "sc_cast C_ULLong r = r"
| "sc_cast (C_Ptr t) r = r"

text \<open>\<open>__SC_TEST\<close>: what the compiler refuses.\<close>

definition sc_test :: "ctype \<Rightarrow> bool" where
  "sc_test t \<longleftrightarrow> \<not> (\<not> sc_is_ll t \<and> sizeof t > sizeof C_Long)"

section \<open>Trace metadata\<close>

text \<open>The tracer's classes, told apart by their addresses.\<close>

datatype event_class = Syscall_Enter | Syscall_Exit | Other_Class nat

record trace_event_call =
  event_class :: event_class
  event_name :: string
  event_data :: string
  event_flags :: string

record syscall_metadata =
  meta_name :: string
  syscall_nr :: int
  nb_args :: nat
  meta_types :: "string list"
  meta_args :: "string list"
  enter_event :: trace_event_call
  exit_event :: trace_event_call

definition SYSCALL_TRACE_ENTER_EVENT :: "string \<Rightarrow> trace_event_call" where
  "SYSCALL_TRACE_ENTER_EVENT sname =
     \<lparr>event_class = Syscall_Enter, event_name = ''sys_enter'' @ sname,
      event_data = ''__syscall_meta_'' @ sname, event_flags = ''TRACE_EVENT_FL_CAP_ANY''\<rparr>"

definition SYSCALL_TRACE_EXIT_EVENT :: "string \<Rightarrow> trace_event_call" where
  "SYSCALL_TRACE_EXIT_EVENT sname =
     \<lparr>event_class = Syscall_Exit, event_name = ''sys_exit'' @ sname,
      event_data = ''__syscall_meta_'' @ sname, event_flags = ''TRACE_EVENT_FL_CAP_ANY''\<rparr>"

text \<open>
  With \<open>CONFIG_FTRACE_SYSCALLS\<close> (the parameter) the macro defines one metadata record, without it
  nothing; \<open>None\<close> is an argument list that does not expand.
\<close>

definition SYSCALL_METADATA ::
  "bool \<Rightarrow> string \<Rightarrow> nat \<Rightarrow> (ctype \<times> string) list \<Rightarrow> syscall_metadata list option" where
  "SYSCALL_METADATA ftrace sname nb ps =
     (if ftrace then
        Option.bind (sc_map nb (\<lambda>t a. spelled t) ps) (\<lambda>ts.
        Option.bind (sc_map nb (\<lambda>t a. a) ps) (\<lambda>as.
        Some [\<lparr>meta_name = ''sys'' @ sname, syscall_nr = -1, nb_args = nb,
               meta_types = ts, meta_args = as,
               enter_event = SYSCALL_TRACE_ENTER_EVENT sname,
               exit_event = SYSCALL_TRACE_EXIT_EVENT sname\<rparr>]))
      else Some [])"

definition is_syscall_trace_event :: "bool \<Rightarrow> trace_event_call \<Rightarrow> bool" where
  "is_syscall_trace_event ftrace e \<longleftrightarrow>
     ftrace \<and> (event_class e = Syscall_Enter \<or> event_class e = Syscall_Exit)"

section \<open>The stub and the table\<close>

text \<open>
  A defined system call: its exported symbol, its metadata, and the entry that takes the argument
  registers, casts each to its declared type and runs the body.
\<close>

type_synonym body = "64 word list \<Rightarrow> kstate \<Rightarrow> (64 word \<times> kstate) kres"

record syscall =
  symbol :: string
  metadata :: "syscall_metadata list"
  sys_entry :: body

definition se_sys :: "ctype list \<Rightarrow> body \<Rightarrow> body" where
  "se_sys ts do_sys regs s = do_sys (map2 sc_cast ts regs) s"

definition SYSCALL_DEFINEx ::
  "bool \<Rightarrow> nat \<Rightarrow> string \<Rightarrow> (ctype \<times> string) list \<Rightarrow> body \<Rightarrow> syscall option" where
  "SYSCALL_DEFINEx ftrace x sname ps do_sys =
     Option.bind (SYSCALL_METADATA ftrace sname x ps) (\<lambda>meta.
     Option.bind (sc_map x (\<lambda>t a. t) ps) (\<lambda>ts.
     if list_all sc_test ts
     then Some \<lparr>symbol = ''sys'' @ sname, metadata = meta, sys_entry = se_sys ts do_sys\<rparr>
     else None))"

definition SYSCALL_DEFINE0 :: "bool \<Rightarrow> string \<Rightarrow> body \<Rightarrow> syscall option" where
  "SYSCALL_DEFINE0 ftrace sname do_sys =
     Option.bind (SYSCALL_METADATA ftrace (''_'' @ sname) 0 []) (\<lambda>meta.
     Some \<lparr>symbol = ''sys_'' @ sname, metadata = meta, sys_entry = (\<lambda>regs. do_sys [])\<rparr>)"

text \<open>\<open>SYSCALL_DEFINE1\<close> to \<open>SYSCALL_DEFINE6\<close>.\<close>

definition SYSCALL_DEFINE ::
  "bool \<Rightarrow> nat \<Rightarrow> string \<Rightarrow> (ctype \<times> string) list \<Rightarrow> body \<Rightarrow> syscall option" where
  "SYSCALL_DEFINE ftrace n nm ps do_sys = SYSCALL_DEFINEx ftrace n (''_'' @ nm) ps do_sys"

text \<open>The parameters that \<^verbatim>\<open>my_syscall.c\<close> gives to the macros, and the definitions they make.\<close>

definition my_syscall_0_params :: "(ctype \<times> string) list" where
  "my_syscall_0_params = [(C_Ptr C_ULong, ''a''), (C_Ptr C_ULong, ''b'')]"

definition my_syscall_1_params :: "(ctype \<times> string) list" where
  "my_syscall_1_params = [(C_Ptr C_Char, ''a'')]"

definition define_my_syscall_0 :: "bool \<Rightarrow> kernel \<Rightarrow> syscall option" where
  "define_my_syscall_0 ftrace K =
     SYSCALL_DEFINE ftrace 2 ''my_syscall_0'' my_syscall_0_params
       (\<lambda>as. my_syscall_0 K (as ! 0) (as ! 1))"

definition define_my_syscall_1 :: "bool \<Rightarrow> kernel \<Rightarrow> syscall option" where
  "define_my_syscall_1 ftrace K =
     SYSCALL_DEFINE ftrace 1 ''my_syscall_1'' my_syscall_1_params
       (\<lambda>as. my_syscall_1 K (as ! 0))"

text \<open>
  The dispatch of a 64-bit process by \<^verbatim>\<open>syscall_64.tbl\<close>: two of its entry points lead here, all others
  elsewhere. The wrapper \<open>__x64_\<close>, which spreads the registers, is not in the repository.
\<close>

definition do_syscall :: "bool \<Rightarrow> kernel \<Rightarrow> nat \<Rightarrow> addr list \<Rightarrow> kstate \<Rightarrow> (64 word \<times> kstate) kres" where
  "do_syscall ftrace K nr regs s =
     (case (if stub_of nr = Some ''__x64_sys_my_syscall_0'' then define_my_syscall_0 ftrace K
            else if stub_of nr = Some ''__x64_sys_my_syscall_1'' then define_my_syscall_1 ftrace K else None) of
        Some d \<Rightarrow> sys_entry d regs s
      | None \<Rightarrow> other_call K nr regs s)"

section \<open>Properties of the definition macros\<close>

lemma sc_map_levels_Some:
  "sc_map_levels n m ps = Some ys \<Longrightarrow> n \<le> length ps \<and> ys = map (\<lambda>(t, a). m t a) (take n ps)"
  by (induction n m ps arbitrary: ys rule: sc_map_levels.induct) auto

lemma sc_map_Some:
  "sc_map n m ps = Some ys \<Longrightarrow> n \<le> 6 \<and> n \<le> length ps \<and> ys = map (\<lambda>(t, a). m t a) (take n ps)"
  by (auto simp: sc_map_def SYSCALL_DEFINE_MAXARGS_def dest: sc_map_levels_Some split: if_splits)

text \<open>A cast keeps exactly the bits of the declared type.\<close>

lemma sc_cast_low: "sc_cast t (take_bit (8 * sizeof t) r) = sc_cast t r"
  by (cases t) (simp_all add: take_bit_word_eq_self, (rule bit_word_eqI, auto simp: bit_simps)+)

lemma sc_cast_agree:
  assumes "take_bit (8 * sizeof t) r = take_bit (8 * sizeof t) r'"
  shows "sc_cast t r = sc_cast t r'"
  using assms sc_cast_low by metis

lemma SYSCALL_DEFINEx_Some:
  assumes "SYSCALL_DEFINEx ftrace x sname ps do_sys = Some d"
  shows "x \<le> 6" and "x \<le> length ps"
    and "sys_entry d = se_sys (map fst (take x ps)) do_sys" and "symbol d = ''sys'' @ sname"
  using assms
  by (auto simp: SYSCALL_DEFINEx_def case_prod_beta' bind_eq_Some_conv
      dest!: sc_map_Some split: if_splits)

text \<open>
  C33: the stub that every \<open>SYSCALL_DEFINE\<close> generates hides the unused bits of the registers: two
  sets of registers that agree, argument by argument, on as many low bits as the declared type has,
  give the same call, whatever the body does.
\<close>

theorem SYSCALL_DEFINEx_sanitizes:
  assumes "SYSCALL_DEFINEx ftrace x sname ps do_sys = Some d"
    and "x \<le> length regs" and "x \<le> length regs'"
    and low: "\<And>i. i < x \<Longrightarrow> take_bit (8 * sizeof (fst (ps ! i))) (regs ! i)
                          = take_bit (8 * sizeof (fst (ps ! i))) (regs' ! i)"
  shows "sys_entry d regs s = sys_entry d regs' s"
proof -
  note d = SYSCALL_DEFINEx_Some [OF assms(1)]
  have "map2 sc_cast (map fst (take x ps)) regs = map2 sc_cast (map fst (take x ps)) regs'"
    using d(2) assms(2,3) by (auto intro!: nth_equalityI sc_cast_agree low)
  then show ?thesis by (simp add: d(3) se_sys_def)
qed

section \<open>Properties of the calls\<close>

lemma do_syscall_335: "do_syscall ftrace K 335 (a # b # regs) s = my_syscall_0 K a b s"
  by (cases ftrace) (simp_all add: do_syscall_def stub_of_own define_my_syscall_0_def my_syscall_0_params_def SYSCALL_DEFINE_def SYSCALL_DEFINEx_def
      SYSCALL_METADATA_def sc_map_def SYSCALL_DEFINE_MAXARGS_def numeral_2_eq_2 sc_test_def se_sys_def)

lemma do_syscall_336: "do_syscall ftrace K 336 (a # regs) s = my_syscall_1 K a s"
  by (cases ftrace) (simp_all add: do_syscall_def stub_of_own define_my_syscall_1_def my_syscall_1_params_def SYSCALL_DEFINE_def SYSCALL_DEFINEx_def
      SYSCALL_METADATA_def sc_map_def SYSCALL_DEFINE_MAXARGS_def sc_test_def se_sys_def)

text \<open>The effect of a successful \<open>my_syscall_0\<close>.\<close>

definition time_written :: "timespec \<Rightarrow> addr \<Rightarrow> addr \<Rightarrow> memory \<Rightarrow> memory \<Rightarrow> bool" where
  "time_written t a b m m' \<longleftrightarrow>
     load_long m' a = Inr (tv_sec t) \<and> load_long m' b = Inr (tv_nsec t) \<and> dom m' = dom m \<and>
     (\<forall>x. x \<notin> span a 8 \<union> span b 8 \<longrightarrow> m' x = m x)"

lemma my_syscall_0_ok:
  assumes "span a 8 \<subseteq> dom (mem s)" and "span b 8 \<subseteq> dom (mem s)" and dis: "span a 8 \<inter> span b 8 = {}"
  shows "\<exists>m'. my_syscall_0 K a b s = Inr (0, s\<lparr>clock_reads := Suc (clock_reads s), mem := m'\<rparr>) \<and>
    time_written (clock K (clock_reads s)) a b (mem s) m'"
proof -
  let ?t = "clock K (clock_reads s)"
  obtain m1 where m1: "store_long (mem s) a (tv_sec ?t) = Inr m1"
    using store_long_defined [OF assms(1)] by blast
  have "span b 8 \<subseteq> dom m1" using assms(2) store_long_dom [OF m1] by simp
  then obtain m2 where m2: "store_long m1 b (tv_nsec ?t) = Inr m2"
    using store_long_defined by blast
  have "load_long m2 a = load_long m1 a" using m2 dis by (intro load_store_long_other) auto
  with m1 m2 have "time_written ?t a b (mem s) m2"
    by (simp add: time_written_def store_long_simps)
  with m1 m2 show ?thesis by (auto simp: my_syscall_0_def getnstimeofday_def put_long_def)
qed

text \<open>
  C31: system call 335 on two mapped, disjoint \<open>unsigned long\<close> cells returns 0, leaves the clock's
  seconds in the first and its nanoseconds in the second, and changes no other byte of memory, no log
  line and nothing but one more clock reading.
\<close>

theorem syscall_335_reports:
  assumes "span a 8 \<subseteq> dom (mem s)" and "span b 8 \<subseteq> dom (mem s)" and "span a 8 \<inter> span b 8 = {}"
  shows "\<exists>m'. do_syscall ftrace K 335 (a # b # regs) s =
      Inr (0, s\<lparr>clock_reads := Suc (clock_reads s), mem := m'\<rparr>) \<and>
    load_long m' a = Inr (tv_sec (clock K (clock_reads s))) \<and>
    load_long m' b = Inr (tv_nsec (clock K (clock_reads s))) \<and>
    dom m' = dom (mem s) \<and> (\<forall>x. x \<notin> span a 8 \<union> span b 8 \<longrightarrow> m' x = mem s x)"
  using my_syscall_0_ok [OF assms] by (simp add: do_syscall_335 time_written_def)

text \<open>
  C32: the call never checks its pointers, so when either cell has an unmapped byte (a null pointer,
  say, or the second argument left out) it faults inside the kernel instead of returning an error.
  With both arguments the same cell it returns 0 but only the nanoseconds survive.
\<close>

theorem my_syscall_0_bad_pointers:
  "(\<not> (span a 8 \<subseteq> dom (mem s) \<and> span b 8 \<subseteq> dom (mem s)) \<longrightarrow>
      (\<exists>x. my_syscall_0 K a b s = Inl (Page_Fault x))) \<and>
   (span a 8 \<subseteq> dom (mem s) \<longrightarrow>
      (\<exists>s'. my_syscall_0 K a a s = Inr (0, s') \<and>
        load_long (mem s') a = Inr (tv_nsec (clock K (clock_reads s)))))"
proof (intro conjI impI)
  let ?t = "clock K (clock_reads s)"
  assume bad: "\<not> (span a 8 \<subseteq> dom (mem s) \<and> span b 8 \<subseteq> dom (mem s))"
  show "\<exists>x. my_syscall_0 K a b s = Inl (Page_Fault x)"
  proof (cases "store_long (mem s) a (tv_sec ?t)")
    case (Inl e)
    then show ?thesis
      by (cases e) (simp add: my_syscall_0_def getnstimeofday_def put_long_def)
  next
    case (Inr m1)
    then have d: "dom m1 = dom (mem s)" and "span a 8 \<subseteq> dom (mem s)"
      using store_bytes_ok [of "mem s" a "split_bytes 8 (tv_sec ?t)" m1]
      by (auto simp only: store_long_def length_split_bytes)
    with bad have "\<not> span b 8 \<subseteq> dom m1" by simp
    then obtain x where "store_long m1 b (tv_nsec ?t) = Inl (Page_Fault x)"
      using store_long_faults by blast
    with Inr show ?thesis by (simp add: my_syscall_0_def getnstimeofday_def put_long_def)
  qed
next
  let ?t = "clock K (clock_reads s)"
  assume ok: "span a 8 \<subseteq> dom (mem s)"
  then obtain m1 where m1: "store_long (mem s) a (tv_sec ?t) = Inr m1" using store_long_defined by blast
  have "span a 8 \<subseteq> dom m1" using ok store_long_dom [OF m1] by simp
  then obtain m2 where m2: "store_long m1 a (tv_nsec ?t) = Inr m2" using store_long_defined by blast
  with m1 show "\<exists>s'. my_syscall_0 K a a s = Inr (0, s') \<and> load_long (mem s') a = Inr (tv_nsec ?t)"
    by (auto simp: my_syscall_0_def getnstimeofday_def put_long_def dest: load_store_long)
qed

text \<open>
  A text in memory, as C keeps it: its bytes and a terminating zero.
\<close>

definition byte_of :: "char \<Rightarrow> 8 word" where
  "byte_of c = word_of_int (of_char c)"

definition c_text :: "memory \<Rightarrow> addr \<Rightarrow> string \<Rightarrow> bool" where
  "c_text m a str \<longleftrightarrow>
     CHR 0x00 \<notin> set str \<and> load_bytes m a (Suc (length str)) = Inr (map byte_of str @ [0])"

lemma c_text_cong:
  "(\<And>x. x \<in> span a (Suc (length str)) \<Longrightarrow> m x = m' x) \<Longrightarrow> c_text m a str = c_text m' a str"
  unfolding c_text_def using load_bytes_cong by metis

text \<open>
  C30: a measured run, as the user programs are meant to make it: call 335 into one pair of cells,
  call 335 into a second pair, then call 336 on a text that the cells do not overlap. Both readings
  return 0, the first pair holds the earlier reading of the clock and the second pair the later one,
  and neither reading has touched the text or the log. Call 336 then hands printk the format of a
  string and a newline, with the address of the text and the memory as the readings left it: when
  printk faults the call faults, and otherwise it returns 0, the log has gained the line that printk
  made of it, and nothing else has changed. What that line is lies with the kernel's printk.
\<close>

theorem measured_run:
  assumes "c_text (mem s) p str"
    and "\<And>x. x \<in> {a, b, c, d} \<Longrightarrow> span x 8 \<subseteq> dom (mem s) \<and> span x 8 \<inter> span p (Suc (length str)) = {}"
    and "span a 8 \<inter> span b 8 = {}" and "span c 8 \<inter> span d 8 = {}"
    and "(span a 8 \<union> span b 8) \<inter> (span c 8 \<union> span d 8) = {}"
  shows "\<exists>s1 s2. do_syscall ftrace K 335 (a # b # regs) s = Inr (0, s1) \<and>
    do_syscall ftrace K 335 (c # d # regs) s1 = Inr (0, s2) \<and>
    load_long (mem s2) a = Inr (tv_sec (clock K (clock_reads s))) \<and>
    load_long (mem s2) b = Inr (tv_nsec (clock K (clock_reads s))) \<and>
    load_long (mem s2) c = Inr (tv_sec (clock K (Suc (clock_reads s)))) \<and>
    load_long (mem s2) d = Inr (tv_nsec (clock K (Suc (clock_reads s)))) \<and>
    c_text (mem s2) p str \<and> klog s2 = klog s \<and>
    do_syscall ftrace K 336 (p # regs) s2 =
      (case vprintk K (''%s'' @ [CHR 0x0A]) p (mem s2) of
         Inl fault \<Rightarrow> Inl fault
       | Inr line \<Rightarrow> Inr (0, s2\<lparr>klog := line # klog s\<rparr>))"
proof -
  let ?n = "clock_reads s"
  from my_syscall_0_ok [of a s b K] assms(2,3) obtain m1 where
    m1: "my_syscall_0 K a b s = Inr (0, s\<lparr>clock_reads := Suc ?n, mem := m1\<rparr>)"
      "time_written (clock K ?n) a b (mem s) m1" by auto
  let ?s1 = "s\<lparr>clock_reads := Suc ?n, mem := m1\<rparr>"
  have "dom m1 = dom (mem s)" using m1(2) by (simp add: time_written_def)
  with my_syscall_0_ok [of c ?s1 d K] assms(2,4) obtain m2 where
    m2: "my_syscall_0 K c d ?s1 = Inr (0, ?s1\<lparr>clock_reads := Suc (Suc ?n), mem := m2\<rparr>)"
      "time_written (clock K (Suc ?n)) c d m1 m2" by auto
  have keep: "m2 x = mem s x" if "x \<in> span p (Suc (length str))" for x
    using that m1(2) m2(2) assms(2) unfolding time_written_def by (simp add: disjoint_iff) metis
  have kept: "c_text m2 p str" using assms(1) c_text_cong keep by blast
  have first: "load_long m2 x = load_long m1 x" if "x \<in> {a, b}" for x
    unfolding load_long_def using that m2(2) assms(5)
    by (subst load_bytes_cong [of x 8 m2 m1]) (auto simp: time_written_def)
  let ?s2 = "?s1\<lparr>clock_reads := Suc (Suc ?n), mem := m2\<rparr>"
  have "do_syscall ftrace K 336 (p # regs) ?s2 = (case vprintk K (''%s'' @ [CHR 0x0A]) p (mem ?s2) of
      Inl fault \<Rightarrow> Inl fault | Inr line \<Rightarrow> Inr (0, ?s2\<lparr>klog := line # klog s\<rparr>))"
    by (simp add: do_syscall_336 my_syscall_1_def printk_def line_format_def split: sum.splits)
  with kept first m1 m2 show ?thesis
    by (intro exI [of _ ?s1] exI [of _ ?s2]) (simp add: do_syscall_335 time_written_def)
qed

section \<open>A kernel that meets the hypotheses\<close>

text \<open>The text at an address, up to a limit, as \<^verbatim>\<open>vsnprintf\<close> reads it.\<close>

fun read_text :: "nat \<Rightarrow> memory \<Rightarrow> addr \<Rightarrow> string kres" where
  "read_text 0 m a = Inr []"
| "read_text (Suc n) m a =
     (case m a of
        None \<Rightarrow> Inl (Page_Fault a)
      | Some b \<Rightarrow>
          (if b = 0 then Inr []
           else bindr (read_text n m (a + 1)) (\<lambda>cs. Inr (char_of (uint b) # cs))))"

lemma char_byte_of: "char_of (uint (byte_of c)) = c"
  by (simp add: byte_of_def unsigned_of_int take_bit_eq_mod)

lemma byte_of_0: "byte_of c = 0 \<longleftrightarrow> c = CHR 0x00"
proof
  assume "byte_of c = 0"
  then show "c = CHR 0x00" using char_byte_of [of c] by (simp add: char_of_def)
qed (simp add: byte_of_def)

lemma read_text_c_text:
  "c_text m a str \<Longrightarrow> length str < n \<Longrightarrow> read_text n m a = Inr str"
proof (induction str arbitrary: a n)
  case Nil
  then show ?case by (cases n) (auto simp: c_text_def bindr_eq_Inr split: option.splits)
next
  case (Cons c str)
  obtain k where n: "n = Suc k" using Cons.prems(2) by (cases n) auto
  from Cons.prems(1) have a: "m a = Some (byte_of c)" and "c_text m (a + 1) str" and "c \<noteq> CHR 0x00"
    by (auto simp: c_text_def bindr_eq_Inr split: option.splits)
  then show ?case
    using Cons.IH [of "a + 1" k] Cons.prems(2) by (simp add: n char_byte_of byte_of_0)
qed

definition demo_kernel :: kernel where
  "demo_kernel = \<lparr>clock = (\<lambda>n. \<lparr>tv_sec = 1556530662 + of_nat n, tv_nsec = 500\<rparr>),
     vprintk = (\<lambda>fmt a m. bindr (read_text 992 m a) (\<lambda>str. Inr (str @ [CHR 0x0A]))),
     other_call = (\<lambda>nr regs s. Inr (0, s))\<rparr>"

text \<open>64 mapped bytes, the last sixteen of which start with a two-letter text.\<close>

definition demo_memory :: memory where
  "demo_memory = (\<lambda>x. if x = 4144 then Some 79 else if x = 4145 then Some 75
     else if 4096 \<le> x \<and> x < 4160 then Some 0 else None)"

definition demo_kstate :: kstate where
  "demo_kstate = \<lparr>mem = demo_memory, klog = [], clock_reads = 0\<rparr>"

lemma span_8: "span a 8 = {a, a + 1, a + 2, a + 3, a + 4, a + 5, a + 6, a + 7}"
  by (simp add: eval_nat_numeral add.assoc)

lemma c_text_demo: "c_text demo_memory 4144 ''OK''"
  by (simp add: c_text_def demo_memory_def byte_of_def of_char_def)

theorem SYSCALL_DEFINEx_sanitizes_witness:
  "sys_entry (the (SYSCALL_DEFINEx True 1 ''_demo'' [(C_Int, ''n'')] (\<lambda>as s. Inr (as ! 0, s))))
     [0xFFFFFFFF] demo_kstate =
   sys_entry (the (SYSCALL_DEFINEx True 1 ''_demo'' [(C_Int, ''n'')] (\<lambda>as s. Inr (as ! 0, s))))
     [-1] demo_kstate"
  by (rule SYSCALL_DEFINEx_sanitizes [where ftrace = True and x = 1 and sname = "''_demo''"
        and ps = "[(C_Int, ''n'')]" and do_sys = "\<lambda>as s. Inr (as ! 0, s)"])
    (simp_all add: SYSCALL_DEFINEx_def SYSCALL_METADATA_def sc_map_def SYSCALL_DEFINE_MAXARGS_def
      sc_test_def less_Suc_eq mask_eq_exp_minus_1)

theorem syscall_335_reports_witness:
  "\<exists>m'. do_syscall True demo_kernel 335 [4096, 4104] demo_kstate =
      Inr (0, demo_kstate\<lparr>clock_reads := 1, mem := m'\<rparr>) \<and>
    load_long m' 4096 = Inr 1556530662 \<and> load_long m' 4104 = Inr 500"
  using syscall_335_reports [of 4096 demo_kstate 4104 True demo_kernel "[]"]
  by (auto simp: span_8 demo_kstate_def demo_memory_def demo_kernel_def dom_def)

theorem my_syscall_0_bad_pointers_witness:
  "(\<exists>x. my_syscall_0 demo_kernel 4096 0 demo_kstate = Inl (Page_Fault x)) \<and>
   (\<exists>s'. my_syscall_0 demo_kernel 4096 4096 demo_kstate = Inr (0, s') \<and>
      load_long (mem s') 4096 = Inr 500)"
  using my_syscall_0_bad_pointers [of 4096 demo_kstate 0 demo_kernel]
  by (simp add: span_8 demo_kstate_def demo_memory_def demo_kernel_def dom_def)

theorem measured_run_witness:
  "\<exists>s1 s2. do_syscall True demo_kernel 335 [4096, 4104] demo_kstate = Inr (0, s1) \<and>
    do_syscall True demo_kernel 335 [4112, 4120] s1 = Inr (0, s2) \<and>
    load_long (mem s2) 4112 = Inr 1556530663 \<and>
    do_syscall True demo_kernel 336 [4144] s2 = Inr (0, s2\<lparr>klog := [''OK'' @ [CHR 0x0A]]\<rparr>)"
proof -
  have ok: "c_text (mem demo_kstate) 4144 ''OK''"
    using c_text_demo by (simp add: demo_kstate_def)
  have span_text: "span 4144 (Suc (length ''OK'')) = {4144, 4145, 4146}" by simp
  have dom: "dom (mem demo_kstate) = {x. 4096 \<le> x \<and> x < 4160}"
    by (auto simp: demo_kstate_def demo_memory_def split: if_splits)
  have cells: "span x 8 \<subseteq> dom (mem demo_kstate) \<and> span x 8 \<inter> span 4144 (Suc (length ''OK'')) = {}"
    if "x \<in> {4096, 4104, 4112, 4120}" for x
    using that unfolding dom span_text span_8 by (elim insertE) simp_all
  have disjoint: "span 4096 8 \<inter> span 4104 8 = {}" "span 4112 8 \<inter> span 4120 8 = {}"
    "(span 4096 8 \<union> span 4104 8) \<inter> (span 4112 8 \<union> span 4120 8) = {}"
    by (simp_all add: span_8)
  obtain s1 s2 where run: "do_syscall True demo_kernel 335 [4096, 4104] demo_kstate = Inr (0, s1)"
    "do_syscall True demo_kernel 335 [4112, 4120] s1 = Inr (0, s2)"
    "load_long (mem s2) 4112 = Inr (tv_sec (clock demo_kernel (Suc (clock_reads demo_kstate))))"
    "c_text (mem s2) 4144 ''OK''"
    "do_syscall True demo_kernel 336 [4144] s2 =
      (case vprintk demo_kernel (''%s'' @ [CHR 0x0A]) 4144 (mem s2) of Inl fault \<Rightarrow> Inl fault
       | Inr line \<Rightarrow> Inr (0, s2\<lparr>klog := line # klog demo_kstate\<rparr>))"
    using measured_run [OF ok cells disjoint, of True demo_kernel "[]"] by blast
  have "vprintk demo_kernel fmt 4144 (mem s2) = Inr (''OK'' @ [CHR 0x0A])" for fmt
    using read_text_c_text [OF run(4), of 992] by (simp add: demo_kernel_def)
  with run(1-3,5) show ?thesis by (auto simp: demo_kernel_def demo_kstate_def)
qed

end
