(* ===== verification/Kernel_Header.thy ===== *)
theory Kernel_Header
  imports Kernel_Calls
begin

text \<open>
  The inline functions of \<^verbatim>\<open>syscalls.h\<close>: the address-limit check on the way back to user mode
  and the \<open>ksys_\<close> wrappers kernel code uses instead of system calls. What they call is outside the
  repository: the record \<open>kops\<close> holds those functions, over a kernel state \<open>'s\<close> and a type \<open>'f\<close>
  of looked-up file names, and the constants of the kernel's other headers.
\<close>

unbundle bit_operations_syntax

type_synonym c_int32 = "32 word"
type_synonym c_long = "64 word"
type_synonym c_mode = "16 word"

record ('s, 'f) kops =
  AT_FDCWD :: c_int32
  AT_SYMLINK_NOFOLLOW :: c_int32
  O_LARGEFILE :: c_int32
  EINVAL :: c_int32
  force_o_largefile :: bool
  get_name :: "addr \<Rightarrow> 's \<Rightarrow> 'f \<times> 's"
  do_unlinkat :: "c_int32 \<Rightarrow> 'f \<Rightarrow> 's \<Rightarrow> c_long \<times> 's"
  do_rmdir :: "c_int32 \<Rightarrow> addr \<Rightarrow> 's \<Rightarrow> c_long \<times> 's"
  do_mkdirat :: "c_int32 \<Rightarrow> addr \<Rightarrow> c_mode \<Rightarrow> 's \<Rightarrow> c_long \<times> 's"
  do_symlinkat :: "addr \<Rightarrow> c_int32 \<Rightarrow> addr \<Rightarrow> 's \<Rightarrow> c_long \<times> 's"
  do_mknodat :: "c_int32 \<Rightarrow> addr \<Rightarrow> c_mode \<Rightarrow> c_int32 \<Rightarrow> 's \<Rightarrow> c_long \<times> 's"
  do_linkat :: "c_int32 \<Rightarrow> addr \<Rightarrow> c_int32 \<Rightarrow> addr \<Rightarrow> c_int32 \<Rightarrow> 's \<Rightarrow> c_int32 \<times> 's"
  do_fchmodat :: "c_int32 \<Rightarrow> addr \<Rightarrow> c_mode \<Rightarrow> 's \<Rightarrow> c_int32 \<times> 's"
  do_faccessat :: "c_int32 \<Rightarrow> addr \<Rightarrow> c_int32 \<Rightarrow> 's \<Rightarrow> c_long \<times> 's"
  do_fchownat :: "c_int32 \<Rightarrow> addr \<Rightarrow> c_int32 \<Rightarrow> c_int32 \<Rightarrow> c_int32 \<Rightarrow> 's \<Rightarrow> c_int32 \<times> 's"
  do_sys_ftruncate :: "c_int32 \<Rightarrow> c_long \<Rightarrow> c_int32 \<Rightarrow> 's \<Rightarrow> c_long \<times> 's"
  close_fd :: "addr \<Rightarrow> c_int32 \<Rightarrow> 's \<Rightarrow> c_int32 \<times> 's"
  current_files :: "'s \<Rightarrow> addr"
  do_sys_open :: "c_int32 \<Rightarrow> addr \<Rightarrow> c_int32 \<Rightarrow> c_mode \<Rightarrow> 's \<Rightarrow> c_long \<times> 's"
  do_sys_truncate :: "addr \<Rightarrow> c_long \<Rightarrow> 's \<Rightarrow> c_long \<times> 's"
  current_personality :: "'s \<Rightarrow> c_int32"
  set_personality :: "c_int32 \<Rightarrow> 's \<Rightarrow> 's"

text \<open>An \<open>int\<close> result returned as \<open>long\<close>.\<close>

definition widen :: "c_int32 \<times> 's \<Rightarrow> c_long \<times> 's" where
  "widen r = (scast (fst r), snd r)"

section \<open>The wrappers\<close>

text \<open>\<open>ksys_fadvise64_64\<close> is the inline stub of a kernel without \<open>CONFIG_ADVISE_SYSCALLS\<close>.\<close>

definition ksys_fadvise64_64 ::
  "('s, 'f) kops \<Rightarrow> c_int32 \<Rightarrow> c_long \<Rightarrow> c_long \<Rightarrow> c_int32 \<Rightarrow> 's \<Rightarrow> c_int32 \<times> 's" where
  "ksys_fadvise64_64 F fd offset len advice s = (- EINVAL F, s)"

definition ksys_unlink :: "('s, 'f) kops \<Rightarrow> addr \<Rightarrow> 's \<Rightarrow> c_long \<times> 's" where
  "ksys_unlink F pathname s =
     (let (f, s) = get_name F pathname s in do_unlinkat F (AT_FDCWD F) f s)"

definition ksys_rmdir :: "('s, 'f) kops \<Rightarrow> addr \<Rightarrow> 's \<Rightarrow> c_long \<times> 's" where
  "ksys_rmdir F pathname s = do_rmdir F (AT_FDCWD F) pathname s"

definition ksys_mkdir :: "('s, 'f) kops \<Rightarrow> addr \<Rightarrow> c_mode \<Rightarrow> 's \<Rightarrow> c_long \<times> 's" where
  "ksys_mkdir F pathname mode s = do_mkdirat F (AT_FDCWD F) pathname mode s"

definition ksys_symlink :: "('s, 'f) kops \<Rightarrow> addr \<Rightarrow> addr \<Rightarrow> 's \<Rightarrow> c_long \<times> 's" where
  "ksys_symlink F oldname newname s = do_symlinkat F oldname (AT_FDCWD F) newname s"

definition ksys_mknod ::
  "('s, 'f) kops \<Rightarrow> addr \<Rightarrow> c_mode \<Rightarrow> c_int32 \<Rightarrow> 's \<Rightarrow> c_long \<times> 's" where
  "ksys_mknod F filename mode dev s = do_mknodat F (AT_FDCWD F) filename mode dev s"

definition ksys_link :: "('s, 'f) kops \<Rightarrow> addr \<Rightarrow> addr \<Rightarrow> 's \<Rightarrow> c_long \<times> 's" where
  "ksys_link F oldname newname s =
     widen (do_linkat F (AT_FDCWD F) oldname (AT_FDCWD F) newname 0 s)"

definition ksys_chmod :: "('s, 'f) kops \<Rightarrow> addr \<Rightarrow> c_mode \<Rightarrow> 's \<Rightarrow> c_int32 \<times> 's" where
  "ksys_chmod F filename mode s = do_fchmodat F (AT_FDCWD F) filename mode s"

definition ksys_access :: "('s, 'f) kops \<Rightarrow> addr \<Rightarrow> c_int32 \<Rightarrow> 's \<Rightarrow> c_long \<times> 's" where
  "ksys_access F filename mode s = do_faccessat F (AT_FDCWD F) filename mode s"

definition ksys_chown ::
  "('s, 'f) kops \<Rightarrow> addr \<Rightarrow> c_int32 \<Rightarrow> c_int32 \<Rightarrow> 's \<Rightarrow> c_long \<times> 's" where
  "ksys_chown F filename user gid s =
     widen (do_fchownat F (AT_FDCWD F) filename user gid 0 s)"

definition ksys_lchown ::
  "('s, 'f) kops \<Rightarrow> addr \<Rightarrow> c_int32 \<Rightarrow> c_int32 \<Rightarrow> 's \<Rightarrow> c_long \<times> 's" where
  "ksys_lchown F filename user gid s =
     widen (do_fchownat F (AT_FDCWD F) filename user gid (AT_SYMLINK_NOFOLLOW F) s)"

definition ksys_ftruncate :: "('s, 'f) kops \<Rightarrow> c_int32 \<Rightarrow> c_long \<Rightarrow> 's \<Rightarrow> c_long \<times> 's" where
  "ksys_ftruncate F fd len s = do_sys_ftruncate F fd len 1 s"

definition ksys_close :: "('s, 'f) kops \<Rightarrow> c_int32 \<Rightarrow> 's \<Rightarrow> c_int32 \<times> 's" where
  "ksys_close F fd s = close_fd F (current_files F s) fd s"

definition ksys_open ::
  "('s, 'f) kops \<Rightarrow> addr \<Rightarrow> c_int32 \<Rightarrow> c_mode \<Rightarrow> 's \<Rightarrow> c_long \<times> 's" where
  "ksys_open F filename flags mode s =
     (let flags = (if force_o_largefile F then flags OR O_LARGEFILE F else flags) in
      do_sys_open F (AT_FDCWD F) filename flags mode s)"

definition ksys_truncate :: "('s, 'f) kops \<Rightarrow> addr \<Rightarrow> c_long \<Rightarrow> 's \<Rightarrow> c_long \<times> 's" where
  "ksys_truncate F pathname len s = do_sys_truncate F pathname len s"

definition ksys_personality :: "('s, 'f) kops \<Rightarrow> c_int32 \<Rightarrow> 's \<Rightarrow> c_int32 \<times> 's" where
  "ksys_personality F personality s =
     (let old = current_personality F s;
          s = (if personality \<noteq> 0xFFFFFFFF then set_personality F personality s else s) in
      (old, s))"

section \<open>Back to user mode\<close>

text \<open>
  \<open>TIF_FSCHECK\<close> is a build choice (the parameter \<open>fscheck\<close>), and \<open>CHECK_DATA_CORRUPTION\<close>, which
  tells and reports whether its condition holds, is the kernel's (the parameter \<open>check\<close>).
\<close>

datatype signal = SIGKILL | Other_Signal nat

record task =
  thread_flag :: bool     \<comment> \<open>\<open>TIF_FSCHECK\<close> of the current thread\<close>
  fs_limit :: addr        \<comment> \<open>\<open>get_fs()\<close>\<close>
  signals :: "signal list"  \<comment> \<open>forced on the current task, newest first\<close>
  reports :: "string list"

type_synonym corruption_check = "bool \<Rightarrow> string \<Rightarrow> task \<Rightarrow> bool \<times> task"

definition addr_limit_user_check :: "corruption_check \<Rightarrow> bool \<Rightarrow> addr \<Rightarrow> task \<Rightarrow> task" where
  "addr_limit_user_check check fscheck user_ds t =
     (if fscheck \<and> \<not> thread_flag t then t
      else
        let (bad, t) = check (fs_limit t \<noteq> user_ds) ''Invalid address limit on user-mode return'' t;
            t = (if bad then t\<lparr>signals := SIGKILL # signals t\<rparr> else t) in
        if fscheck then t\<lparr>thread_flag := False\<rparr> else t)"

text \<open>The macro's promise: it yields its condition and only adds to the report.\<close>

definition only_reports :: "corruption_check \<Rightarrow> bool" where
  "only_reports check \<longleftrightarrow> (\<forall>c msg t. \<exists>rs. check c msg t = (c, t\<lparr>reports := rs\<rparr>))"

text \<open>
  C40: on the way back to user mode a task whose address limit is not the user segment is killed
  exactly when the check is due, that is when the build has no \<open>TIF_FSCHECK\<close> or the thread's flag is
  set. A due check clears the flag, so in a build that has it a second check does nothing; the limit
  itself is never touched.
\<close>

theorem addr_limit_user_check_spec:
  fixes check fscheck user_ds t
  defines "t' \<equiv> addr_limit_user_check check fscheck user_ds t"
    and "due \<equiv> \<not> fscheck \<or> thread_flag t"
  assumes "only_reports check"
  shows "signals t' = (if due \<and> fs_limit t \<noteq> user_ds then [SIGKILL] else []) @ signals t \<and>
    fs_limit t' = fs_limit t \<and> thread_flag t' = (thread_flag t \<and> \<not> fscheck) \<and>
    (fscheck \<longrightarrow> addr_limit_user_check check fscheck user_ds t' = t')"
proof -
  obtain rs where "check (fs_limit t \<noteq> user_ds) ''Invalid address limit on user-mode return'' t
      = (fs_limit t \<noteq> user_ds, t\<lparr>reports := rs\<rparr>)"
    using assms(3) unfolding only_reports_def by blast
  then show ?thesis
    unfolding t'_def due_def
    by (cases "fs_limit t = user_ds") (simp_all add: addr_limit_user_check_def Let_def)
qed

theorem addr_limit_user_check_spec_witness:
  "signals (addr_limit_user_check (\<lambda>c msg t. (c, t)) True 100
     \<lparr>thread_flag = True, fs_limit = 7, signals = [], reports = []\<rparr>) = [SIGKILL]"
proof -
  have "(c, t) = (c, t\<lparr>reports := reports t\<rparr>)" for c :: bool and t :: task by simp
  then have "only_reports (\<lambda>c msg t. (c, t))" unfolding only_reports_def by blast
  from addr_limit_user_check_spec [OF this, of True 100
      "\<lparr>thread_flag = True, fs_limit = 7, signals = [], reports = []\<rparr>"]
  show ?thesis by simp
qed

end
