(* ===== verification/Syscall_Prototypes.thy ===== *)
theory Syscall_Prototypes
  imports Kernel_Calls
begin

text \<open>
  The declarations of \<^verbatim>\<open>syscalls.h\<close>: the forward declared structures, the prototypes of the
  system calls and of the functions that kernel code uses in their place, each with the conditions
  of the \<open>#if\<close> lines around it.
\<close>

section \<open>Declarations\<close>

datatype cdecl = Ty string | Const cdecl | User cdecl | Ptr cdecl

datatype cond = Defined string | Either cond cond | Neg cond | Long_32

datatype prototype =
  Proto (guards: "cond list") (returns: cdecl) (prefix: string) (stem: string)
    (params: "(cdecl \<times> string) list")

definition pname :: "prototype \<Rightarrow> string" where
  "pname p = prefix p @ stem p"

text \<open>\<open>unsigned\<close> is \<open>unsigned int\<close>; the names of parameters do not matter.\<close>

primrec normal :: "cdecl \<Rightarrow> cdecl" where
  "normal (Ty t) = Ty (if t = ''unsigned'' then ''unsigned int'' else t)"
| "normal (Const t) = Const (normal t)"
| "normal (User t) = User (normal t)"
| "normal (Ptr t) = Ptr (normal t)"

definition signature :: "prototype \<Rightarrow> cdecl list" where
  "signature p = map (\<lambda>x. normal (fst x)) (params p)"

record config =
  macro :: "string \<Rightarrow> bool"
  long_32 :: bool

primrec holds :: "config \<Rightarrow> cond \<Rightarrow> bool" where
  "holds C (Defined m) = macro C m"
| "holds C (Either a b) = (holds C a \<or> holds C b)"
| "holds C (Neg a) = (\<not> holds C a)"
| "holds C Long_32 = long_32 C"

definition declared :: "config \<Rightarrow> prototype \<Rightarrow> bool" where
  "declared C p = list_all (holds C) (guards p)"

abbreviation user_ptr :: "string \<Rightarrow> cdecl" where
  "user_ptr t \<equiv> Ptr (User (Ty t))"

abbreviation const_user_ptr :: "string \<Rightarrow> cdecl" where
  "const_user_ptr t \<equiv> Ptr (User (Const (Ty t)))"

text \<open>
  The system calls are all \<open>asmlinkage long sys_\<close>.. and inside
  \<open>#ifndef CONFIG_ARCH_HAS_SYSCALL_WRAPPER\<close>; the replacements are called \<open>ksys_\<close>..
\<close>

abbreviation sys_proto :: "cond list \<Rightarrow> string \<Rightarrow> (cdecl \<times> string) list \<Rightarrow> prototype" where
  "sys_proto cs nm ps \<equiv>
     Proto (Neg (Defined ''CONFIG_ARCH_HAS_SYSCALL_WRAPPER'') # cs) (Ty ''long'') ''sys_'' nm ps"

abbreviation ksys_proto :: "cond list \<Rightarrow> cdecl \<Rightarrow> string \<Rightarrow> (cdecl \<times> string) list \<Rightarrow> prototype" where
  "ksys_proto cs t nm ps \<equiv> Proto cs t ''ksys_'' nm ps"

definition forward_tags :: "string list" where
  "forward_tags =
    [''struct __aio_sigset'', ''struct epoll_event'', ''struct iattr'', ''struct inode'', ''struct iocb'',
      ''struct io_event'', ''struct iovec'', ''struct itimerspec'', ''struct itimerval'',
      ''struct kexec_segment'', ''struct linux_dirent'', ''struct linux_dirent64'', ''struct list_head'',
      ''struct mmap_arg_struct'', ''struct msgbuf'', ''struct user_msghdr'', ''struct mmsghdr'',
      ''struct msqid_ds'', ''struct new_utsname'', ''struct nfsctl_arg'', ''struct __old_kernel_stat'',
      ''struct oldold_utsname'', ''struct old_utsname'', ''struct pollfd'', ''struct rlimit'',
      ''struct rlimit64'', ''struct rusage'', ''struct sched_param'', ''struct sched_attr'',
      ''struct sel_arg_struct'', ''struct semaphore'', ''struct sembuf'', ''struct shmid_ds'',
      ''struct sockaddr'', ''struct stat'', ''struct stat64'', ''struct statfs'', ''struct statfs64'',
      ''struct statx'', ''struct __sysctl_args'', ''struct sysinfo'', ''struct timespec'',
      ''struct timeval'', ''struct timex'', ''struct timezone'', ''struct tms'', ''struct utimbuf'',
      ''struct mq_attr'', ''struct compat_stat'', ''struct old_timeval32'', ''struct robust_list_head'',
      ''struct getcpu_cache'', ''struct old_linux_dirent'', ''struct perf_event_attr'',
      ''struct file_handle'', ''struct sigaltstack'', ''struct rseq'', ''union bpf_attr'']"

definition sys_prototypes_1 :: "prototype list" where
  "sys_prototypes_1 =
    [sys_proto [] ''io_setup'' [(Ty ''unsigned'', ''nr_reqs''), (user_ptr ''aio_context_t'', ''ctx'')],
     sys_proto [] ''io_destroy'' [(Ty ''aio_context_t'', ''ctx'')],
     sys_proto [] ''io_submit'' [(Ty ''aio_context_t'', ''''), (Ty ''long'', ''''),
       (Ptr (User (Ptr (User (Ty ''struct iocb'')))), '''')],
     sys_proto [] ''io_cancel'' [(Ty ''aio_context_t'', ''ctx_id''), (user_ptr ''struct iocb'', ''iocb''),
       (user_ptr ''struct io_event'', ''result'')],
     sys_proto [] ''io_getevents'' [(Ty ''aio_context_t'', ''ctx_id''), (Ty ''long'', ''min_nr''),
       (Ty ''long'', ''nr''), (user_ptr ''struct io_event'', ''events''),
       (user_ptr ''struct __kernel_timespec'', ''timeout'')],
     sys_proto [] ''io_pgetevents'' [(Ty ''aio_context_t'', ''ctx_id''), (Ty ''long'', ''min_nr''),
       (Ty ''long'', ''nr''), (user_ptr ''struct io_event'', ''events''),
       (user_ptr ''struct __kernel_timespec'', ''timeout''), (Ptr (Const (Ty ''struct __aio_sigset'')),
       ''sig'')],
     sys_proto [] ''io_pgetevents_time32'' [(Ty ''aio_context_t'', ''ctx_id''), (Ty ''long'', ''min_nr''),
       (Ty ''long'', ''nr''), (user_ptr ''struct io_event'', ''events''),
       (user_ptr ''struct old_timespec32'', ''timeout''), (Ptr (Const (Ty ''struct __aio_sigset'')),
       ''sig'')],
     sys_proto [] ''setxattr'' [(const_user_ptr ''char'', ''path''), (const_user_ptr ''char'', ''name''),
       (const_user_ptr ''void'', ''value''), (Ty ''size_t'', ''size''), (Ty ''int'', ''flags'')],
     sys_proto [] ''lsetxattr'' [(const_user_ptr ''char'', ''path''), (const_user_ptr ''char'', ''name''),
       (const_user_ptr ''void'', ''value''), (Ty ''size_t'', ''size''), (Ty ''int'', ''flags'')],
     sys_proto [] ''fsetxattr'' [(Ty ''int'', ''fd''), (const_user_ptr ''char'', ''name''),
       (const_user_ptr ''void'', ''value''), (Ty ''size_t'', ''size''), (Ty ''int'', ''flags'')],
     sys_proto [] ''getxattr'' [(const_user_ptr ''char'', ''path''), (const_user_ptr ''char'', ''name''),
       (user_ptr ''void'', ''value''), (Ty ''size_t'', ''size'')],
     sys_proto [] ''lgetxattr'' [(const_user_ptr ''char'', ''path''), (const_user_ptr ''char'', ''name''),
       (user_ptr ''void'', ''value''), (Ty ''size_t'', ''size'')],
     sys_proto [] ''fgetxattr'' [(Ty ''int'', ''fd''), (const_user_ptr ''char'', ''name''),
       (user_ptr ''void'', ''value''), (Ty ''size_t'', ''size'')],
     sys_proto [] ''listxattr'' [(const_user_ptr ''char'', ''path''), (user_ptr ''char'', ''list''),
       (Ty ''size_t'', ''size'')],
     sys_proto [] ''llistxattr'' [(const_user_ptr ''char'', ''path''), (user_ptr ''char'', ''list''),
       (Ty ''size_t'', ''size'')],
     sys_proto [] ''flistxattr'' [(Ty ''int'', ''fd''), (user_ptr ''char'', ''list''), (Ty ''size_t'',
       ''size'')],
     sys_proto [] ''removexattr'' [(const_user_ptr ''char'', ''path''), (const_user_ptr ''char'',
       ''name'')],
     sys_proto [] ''lremovexattr'' [(const_user_ptr ''char'', ''path''), (const_user_ptr ''char'',
       ''name'')],
     sys_proto [] ''fremovexattr'' [(Ty ''int'', ''fd''), (const_user_ptr ''char'', ''name'')],
     sys_proto [] ''getcwd'' [(user_ptr ''char'', ''buf''), (Ty ''unsigned long'', ''size'')],
     sys_proto [] ''lookup_dcookie'' [(Ty ''u64'', ''cookie64''), (user_ptr ''char'', ''buf''),
       (Ty ''size_t'', ''len'')],
     sys_proto [] ''eventfd2'' [(Ty ''unsigned int'', ''count''), (Ty ''int'', ''flags'')],
     sys_proto [] ''epoll_create1'' [(Ty ''int'', ''flags'')],
     sys_proto [] ''epoll_ctl'' [(Ty ''int'', ''epfd''), (Ty ''int'', ''op''), (Ty ''int'', ''fd''),
       (user_ptr ''struct epoll_event'', ''event'')],
     sys_proto [] ''epoll_pwait'' [(Ty ''int'', ''epfd''), (user_ptr ''struct epoll_event'', ''events''),
       (Ty ''int'', ''maxevents''), (Ty ''int'', ''timeout''), (const_user_ptr ''sigset_t'', ''sigmask''),
       (Ty ''size_t'', ''sigsetsize'')],
     sys_proto [] ''dup'' [(Ty ''unsigned int'', ''fildes'')],
     sys_proto [] ''dup3'' [(Ty ''unsigned int'', ''oldfd''), (Ty ''unsigned int'', ''newfd''),
       (Ty ''int'', ''flags'')],
     sys_proto [] ''fcntl'' [(Ty ''unsigned int'', ''fd''), (Ty ''unsigned int'', ''cmd''),
       (Ty ''unsigned long'', ''arg'')],
     sys_proto [Long_32] ''fcntl64'' [(Ty ''unsigned int'', ''fd''), (Ty ''unsigned int'', ''cmd''),
       (Ty ''unsigned long'', ''arg'')],
     sys_proto [] ''inotify_init1'' [(Ty ''int'', ''flags'')],
     sys_proto [] ''inotify_add_watch'' [(Ty ''int'', ''fd''), (const_user_ptr ''char'', ''path''),
       (Ty ''u32'', ''mask'')],
     sys_proto [] ''inotify_rm_watch'' [(Ty ''int'', ''fd''), (Ty ''__s32'', ''wd'')],
     sys_proto [] ''ioctl'' [(Ty ''unsigned int'', ''fd''), (Ty ''unsigned int'', ''cmd''),
       (Ty ''unsigned long'', ''arg'')],
     sys_proto [] ''ioprio_set'' [(Ty ''int'', ''which''), (Ty ''int'', ''who''), (Ty ''int'', ''ioprio'')],
     sys_proto [] ''ioprio_get'' [(Ty ''int'', ''which''), (Ty ''int'', ''who'')],
     sys_proto [] ''flock'' [(Ty ''unsigned int'', ''fd''), (Ty ''unsigned int'', ''cmd'')],
     sys_proto [] ''mknodat'' [(Ty ''int'', ''dfd''), (const_user_ptr ''char'', ''filename''),
       (Ty ''umode_t'', ''mode''), (Ty ''unsigned'', ''dev'')],
     sys_proto [] ''mkdirat'' [(Ty ''int'', ''dfd''), (const_user_ptr ''char'', ''pathname''),
       (Ty ''umode_t'', ''mode'')],
     sys_proto [] ''unlinkat'' [(Ty ''int'', ''dfd''), (const_user_ptr ''char'', ''pathname''),
       (Ty ''int'', ''flag'')],
     sys_proto [] ''symlinkat'' [(const_user_ptr ''char'', ''oldname''), (Ty ''int'', ''newdfd''),
       (const_user_ptr ''char'', ''newname'')],
     sys_proto [] ''linkat'' [(Ty ''int'', ''olddfd''), (const_user_ptr ''char'', ''oldname''),
       (Ty ''int'', ''newdfd''), (const_user_ptr ''char'', ''newname''), (Ty ''int'', ''flags'')],
     sys_proto [] ''renameat'' [(Ty ''int'', ''olddfd''), (const_user_ptr ''char'', ''oldname''),
       (Ty ''int'', ''newdfd''), (const_user_ptr ''char'', ''newname'')],
     sys_proto [] ''umount'' [(user_ptr ''char'', ''name''), (Ty ''int'', ''flags'')],
     sys_proto [] ''mount'' [(user_ptr ''char'', ''dev_name''), (user_ptr ''char'', ''dir_name''),
       (user_ptr ''char'', ''type''), (Ty ''unsigned long'', ''flags''), (user_ptr ''void'', ''data'')],
     sys_proto [] ''pivot_root'' [(const_user_ptr ''char'', ''new_root''), (const_user_ptr ''char'',
       ''put_old'')],
     sys_proto [] ''statfs'' [(const_user_ptr ''char'', ''path''), (user_ptr ''struct statfs'', ''buf'')],
     sys_proto [] ''statfs64'' [(const_user_ptr ''char'', ''path''), (Ty ''size_t'', ''sz''),
       (user_ptr ''struct statfs64'', ''buf'')],
     sys_proto [] ''fstatfs'' [(Ty ''unsigned int'', ''fd''), (user_ptr ''struct statfs'', ''buf'')],
     sys_proto [] ''fstatfs64'' [(Ty ''unsigned int'', ''fd''), (Ty ''size_t'', ''sz''),
       (user_ptr ''struct statfs64'', ''buf'')],
     sys_proto [] ''truncate'' [(const_user_ptr ''char'', ''path''), (Ty ''long'', ''length'')],
     sys_proto [] ''ftruncate'' [(Ty ''unsigned int'', ''fd''), (Ty ''unsigned long'', ''length'')],
     sys_proto [Long_32] ''truncate64'' [(const_user_ptr ''char'', ''path''), (Ty ''loff_t'', ''length'')],
     sys_proto [Long_32] ''ftruncate64'' [(Ty ''unsigned int'', ''fd''), (Ty ''loff_t'', ''length'')],
     sys_proto [] ''fallocate'' [(Ty ''int'', ''fd''), (Ty ''int'', ''mode''), (Ty ''loff_t'', ''offset''),
       (Ty ''loff_t'', ''len'')],
     sys_proto [] ''faccessat'' [(Ty ''int'', ''dfd''), (const_user_ptr ''char'', ''filename''),
       (Ty ''int'', ''mode'')],
     sys_proto [] ''chdir'' [(const_user_ptr ''char'', ''filename'')],
     sys_proto [] ''fchdir'' [(Ty ''unsigned int'', ''fd'')],
     sys_proto [] ''chroot'' [(const_user_ptr ''char'', ''filename'')],
     sys_proto [] ''fchmod'' [(Ty ''unsigned int'', ''fd''), (Ty ''umode_t'', ''mode'')],
     sys_proto [] ''fchmodat'' [(Ty ''int'', ''dfd''), (const_user_ptr ''char'', ''filename''),
       (Ty ''umode_t'', ''mode'')],
     sys_proto [] ''fchownat'' [(Ty ''int'', ''dfd''), (const_user_ptr ''char'', ''filename''),
       (Ty ''uid_t'', ''user''), (Ty ''gid_t'', ''group''), (Ty ''int'', ''flag'')],
     sys_proto [] ''fchown'' [(Ty ''unsigned int'', ''fd''), (Ty ''uid_t'', ''user''), (Ty ''gid_t'',
       ''group'')],
     sys_proto [] ''openat'' [(Ty ''int'', ''dfd''), (const_user_ptr ''char'', ''filename''), (Ty ''int'',
       ''flags''), (Ty ''umode_t'', ''mode'')],
     sys_proto [] ''close'' [(Ty ''unsigned int'', ''fd'')],
     sys_proto [] ''vhangup'' [],
     sys_proto [] ''pipe2'' [(user_ptr ''int'', ''fildes''), (Ty ''int'', ''flags'')],
     sys_proto [] ''quotactl'' [(Ty ''unsigned int'', ''cmd''), (const_user_ptr ''char'', ''special''),
       (Ty ''qid_t'', ''id''), (user_ptr ''void'', ''addr'')]]"

definition sys_prototypes_2 :: "prototype list" where
  "sys_prototypes_2 =
    [sys_proto [] ''getdents64'' [(Ty ''unsigned int'', ''fd''), (user_ptr ''struct linux_dirent64'',
       ''dirent''), (Ty ''unsigned int'', ''count'')],
     sys_proto [] ''llseek'' [(Ty ''unsigned int'', ''fd''), (Ty ''unsigned long'', ''offset_high''),
       (Ty ''unsigned long'', ''offset_low''), (user_ptr ''loff_t'', ''result''), (Ty ''unsigned int'',
       ''whence'')],
     sys_proto [] ''lseek'' [(Ty ''unsigned int'', ''fd''), (Ty ''off_t'', ''offset''),
       (Ty ''unsigned int'', ''whence'')],
     sys_proto [] ''read'' [(Ty ''unsigned int'', ''fd''), (user_ptr ''char'', ''buf''), (Ty ''size_t'',
       ''count'')],
     sys_proto [] ''write'' [(Ty ''unsigned int'', ''fd''), (const_user_ptr ''char'', ''buf''),
       (Ty ''size_t'', ''count'')],
     sys_proto [] ''readv'' [(Ty ''unsigned long'', ''fd''), (const_user_ptr ''struct iovec'', ''vec''),
       (Ty ''unsigned long'', ''vlen'')],
     sys_proto [] ''writev'' [(Ty ''unsigned long'', ''fd''), (const_user_ptr ''struct iovec'', ''vec''),
       (Ty ''unsigned long'', ''vlen'')],
     sys_proto [] ''pread64'' [(Ty ''unsigned int'', ''fd''), (user_ptr ''char'', ''buf''), (Ty ''size_t'',
       ''count''), (Ty ''loff_t'', ''pos'')],
     sys_proto [] ''pwrite64'' [(Ty ''unsigned int'', ''fd''), (const_user_ptr ''char'', ''buf''),
       (Ty ''size_t'', ''count''), (Ty ''loff_t'', ''pos'')],
     sys_proto [] ''preadv'' [(Ty ''unsigned long'', ''fd''), (const_user_ptr ''struct iovec'', ''vec''),
       (Ty ''unsigned long'', ''vlen''), (Ty ''unsigned long'', ''pos_l''), (Ty ''unsigned long'',
       ''pos_h'')],
     sys_proto [] ''pwritev'' [(Ty ''unsigned long'', ''fd''), (const_user_ptr ''struct iovec'', ''vec''),
       (Ty ''unsigned long'', ''vlen''), (Ty ''unsigned long'', ''pos_l''), (Ty ''unsigned long'',
       ''pos_h'')],
     sys_proto [] ''sendfile64'' [(Ty ''int'', ''out_fd''), (Ty ''int'', ''in_fd''), (user_ptr ''loff_t'',
       ''offset''), (Ty ''size_t'', ''count'')],
     sys_proto [] ''pselect6'' [(Ty ''int'', ''''), (user_ptr ''fd_set'', ''''), (user_ptr ''fd_set'',
       ''''), (user_ptr ''fd_set'', ''''), (user_ptr ''struct __kernel_timespec'', ''''),
       (user_ptr ''void'', '''')],
     sys_proto [] ''pselect6_time32'' [(Ty ''int'', ''''), (user_ptr ''fd_set'', ''''),
       (user_ptr ''fd_set'', ''''), (user_ptr ''fd_set'', ''''), (user_ptr ''struct old_timespec32'',
       ''''), (user_ptr ''void'', '''')],
     sys_proto [] ''ppoll'' [(user_ptr ''struct pollfd'', ''''), (Ty ''unsigned int'', ''''),
       (user_ptr ''struct __kernel_timespec'', ''''), (const_user_ptr ''sigset_t'', ''''), (Ty ''size_t'',
       '''')],
     sys_proto [] ''ppoll_time32'' [(user_ptr ''struct pollfd'', ''''), (Ty ''unsigned int'', ''''),
       (user_ptr ''struct old_timespec32'', ''''), (const_user_ptr ''sigset_t'', ''''), (Ty ''size_t'',
       '''')],
     sys_proto [] ''signalfd4'' [(Ty ''int'', ''ufd''), (user_ptr ''sigset_t'', ''user_mask''),
       (Ty ''size_t'', ''sizemask''), (Ty ''int'', ''flags'')],
     sys_proto [] ''vmsplice'' [(Ty ''int'', ''fd''), (const_user_ptr ''struct iovec'', ''iov''),
       (Ty ''unsigned long'', ''nr_segs''), (Ty ''unsigned int'', ''flags'')],
     sys_proto [] ''splice'' [(Ty ''int'', ''fd_in''), (user_ptr ''loff_t'', ''off_in''), (Ty ''int'',
       ''fd_out''), (user_ptr ''loff_t'', ''off_out''), (Ty ''size_t'', ''len''), (Ty ''unsigned int'',
       ''flags'')],
     sys_proto [] ''tee'' [(Ty ''int'', ''fdin''), (Ty ''int'', ''fdout''), (Ty ''size_t'', ''len''),
       (Ty ''unsigned int'', ''flags'')],
     sys_proto [] ''readlinkat'' [(Ty ''int'', ''dfd''), (const_user_ptr ''char'', ''path''),
       (user_ptr ''char'', ''buf''), (Ty ''int'', ''bufsiz'')],
     sys_proto [] ''newfstatat'' [(Ty ''int'', ''dfd''), (const_user_ptr ''char'', ''filename''),
       (user_ptr ''struct stat'', ''statbuf''), (Ty ''int'', ''flag'')],
     sys_proto [] ''newfstat'' [(Ty ''unsigned int'', ''fd''), (user_ptr ''struct stat'', ''statbuf'')],
     sys_proto [Either (Defined ''__ARCH_WANT_STAT64'') (Defined ''__ARCH_WANT_COMPAT_STAT64'')] ''fstat64'' [(Ty ''unsigned long'',
       ''fd''), (user_ptr ''struct stat64'', ''statbuf'')],
     sys_proto [Either (Defined ''__ARCH_WANT_STAT64'') (Defined ''__ARCH_WANT_COMPAT_STAT64'')] ''fstatat64'' [(Ty ''int'',
       ''dfd''), (const_user_ptr ''char'', ''filename''), (user_ptr ''struct stat64'', ''statbuf''),
       (Ty ''int'', ''flag'')],
     sys_proto [] ''sync'' [],
     sys_proto [] ''fsync'' [(Ty ''unsigned int'', ''fd'')],
     sys_proto [] ''fdatasync'' [(Ty ''unsigned int'', ''fd'')],
     sys_proto [] ''sync_file_range2'' [(Ty ''int'', ''fd''), (Ty ''unsigned int'', ''flags''),
       (Ty ''loff_t'', ''offset''), (Ty ''loff_t'', ''nbytes'')],
     sys_proto [] ''sync_file_range'' [(Ty ''int'', ''fd''), (Ty ''loff_t'', ''offset''), (Ty ''loff_t'',
       ''nbytes''), (Ty ''unsigned int'', ''flags'')],
     sys_proto [] ''timerfd_create'' [(Ty ''int'', ''clockid''), (Ty ''int'', ''flags'')],
     sys_proto [] ''timerfd_settime'' [(Ty ''int'', ''ufd''), (Ty ''int'', ''flags''),
       (const_user_ptr ''struct __kernel_itimerspec'', ''utmr''), (user_ptr ''struct __kernel_itimerspec'',
       ''otmr'')],
     sys_proto [] ''timerfd_gettime'' [(Ty ''int'', ''ufd''), (user_ptr ''struct __kernel_itimerspec'',
       ''otmr'')],
     sys_proto [] ''utimensat'' [(Ty ''int'', ''dfd''), (const_user_ptr ''char'', ''filename''),
       (user_ptr ''struct __kernel_timespec'', ''utimes''), (Ty ''int'', ''flags'')],
     sys_proto [] ''acct'' [(const_user_ptr ''char'', ''name'')],
     sys_proto [] ''capget'' [(Ty ''cap_user_header_t'', ''header''), (Ty ''cap_user_data_t'',
       ''dataptr'')],
     sys_proto [] ''capset'' [(Ty ''cap_user_header_t'', ''header''), (Const (Ty ''cap_user_data_t''),
       ''data'')],
     sys_proto [] ''personality'' [(Ty ''unsigned int'', ''personality'')],
     sys_proto [] ''exit'' [(Ty ''int'', ''error_code'')],
     sys_proto [] ''exit_group'' [(Ty ''int'', ''error_code'')],
     sys_proto [] ''waitid'' [(Ty ''int'', ''which''), (Ty ''pid_t'', ''pid''),
       (user_ptr ''struct siginfo'', ''infop''), (Ty ''int'', ''options''), (user_ptr ''struct rusage'',
       ''ru'')],
     sys_proto [] ''set_tid_address'' [(user_ptr ''int'', ''tidptr'')],
     sys_proto [] ''unshare'' [(Ty ''unsigned long'', ''unshare_flags'')],
     sys_proto [] ''futex'' [(user_ptr ''u32'', ''uaddr''), (Ty ''int'', ''op''), (Ty ''u32'', ''val''),
       (user_ptr ''struct __kernel_timespec'', ''utime''), (user_ptr ''u32'', ''uaddr2''), (Ty ''u32'',
       ''val3'')],
     sys_proto [] ''get_robust_list'' [(Ty ''int'', ''pid''),
       (Ptr (User (Ptr (User (Ty ''struct robust_list_head'')))), ''head_ptr''), (user_ptr ''size_t'',
       ''len_ptr'')],
     sys_proto [] ''set_robust_list'' [(user_ptr ''struct robust_list_head'', ''head''), (Ty ''size_t'',
       ''len'')],
     sys_proto [] ''nanosleep'' [(user_ptr ''struct __kernel_timespec'', ''rqtp''),
       (user_ptr ''struct __kernel_timespec'', ''rmtp'')],
     sys_proto [] ''getitimer'' [(Ty ''int'', ''which''), (user_ptr ''struct itimerval'', ''value'')],
     sys_proto [] ''setitimer'' [(Ty ''int'', ''which''), (user_ptr ''struct itimerval'', ''value''),
       (user_ptr ''struct itimerval'', ''ovalue'')],
     sys_proto [] ''kexec_load'' [(Ty ''unsigned long'', ''entry''), (Ty ''unsigned long'',
       ''nr_segments''), (user_ptr ''struct kexec_segment'', ''segments''), (Ty ''unsigned long'',
       ''flags'')],
     sys_proto [] ''init_module'' [(user_ptr ''void'', ''umod''), (Ty ''unsigned long'', ''len''),
       (const_user_ptr ''char'', ''uargs'')],
     sys_proto [] ''delete_module'' [(const_user_ptr ''char'', ''name_user''), (Ty ''unsigned int'',
       ''flags'')]]"

definition sys_prototypes_3 :: "prototype list" where
  "sys_prototypes_3 =
    [sys_proto [] ''timer_create'' [(Ty ''clockid_t'', ''which_clock''), (user_ptr ''struct sigevent'',
       ''timer_event_spec''), (user_ptr ''timer_t'', ''created_timer_id'')],
     sys_proto [] ''timer_gettime'' [(Ty ''timer_t'', ''timer_id''),
       (user_ptr ''struct __kernel_itimerspec'', ''setting'')],
     sys_proto [] ''timer_getoverrun'' [(Ty ''timer_t'', ''timer_id'')],
     sys_proto [] ''timer_settime'' [(Ty ''timer_t'', ''timer_id''), (Ty ''int'', ''flags''),
       (const_user_ptr ''struct __kernel_itimerspec'', ''new_setting''), (user_ptr ''struct itimerspec'',
       ''old_setting'')],
     sys_proto [] ''timer_delete'' [(Ty ''timer_t'', ''timer_id'')],
     sys_proto [] ''clock_settime'' [(Ty ''clockid_t'', ''which_clock''),
       (const_user_ptr ''struct __kernel_timespec'', ''tp'')],
     sys_proto [] ''clock_gettime'' [(Ty ''clockid_t'', ''which_clock''),
       (user_ptr ''struct __kernel_timespec'', ''tp'')],
     sys_proto [] ''clock_getres'' [(Ty ''clockid_t'', ''which_clock''),
       (user_ptr ''struct __kernel_timespec'', ''tp'')],
     sys_proto [] ''clock_nanosleep'' [(Ty ''clockid_t'', ''which_clock''), (Ty ''int'', ''flags''),
       (const_user_ptr ''struct __kernel_timespec'', ''rqtp''), (user_ptr ''struct __kernel_timespec'',
       ''rmtp'')],
     sys_proto [] ''syslog'' [(Ty ''int'', ''type''), (user_ptr ''char'', ''buf''), (Ty ''int'', ''len'')],
     sys_proto [] ''ptrace'' [(Ty ''long'', ''request''), (Ty ''long'', ''pid''), (Ty ''unsigned long'',
       ''addr''), (Ty ''unsigned long'', ''data'')],
     sys_proto [] ''sched_setparam'' [(Ty ''pid_t'', ''pid''), (user_ptr ''struct sched_param'',
       ''param'')],
     sys_proto [] ''sched_setscheduler'' [(Ty ''pid_t'', ''pid''), (Ty ''int'', ''policy''),
       (user_ptr ''struct sched_param'', ''param'')],
     sys_proto [] ''sched_getscheduler'' [(Ty ''pid_t'', ''pid'')],
     sys_proto [] ''sched_getparam'' [(Ty ''pid_t'', ''pid''), (user_ptr ''struct sched_param'',
       ''param'')],
     sys_proto [] ''sched_setaffinity'' [(Ty ''pid_t'', ''pid''), (Ty ''unsigned int'', ''len''),
       (user_ptr ''unsigned long'', ''user_mask_ptr'')],
     sys_proto [] ''sched_getaffinity'' [(Ty ''pid_t'', ''pid''), (Ty ''unsigned int'', ''len''),
       (user_ptr ''unsigned long'', ''user_mask_ptr'')],
     sys_proto [] ''sched_yield'' [],
     sys_proto [] ''sched_get_priority_max'' [(Ty ''int'', ''policy'')],
     sys_proto [] ''sched_get_priority_min'' [(Ty ''int'', ''policy'')],
     sys_proto [] ''sched_rr_get_interval'' [(Ty ''pid_t'', ''pid''),
       (user_ptr ''struct __kernel_timespec'', ''interval'')],
     sys_proto [] ''restart_syscall'' [],
     sys_proto [] ''kill'' [(Ty ''pid_t'', ''pid''), (Ty ''int'', ''sig'')],
     sys_proto [] ''tkill'' [(Ty ''pid_t'', ''pid''), (Ty ''int'', ''sig'')],
     sys_proto [] ''tgkill'' [(Ty ''pid_t'', ''tgid''), (Ty ''pid_t'', ''pid''), (Ty ''int'', ''sig'')],
     sys_proto [] ''sigaltstack'' [(const_user_ptr ''struct sigaltstack'', ''uss''),
       (user_ptr ''struct sigaltstack'', ''uoss'')],
     sys_proto [] ''rt_sigsuspend'' [(user_ptr ''sigset_t'', ''unewset''), (Ty ''size_t'', ''sigsetsize'')],
     sys_proto [Neg (Defined ''CONFIG_ODD_RT_SIGACTION'')] ''rt_sigaction'' [(Ty ''int'', ''''),
       (const_user_ptr ''struct sigaction'', ''''), (user_ptr ''struct sigaction'', ''''), (Ty ''size_t'',
       '''')],
     sys_proto [] ''rt_sigprocmask'' [(Ty ''int'', ''how''), (user_ptr ''sigset_t'', ''set''),
       (user_ptr ''sigset_t'', ''oset''), (Ty ''size_t'', ''sigsetsize'')],
     sys_proto [] ''rt_sigpending'' [(user_ptr ''sigset_t'', ''set''), (Ty ''size_t'', ''sigsetsize'')],
     sys_proto [] ''rt_sigtimedwait'' [(const_user_ptr ''sigset_t'', ''uthese''), (user_ptr ''siginfo_t'',
       ''uinfo''), (const_user_ptr ''struct __kernel_timespec'', ''uts''), (Ty ''size_t'', ''sigsetsize'')],
     sys_proto [] ''rt_sigtimedwait_time32'' [(const_user_ptr ''sigset_t'', ''uthese''),
       (user_ptr ''siginfo_t'', ''uinfo''), (const_user_ptr ''struct old_timespec32'', ''uts''),
       (Ty ''size_t'', ''sigsetsize'')],
     sys_proto [] ''rt_sigqueueinfo'' [(Ty ''pid_t'', ''pid''), (Ty ''int'', ''sig''),
       (user_ptr ''siginfo_t'', ''uinfo'')],
     sys_proto [] ''setpriority'' [(Ty ''int'', ''which''), (Ty ''int'', ''who''), (Ty ''int'',
       ''niceval'')],
     sys_proto [] ''getpriority'' [(Ty ''int'', ''which''), (Ty ''int'', ''who'')],
     sys_proto [] ''reboot'' [(Ty ''int'', ''magic1''), (Ty ''int'', ''magic2''), (Ty ''unsigned int'',
       ''cmd''), (user_ptr ''void'', ''arg'')],
     sys_proto [] ''setregid'' [(Ty ''gid_t'', ''rgid''), (Ty ''gid_t'', ''egid'')],
     sys_proto [] ''setgid'' [(Ty ''gid_t'', ''gid'')],
     sys_proto [] ''setreuid'' [(Ty ''uid_t'', ''ruid''), (Ty ''uid_t'', ''euid'')],
     sys_proto [] ''setuid'' [(Ty ''uid_t'', ''uid'')],
     sys_proto [] ''setresuid'' [(Ty ''uid_t'', ''ruid''), (Ty ''uid_t'', ''euid''), (Ty ''uid_t'',
       ''suid'')],
     sys_proto [] ''getresuid'' [(user_ptr ''uid_t'', ''ruid''), (user_ptr ''uid_t'', ''euid''),
       (user_ptr ''uid_t'', ''suid'')],
     sys_proto [] ''setresgid'' [(Ty ''gid_t'', ''rgid''), (Ty ''gid_t'', ''egid''), (Ty ''gid_t'',
       ''sgid'')],
     sys_proto [] ''getresgid'' [(user_ptr ''gid_t'', ''rgid''), (user_ptr ''gid_t'', ''egid''),
       (user_ptr ''gid_t'', ''sgid'')],
     sys_proto [] ''setfsuid'' [(Ty ''uid_t'', ''uid'')],
     sys_proto [] ''setfsgid'' [(Ty ''gid_t'', ''gid'')],
     sys_proto [] ''times'' [(user_ptr ''struct tms'', ''tbuf'')],
     sys_proto [] ''setpgid'' [(Ty ''pid_t'', ''pid''), (Ty ''pid_t'', ''pgid'')],
     sys_proto [] ''getpgid'' [(Ty ''pid_t'', ''pid'')],
     sys_proto [] ''getsid'' [(Ty ''pid_t'', ''pid'')],
     sys_proto [] ''setsid'' [],
     sys_proto [] ''getgroups'' [(Ty ''int'', ''gidsetsize''), (user_ptr ''gid_t'', ''grouplist'')],
     sys_proto [] ''setgroups'' [(Ty ''int'', ''gidsetsize''), (user_ptr ''gid_t'', ''grouplist'')],
     sys_proto [] ''newuname'' [(user_ptr ''struct new_utsname'', ''name'')],
     sys_proto [] ''sethostname'' [(user_ptr ''char'', ''name''), (Ty ''int'', ''len'')],
     sys_proto [] ''setdomainname'' [(user_ptr ''char'', ''name''), (Ty ''int'', ''len'')],
     sys_proto [] ''getrlimit'' [(Ty ''unsigned int'', ''resource''), (user_ptr ''struct rlimit'',
       ''rlim'')],
     sys_proto [] ''setrlimit'' [(Ty ''unsigned int'', ''resource''), (user_ptr ''struct rlimit'',
       ''rlim'')],
     sys_proto [] ''getrusage'' [(Ty ''int'', ''who''), (user_ptr ''struct rusage'', ''ru'')],
     sys_proto [] ''umask'' [(Ty ''int'', ''mask'')],
     sys_proto [] ''prctl'' [(Ty ''int'', ''option''), (Ty ''unsigned long'', ''arg2''),
       (Ty ''unsigned long'', ''arg3''), (Ty ''unsigned long'', ''arg4''), (Ty ''unsigned long'',
       ''arg5'')],
     sys_proto [] ''getcpu'' [(user_ptr ''unsigned'', ''cpu''), (user_ptr ''unsigned'', ''node''),
       (user_ptr ''struct getcpu_cache'', ''cache'')],
     sys_proto [] ''gettimeofday'' [(user_ptr ''struct timeval'', ''tv''), (user_ptr ''struct timezone'',
       ''tz'')],
     sys_proto [] ''settimeofday'' [(user_ptr ''struct timeval'', ''tv''), (user_ptr ''struct timezone'',
       ''tz'')],
     sys_proto [] ''adjtimex'' [(user_ptr ''struct timex'', ''txc_p'')],
     sys_proto [] ''getpid'' [],
     sys_proto [] ''getppid'' [],
     sys_proto [] ''getuid'' [],
     sys_proto [] ''geteuid'' [],
     sys_proto [] ''getgid'' [],
     sys_proto [] ''getegid'' [],
     sys_proto [] ''gettid'' [],
     sys_proto [] ''sysinfo'' [(user_ptr ''struct sysinfo'', ''info'')],
     sys_proto [] ''mq_open'' [(const_user_ptr ''char'', ''name''), (Ty ''int'', ''oflag''),
       (Ty ''umode_t'', ''mode''), (user_ptr ''struct mq_attr'', ''attr'')],
     sys_proto [] ''mq_unlink'' [(const_user_ptr ''char'', ''name'')],
     sys_proto [] ''mq_timedsend'' [(Ty ''mqd_t'', ''mqdes''), (const_user_ptr ''char'', ''msg_ptr''),
       (Ty ''size_t'', ''msg_len''), (Ty ''unsigned int'', ''msg_prio''),
       (const_user_ptr ''struct __kernel_timespec'', ''abs_timeout'')],
     sys_proto [] ''mq_timedreceive'' [(Ty ''mqd_t'', ''mqdes''), (user_ptr ''char'', ''msg_ptr''),
       (Ty ''size_t'', ''msg_len''), (user_ptr ''unsigned int'', ''msg_prio''),
       (const_user_ptr ''struct __kernel_timespec'', ''abs_timeout'')],
     sys_proto [] ''mq_notify'' [(Ty ''mqd_t'', ''mqdes''), (const_user_ptr ''struct sigevent'',
       ''notification'')],
     sys_proto [] ''mq_getsetattr'' [(Ty ''mqd_t'', ''mqdes''), (const_user_ptr ''struct mq_attr'',
       ''mqstat''), (user_ptr ''struct mq_attr'', ''omqstat'')],
     sys_proto [] ''msgget'' [(Ty ''key_t'', ''key''), (Ty ''int'', ''msgflg'')],
     sys_proto [] ''msgctl'' [(Ty ''int'', ''msqid''), (Ty ''int'', ''cmd''),
       (user_ptr ''struct msqid_ds'', ''buf'')],
     sys_proto [] ''msgrcv'' [(Ty ''int'', ''msqid''), (user_ptr ''struct msgbuf'', ''msgp''),
       (Ty ''size_t'', ''msgsz''), (Ty ''long'', ''msgtyp''), (Ty ''int'', ''msgflg'')],
     sys_proto [] ''msgsnd'' [(Ty ''int'', ''msqid''), (user_ptr ''struct msgbuf'', ''msgp''),
       (Ty ''size_t'', ''msgsz''), (Ty ''int'', ''msgflg'')],
     sys_proto [] ''semget'' [(Ty ''key_t'', ''key''), (Ty ''int'', ''nsems''), (Ty ''int'', ''semflg'')],
     sys_proto [] ''semctl'' [(Ty ''int'', ''semid''), (Ty ''int'', ''semnum''), (Ty ''int'', ''cmd''),
       (Ty ''unsigned long'', ''arg'')],
     sys_proto [] ''semtimedop'' [(Ty ''int'', ''semid''), (user_ptr ''struct sembuf'', ''sops''),
       (Ty ''unsigned'', ''nsops''), (const_user_ptr ''struct __kernel_timespec'', ''timeout'')],
     sys_proto [] ''semop'' [(Ty ''int'', ''semid''), (user_ptr ''struct sembuf'', ''sops''),
       (Ty ''unsigned'', ''nsops'')]]"

definition sys_prototypes_4 :: "prototype list" where
  "sys_prototypes_4 =
    [sys_proto [] ''shmget'' [(Ty ''key_t'', ''key''), (Ty ''size_t'', ''size''), (Ty ''int'', ''flag'')],
     sys_proto [] ''shmctl'' [(Ty ''int'', ''shmid''), (Ty ''int'', ''cmd''),
       (user_ptr ''struct shmid_ds'', ''buf'')],
     sys_proto [] ''shmat'' [(Ty ''int'', ''shmid''), (user_ptr ''char'', ''shmaddr''), (Ty ''int'',
       ''shmflg'')],
     sys_proto [] ''shmdt'' [(user_ptr ''char'', ''shmaddr'')],
     sys_proto [] ''socket'' [(Ty ''int'', ''''), (Ty ''int'', ''''), (Ty ''int'', '''')],
     sys_proto [] ''socketpair'' [(Ty ''int'', ''''), (Ty ''int'', ''''), (Ty ''int'', ''''),
       (user_ptr ''int'', '''')],
     sys_proto [] ''bind'' [(Ty ''int'', ''''), (user_ptr ''struct sockaddr'', ''''), (Ty ''int'', '''')],
     sys_proto [] ''listen'' [(Ty ''int'', ''''), (Ty ''int'', '''')],
     sys_proto [] ''accept'' [(Ty ''int'', ''''), (user_ptr ''struct sockaddr'', ''''), (user_ptr ''int'',
       '''')],
     sys_proto [] ''connect'' [(Ty ''int'', ''''), (user_ptr ''struct sockaddr'', ''''), (Ty ''int'',
       '''')],
     sys_proto [] ''getsockname'' [(Ty ''int'', ''''), (user_ptr ''struct sockaddr'', ''''),
       (user_ptr ''int'', '''')],
     sys_proto [] ''getpeername'' [(Ty ''int'', ''''), (user_ptr ''struct sockaddr'', ''''),
       (user_ptr ''int'', '''')],
     sys_proto [] ''sendto'' [(Ty ''int'', ''''), (user_ptr ''void'', ''''), (Ty ''size_t'', ''''),
       (Ty ''unsigned'', ''''), (user_ptr ''struct sockaddr'', ''''), (Ty ''int'', '''')],
     sys_proto [] ''recvfrom'' [(Ty ''int'', ''''), (user_ptr ''void'', ''''), (Ty ''size_t'', ''''),
       (Ty ''unsigned'', ''''), (user_ptr ''struct sockaddr'', ''''), (user_ptr ''int'', '''')],
     sys_proto [] ''setsockopt'' [(Ty ''int'', ''fd''), (Ty ''int'', ''level''), (Ty ''int'', ''optname''),
       (user_ptr ''char'', ''optval''), (Ty ''int'', ''optlen'')],
     sys_proto [] ''getsockopt'' [(Ty ''int'', ''fd''), (Ty ''int'', ''level''), (Ty ''int'', ''optname''),
       (user_ptr ''char'', ''optval''), (user_ptr ''int'', ''optlen'')],
     sys_proto [] ''shutdown'' [(Ty ''int'', ''''), (Ty ''int'', '''')],
     sys_proto [] ''sendmsg'' [(Ty ''int'', ''fd''), (user_ptr ''struct user_msghdr'', ''msg''),
       (Ty ''unsigned'', ''flags'')],
     sys_proto [] ''recvmsg'' [(Ty ''int'', ''fd''), (user_ptr ''struct user_msghdr'', ''msg''),
       (Ty ''unsigned'', ''flags'')],
     sys_proto [] ''readahead'' [(Ty ''int'', ''fd''), (Ty ''loff_t'', ''offset''), (Ty ''size_t'',
       ''count'')],
     sys_proto [] ''brk'' [(Ty ''unsigned long'', ''brk'')],
     sys_proto [] ''munmap'' [(Ty ''unsigned long'', ''addr''), (Ty ''size_t'', ''len'')],
     sys_proto [] ''mremap'' [(Ty ''unsigned long'', ''addr''), (Ty ''unsigned long'', ''old_len''),
       (Ty ''unsigned long'', ''new_len''), (Ty ''unsigned long'', ''flags''), (Ty ''unsigned long'',
       ''new_addr'')],
     sys_proto [] ''add_key'' [(const_user_ptr ''char'', ''_type''), (const_user_ptr ''char'',
       ''_description''), (const_user_ptr ''void'', ''_payload''), (Ty ''size_t'', ''plen''),
       (Ty ''key_serial_t'', ''destringid'')],
     sys_proto [] ''request_key'' [(const_user_ptr ''char'', ''_type''), (const_user_ptr ''char'',
       ''_description''), (const_user_ptr ''char'', ''_callout_info''), (Ty ''key_serial_t'',
       ''destringid'')],
     sys_proto [] ''keyctl'' [(Ty ''int'', ''cmd''), (Ty ''unsigned long'', ''arg2''),
       (Ty ''unsigned long'', ''arg3''), (Ty ''unsigned long'', ''arg4''), (Ty ''unsigned long'',
       ''arg5'')],
     sys_proto [Defined ''CONFIG_CLONE_BACKWARDS''] ''clone'' [(Ty ''unsigned long'', ''''),
       (Ty ''unsigned long'', ''''), (user_ptr ''int'', ''''), (Ty ''unsigned long'', ''''),
       (user_ptr ''int'', '''')],
     sys_proto [Neg (Defined ''CONFIG_CLONE_BACKWARDS''),
       Defined ''CONFIG_CLONE_BACKWARDS3''] ''clone'' [(Ty ''unsigned long'', ''''), (Ty ''unsigned long'',
       ''''), (Ty ''int'', ''''), (user_ptr ''int'', ''''), (user_ptr ''int'', ''''),
       (Ty ''unsigned long'', '''')],
     sys_proto [Neg (Defined ''CONFIG_CLONE_BACKWARDS''),
       Neg (Defined ''CONFIG_CLONE_BACKWARDS3'')] ''clone'' [(Ty ''unsigned long'', ''''),
       (Ty ''unsigned long'', ''''), (user_ptr ''int'', ''''), (user_ptr ''int'', ''''),
       (Ty ''unsigned long'', '''')],
     sys_proto [] ''execve'' [(const_user_ptr ''char'', ''filename''),
       (Ptr (User (Const (Ptr (User (Const (Ty ''char'')))))), ''argv''),
       (Ptr (User (Const (Ptr (User (Const (Ty ''char'')))))), ''envp'')],
     sys_proto [] ''fadvise64_64'' [(Ty ''int'', ''fd''), (Ty ''loff_t'', ''offset''), (Ty ''loff_t'',
       ''len''), (Ty ''int'', ''advice'')]]"

definition sys_prototypes_5 :: "prototype list" where
  "sys_prototypes_5 =
    [sys_proto [] ''swapon'' [(const_user_ptr ''char'', ''specialfile''), (Ty ''int'', ''swap_flags'')],
     sys_proto [] ''swapoff'' [(const_user_ptr ''char'', ''specialfile'')],
     sys_proto [] ''mprotect'' [(Ty ''unsigned long'', ''start''), (Ty ''size_t'', ''len''),
       (Ty ''unsigned long'', ''prot'')],
     sys_proto [] ''msync'' [(Ty ''unsigned long'', ''start''), (Ty ''size_t'', ''len''), (Ty ''int'',
       ''flags'')],
     sys_proto [] ''mlock'' [(Ty ''unsigned long'', ''start''), (Ty ''size_t'', ''len'')],
     sys_proto [] ''munlock'' [(Ty ''unsigned long'', ''start''), (Ty ''size_t'', ''len'')],
     sys_proto [] ''mlockall'' [(Ty ''int'', ''flags'')],
     sys_proto [] ''munlockall'' [],
     sys_proto [] ''mincore'' [(Ty ''unsigned long'', ''start''), (Ty ''size_t'', ''len''),
       (user_ptr ''unsigned char'', ''vec'')],
     sys_proto [] ''madvise'' [(Ty ''unsigned long'', ''start''), (Ty ''size_t'', ''len''), (Ty ''int'',
       ''behavior'')],
     sys_proto [] ''remap_file_pages'' [(Ty ''unsigned long'', ''start''), (Ty ''unsigned long'',
       ''size''), (Ty ''unsigned long'', ''prot''), (Ty ''unsigned long'', ''pgoff''),
       (Ty ''unsigned long'', ''flags'')],
     sys_proto [] ''mbind'' [(Ty ''unsigned long'', ''start''), (Ty ''unsigned long'', ''len''),
       (Ty ''unsigned long'', ''mode''), (const_user_ptr ''unsigned long'', ''nmask''),
       (Ty ''unsigned long'', ''maxnode''), (Ty ''unsigned'', ''flags'')],
     sys_proto [] ''get_mempolicy'' [(user_ptr ''int'', ''policy''), (user_ptr ''unsigned long'',
       ''nmask''), (Ty ''unsigned long'', ''maxnode''), (Ty ''unsigned long'', ''addr''),
       (Ty ''unsigned long'', ''flags'')],
     sys_proto [] ''set_mempolicy'' [(Ty ''int'', ''mode''), (const_user_ptr ''unsigned long'', ''nmask''),
       (Ty ''unsigned long'', ''maxnode'')],
     sys_proto [] ''migrate_pages'' [(Ty ''pid_t'', ''pid''), (Ty ''unsigned long'', ''maxnode''),
       (const_user_ptr ''unsigned long'', ''from''), (const_user_ptr ''unsigned long'', ''to'')],
     sys_proto [] ''move_pages'' [(Ty ''pid_t'', ''pid''), (Ty ''unsigned long'', ''nr_pages''),
       (Ptr (User (Ptr (User (Const (Ty ''void''))))), ''pages''), (const_user_ptr ''int'', ''nodes''),
       (user_ptr ''int'', ''status''), (Ty ''int'', ''flags'')],
     sys_proto [] ''rt_tgsigqueueinfo'' [(Ty ''pid_t'', ''tgid''), (Ty ''pid_t'', ''pid''), (Ty ''int'',
       ''sig''), (user_ptr ''siginfo_t'', ''uinfo'')],
     sys_proto [] ''perf_event_open'' [(user_ptr ''struct perf_event_attr'', ''attr_uptr''), (Ty ''pid_t'',
       ''pid''), (Ty ''int'', ''cpu''), (Ty ''int'', ''group_fd''), (Ty ''unsigned long'', ''flags'')],
     sys_proto [] ''accept4'' [(Ty ''int'', ''''), (user_ptr ''struct sockaddr'', ''''), (user_ptr ''int'',
       ''''), (Ty ''int'', '''')],
     sys_proto [] ''recvmmsg'' [(Ty ''int'', ''fd''), (user_ptr ''struct mmsghdr'', ''msg''),
       (Ty ''unsigned int'', ''vlen''), (Ty ''unsigned'', ''flags''),
       (user_ptr ''struct __kernel_timespec'', ''timeout'')],
     sys_proto [] ''recvmmsg_time32'' [(Ty ''int'', ''fd''), (user_ptr ''struct mmsghdr'', ''msg''),
       (Ty ''unsigned int'', ''vlen''), (Ty ''unsigned'', ''flags''), (user_ptr ''struct old_timespec32'',
       ''timeout'')],
     sys_proto [] ''wait4'' [(Ty ''pid_t'', ''pid''), (user_ptr ''int'', ''stat_addr''), (Ty ''int'',
       ''options''), (user_ptr ''struct rusage'', ''ru'')],
     sys_proto [] ''prlimit64'' [(Ty ''pid_t'', ''pid''), (Ty ''unsigned int'', ''resource''),
       (const_user_ptr ''struct rlimit64'', ''new_rlim''), (user_ptr ''struct rlimit64'', ''old_rlim'')],
     sys_proto [] ''fanotify_init'' [(Ty ''unsigned int'', ''flags''), (Ty ''unsigned int'',
       ''event_f_flags'')],
     sys_proto [] ''fanotify_mark'' [(Ty ''int'', ''fanotify_fd''), (Ty ''unsigned int'', ''flags''),
       (Ty ''u64'', ''mask''), (Ty ''int'', ''fd''), (const_user_ptr ''char'', ''pathname'')],
     sys_proto [] ''name_to_handle_at'' [(Ty ''int'', ''dfd''), (const_user_ptr ''char'', ''name''),
       (user_ptr ''struct file_handle'', ''handle''), (user_ptr ''int'', ''mnt_id''), (Ty ''int'',
       ''flag'')],
     sys_proto [] ''open_by_handle_at'' [(Ty ''int'', ''mountdirfd''), (user_ptr ''struct file_handle'',
       ''handle''), (Ty ''int'', ''flags'')],
     sys_proto [] ''clock_adjtime'' [(Ty ''clockid_t'', ''which_clock''), (user_ptr ''struct timex'',
       ''tx'')],
     sys_proto [] ''syncfs'' [(Ty ''int'', ''fd'')],
     sys_proto [] ''setns'' [(Ty ''int'', ''fd''), (Ty ''int'', ''nstype'')],
     sys_proto [] ''sendmmsg'' [(Ty ''int'', ''fd''), (user_ptr ''struct mmsghdr'', ''msg''),
       (Ty ''unsigned int'', ''vlen''), (Ty ''unsigned'', ''flags'')],
     sys_proto [] ''process_vm_readv'' [(Ty ''pid_t'', ''pid''), (const_user_ptr ''struct iovec'',
       ''lvec''), (Ty ''unsigned long'', ''liovcnt''), (const_user_ptr ''struct iovec'', ''rvec''),
       (Ty ''unsigned long'', ''riovcnt''), (Ty ''unsigned long'', ''flags'')],
     sys_proto [] ''process_vm_writev'' [(Ty ''pid_t'', ''pid''), (const_user_ptr ''struct iovec'',
       ''lvec''), (Ty ''unsigned long'', ''liovcnt''), (const_user_ptr ''struct iovec'', ''rvec''),
       (Ty ''unsigned long'', ''riovcnt''), (Ty ''unsigned long'', ''flags'')],
     sys_proto [] ''kcmp'' [(Ty ''pid_t'', ''pid1''), (Ty ''pid_t'', ''pid2''), (Ty ''int'', ''type''),
       (Ty ''unsigned long'', ''idx1''), (Ty ''unsigned long'', ''idx2'')],
     sys_proto [] ''finit_module'' [(Ty ''int'', ''fd''), (const_user_ptr ''char'', ''uargs''),
       (Ty ''int'', ''flags'')],
     sys_proto [] ''sched_setattr'' [(Ty ''pid_t'', ''pid''), (user_ptr ''struct sched_attr'', ''attr''),
       (Ty ''unsigned int'', ''flags'')],
     sys_proto [] ''sched_getattr'' [(Ty ''pid_t'', ''pid''), (user_ptr ''struct sched_attr'', ''attr''),
       (Ty ''unsigned int'', ''size''), (Ty ''unsigned int'', ''flags'')],
     sys_proto [] ''renameat2'' [(Ty ''int'', ''olddfd''), (const_user_ptr ''char'', ''oldname''),
       (Ty ''int'', ''newdfd''), (const_user_ptr ''char'', ''newname''), (Ty ''unsigned int'', ''flags'')],
     sys_proto [] ''seccomp'' [(Ty ''unsigned int'', ''op''), (Ty ''unsigned int'', ''flags''),
       (user_ptr ''void'', ''uargs'')],
     sys_proto [] ''getrandom'' [(user_ptr ''char'', ''buf''), (Ty ''size_t'', ''count''),
       (Ty ''unsigned int'', ''flags'')],
     sys_proto [] ''memfd_create'' [(const_user_ptr ''char'', ''uname_ptr''), (Ty ''unsigned int'',
       ''flags'')],
     sys_proto [] ''bpf'' [(Ty ''int'', ''cmd''), (Ptr (Ty ''union bpf_attr''), ''attr''),
       (Ty ''unsigned int'', ''size'')],
     sys_proto [] ''execveat'' [(Ty ''int'', ''dfd''), (const_user_ptr ''char'', ''filename''),
       (Ptr (User (Const (Ptr (User (Const (Ty ''char'')))))), ''argv''),
       (Ptr (User (Const (Ptr (User (Const (Ty ''char'')))))), ''envp''), (Ty ''int'', ''flags'')],
     sys_proto [] ''userfaultfd'' [(Ty ''int'', ''flags'')],
     sys_proto [] ''membarrier'' [(Ty ''int'', ''cmd''), (Ty ''int'', ''flags'')],
     sys_proto [] ''mlock2'' [(Ty ''unsigned long'', ''start''), (Ty ''size_t'', ''len''), (Ty ''int'',
       ''flags'')],
     sys_proto [] ''copy_file_range'' [(Ty ''int'', ''fd_in''), (user_ptr ''loff_t'', ''off_in''),
       (Ty ''int'', ''fd_out''), (user_ptr ''loff_t'', ''off_out''), (Ty ''size_t'', ''len''),
       (Ty ''unsigned int'', ''flags'')],
     sys_proto [] ''preadv2'' [(Ty ''unsigned long'', ''fd''), (const_user_ptr ''struct iovec'', ''vec''),
       (Ty ''unsigned long'', ''vlen''), (Ty ''unsigned long'', ''pos_l''), (Ty ''unsigned long'',
       ''pos_h''), (Ty ''rwf_t'', ''flags'')],
     sys_proto [] ''pwritev2'' [(Ty ''unsigned long'', ''fd''), (const_user_ptr ''struct iovec'', ''vec''),
       (Ty ''unsigned long'', ''vlen''), (Ty ''unsigned long'', ''pos_l''), (Ty ''unsigned long'',
       ''pos_h''), (Ty ''rwf_t'', ''flags'')],
     sys_proto [] ''pkey_mprotect'' [(Ty ''unsigned long'', ''start''), (Ty ''size_t'', ''len''),
       (Ty ''unsigned long'', ''prot''), (Ty ''int'', ''pkey'')],
     sys_proto [] ''pkey_alloc'' [(Ty ''unsigned long'', ''flags''), (Ty ''unsigned long'', ''init_val'')],
     sys_proto [] ''pkey_free'' [(Ty ''int'', ''pkey'')],
     sys_proto [] ''statx'' [(Ty ''int'', ''dfd''), (const_user_ptr ''char'', ''path''), (Ty ''unsigned'',
       ''flags''), (Ty ''unsigned'', ''mask''), (user_ptr ''struct statx'', ''buffer'')],
     sys_proto [] ''rseq'' [(user_ptr ''struct rseq'', ''rseq''), (Ty ''uint32_t'', ''rseq_len''),
       (Ty ''int'', ''flags''), (Ty ''uint32_t'', ''sig'')],
     sys_proto [] ''ioperm'' [(Ty ''unsigned long'', ''from''), (Ty ''unsigned long'', ''num''),
       (Ty ''int'', ''on'')],
     sys_proto [] ''pciconfig_read'' [(Ty ''unsigned long'', ''bus''), (Ty ''unsigned long'', ''dfn''),
       (Ty ''unsigned long'', ''off''), (Ty ''unsigned long'', ''len''), (user_ptr ''void'', ''buf'')],
     sys_proto [] ''pciconfig_write'' [(Ty ''unsigned long'', ''bus''), (Ty ''unsigned long'', ''dfn''),
       (Ty ''unsigned long'', ''off''), (Ty ''unsigned long'', ''len''), (user_ptr ''void'', ''buf'')],
     sys_proto [] ''pciconfig_iobase'' [(Ty ''long'', ''which''), (Ty ''unsigned long'', ''bus''),
       (Ty ''unsigned long'', ''devfn'')],
     sys_proto [] ''spu_run'' [(Ty ''int'', ''fd''), (user_ptr ''__u32'', ''unpc''), (user_ptr ''__u32'',
       ''ustatus'')],
     sys_proto [] ''spu_create'' [(const_user_ptr ''char'', ''name''), (Ty ''unsigned int'', ''flags''),
       (Ty ''umode_t'', ''mode''), (Ty ''int'', ''fd'')]]"

definition sys_prototypes_6 :: "prototype list" where
  "sys_prototypes_6 =
    [sys_proto [] ''open'' [(const_user_ptr ''char'', ''filename''), (Ty ''int'', ''flags''),
       (Ty ''umode_t'', ''mode'')],
     sys_proto [] ''link'' [(const_user_ptr ''char'', ''oldname''), (const_user_ptr ''char'', ''newname'')],
     sys_proto [] ''unlink'' [(const_user_ptr ''char'', ''pathname'')],
     sys_proto [] ''mknod'' [(const_user_ptr ''char'', ''filename''), (Ty ''umode_t'', ''mode''),
       (Ty ''unsigned'', ''dev'')],
     sys_proto [] ''chmod'' [(const_user_ptr ''char'', ''filename''), (Ty ''umode_t'', ''mode'')],
     sys_proto [] ''chown'' [(const_user_ptr ''char'', ''filename''), (Ty ''uid_t'', ''user''),
       (Ty ''gid_t'', ''group'')],
     sys_proto [] ''mkdir'' [(const_user_ptr ''char'', ''pathname''), (Ty ''umode_t'', ''mode'')],
     sys_proto [] ''rmdir'' [(const_user_ptr ''char'', ''pathname'')],
     sys_proto [] ''lchown'' [(const_user_ptr ''char'', ''filename''), (Ty ''uid_t'', ''user''),
       (Ty ''gid_t'', ''group'')],
     sys_proto [] ''access'' [(const_user_ptr ''char'', ''filename''), (Ty ''int'', ''mode'')],
     sys_proto [] ''rename'' [(const_user_ptr ''char'', ''oldname''), (const_user_ptr ''char'',
       ''newname'')],
     sys_proto [] ''symlink'' [(const_user_ptr ''char'', ''old''), (const_user_ptr ''char'', ''new'')],
     sys_proto [Either (Defined ''__ARCH_WANT_STAT64'') (Defined ''__ARCH_WANT_COMPAT_STAT64'')] ''stat64'' [(const_user_ptr ''char'',
       ''filename''), (user_ptr ''struct stat64'', ''statbuf'')],
     sys_proto [Either (Defined ''__ARCH_WANT_STAT64'') (Defined ''__ARCH_WANT_COMPAT_STAT64'')] ''lstat64'' [(const_user_ptr ''char'',
       ''filename''), (user_ptr ''struct stat64'', ''statbuf'')],
     sys_proto [] ''pipe'' [(user_ptr ''int'', ''fildes'')],
     sys_proto [] ''dup2'' [(Ty ''unsigned int'', ''oldfd''), (Ty ''unsigned int'', ''newfd'')],
     sys_proto [] ''epoll_create'' [(Ty ''int'', ''size'')],
     sys_proto [] ''inotify_init'' [],
     sys_proto [] ''eventfd'' [(Ty ''unsigned int'', ''count'')],
     sys_proto [] ''signalfd'' [(Ty ''int'', ''ufd''), (user_ptr ''sigset_t'', ''user_mask''),
       (Ty ''size_t'', ''sizemask'')],
     sys_proto [] ''sendfile'' [(Ty ''int'', ''out_fd''), (Ty ''int'', ''in_fd''), (user_ptr ''off_t'',
       ''offset''), (Ty ''size_t'', ''count'')],
     sys_proto [] ''newstat'' [(const_user_ptr ''char'', ''filename''), (user_ptr ''struct stat'',
       ''statbuf'')],
     sys_proto [] ''newlstat'' [(const_user_ptr ''char'', ''filename''), (user_ptr ''struct stat'',
       ''statbuf'')],
     sys_proto [] ''fadvise64'' [(Ty ''int'', ''fd''), (Ty ''loff_t'', ''offset''), (Ty ''size_t'',
       ''len''), (Ty ''int'', ''advice'')],
     sys_proto [] ''alarm'' [(Ty ''unsigned int'', ''seconds'')],
     sys_proto [] ''getpgrp'' [],
     sys_proto [] ''pause'' [],
     sys_proto [] ''time'' [(user_ptr ''time_t'', ''tloc'')],
     sys_proto [Defined ''__ARCH_WANT_SYS_UTIME''] ''utime'' [(user_ptr ''char'', ''filename''),
       (user_ptr ''struct utimbuf'', ''times'')],
     sys_proto [Defined ''__ARCH_WANT_SYS_UTIME''] ''utimes'' [(user_ptr ''char'', ''filename''),
       (user_ptr ''struct timeval'', ''utimes'')],
     sys_proto [Defined ''__ARCH_WANT_SYS_UTIME''] ''futimesat'' [(Ty ''int'', ''dfd''),
       (const_user_ptr ''char'', ''filename''), (user_ptr ''struct timeval'', ''utimes'')],
     sys_proto [] ''creat'' [(const_user_ptr ''char'', ''pathname''), (Ty ''umode_t'', ''mode'')],
     sys_proto [] ''getdents'' [(Ty ''unsigned int'', ''fd''), (user_ptr ''struct linux_dirent'',
       ''dirent''), (Ty ''unsigned int'', ''count'')],
     sys_proto [] ''select'' [(Ty ''int'', ''n''), (user_ptr ''fd_set'', ''inp''), (user_ptr ''fd_set'',
       ''outp''), (user_ptr ''fd_set'', ''exp''), (user_ptr ''struct timeval'', ''tvp'')],
     sys_proto [] ''poll'' [(user_ptr ''struct pollfd'', ''ufds''), (Ty ''unsigned int'', ''nfds''),
       (Ty ''int'', ''timeout'')],
     sys_proto [] ''epoll_wait'' [(Ty ''int'', ''epfd''), (user_ptr ''struct epoll_event'', ''events''),
       (Ty ''int'', ''maxevents''), (Ty ''int'', ''timeout'')],
     sys_proto [] ''ustat'' [(Ty ''unsigned'', ''dev''), (user_ptr ''struct ustat'', ''ubuf'')],
     sys_proto [] ''vfork'' [],
     sys_proto [] ''recv'' [(Ty ''int'', ''''), (user_ptr ''void'', ''''), (Ty ''size_t'', ''''),
       (Ty ''unsigned'', '''')],
     sys_proto [] ''send'' [(Ty ''int'', ''''), (user_ptr ''void'', ''''), (Ty ''size_t'', ''''),
       (Ty ''unsigned'', '''')],
     sys_proto [] ''bdflush'' [(Ty ''int'', ''func''), (Ty ''long'', ''data'')],
     sys_proto [] ''oldumount'' [(user_ptr ''char'', ''name'')],
     sys_proto [] ''uselib'' [(const_user_ptr ''char'', ''library'')],
     sys_proto [] ''sysctl'' [(user_ptr ''struct __sysctl_args'', ''args'')],
     sys_proto [] ''sysfs'' [(Ty ''int'', ''option''), (Ty ''unsigned long'', ''arg1''),
       (Ty ''unsigned long'', ''arg2'')],
     sys_proto [] ''fork'' [],
     sys_proto [] ''stime'' [(user_ptr ''time_t'', ''tptr'')],
     sys_proto [] ''sigpending'' [(user_ptr ''old_sigset_t'', ''uset'')],
     sys_proto [] ''sigprocmask'' [(Ty ''int'', ''how''), (user_ptr ''old_sigset_t'', ''set''),
       (user_ptr ''old_sigset_t'', ''oset'')],
     sys_proto [Defined ''CONFIG_OLD_SIGSUSPEND''] ''sigsuspend'' [(Ty ''old_sigset_t'', ''mask'')],
     sys_proto [Defined ''CONFIG_OLD_SIGSUSPEND3''] ''sigsuspend'' [(Ty ''int'', ''unused1''), (Ty ''int'',
       ''unused2''), (Ty ''old_sigset_t'', ''mask'')],
     sys_proto [Defined ''CONFIG_OLD_SIGACTION''] ''sigaction'' [(Ty ''int'', ''''),
       (const_user_ptr ''struct old_sigaction'', ''''), (user_ptr ''struct old_sigaction'', '''')],
     sys_proto [] ''sgetmask'' [],
     sys_proto [] ''ssetmask'' [(Ty ''int'', ''newmask'')],
     sys_proto [] ''signal'' [(Ty ''int'', ''sig''), (Ty ''__sighandler_t'', ''handler'')],
     sys_proto [] ''nice'' [(Ty ''int'', ''increment'')],
     sys_proto [] ''kexec_file_load'' [(Ty ''int'', ''kernel_fd''), (Ty ''int'', ''initrd_fd''),
       (Ty ''unsigned long'', ''cmdline_len''), (const_user_ptr ''char'', ''cmdline_ptr''),
       (Ty ''unsigned long'', ''flags'')],
     sys_proto [] ''waitpid'' [(Ty ''pid_t'', ''pid''), (user_ptr ''int'', ''stat_addr''), (Ty ''int'',
       ''options'')],
     sys_proto [Defined ''CONFIG_HAVE_UID16''] ''chown16'' [(const_user_ptr ''char'', ''filename''),
       (Ty ''old_uid_t'', ''user''), (Ty ''old_gid_t'', ''group'')],
     sys_proto [Defined ''CONFIG_HAVE_UID16''] ''lchown16'' [(const_user_ptr ''char'', ''filename''),
       (Ty ''old_uid_t'', ''user''), (Ty ''old_gid_t'', ''group'')],
     sys_proto [Defined ''CONFIG_HAVE_UID16''] ''fchown16'' [(Ty ''unsigned int'', ''fd''),
       (Ty ''old_uid_t'', ''user''), (Ty ''old_gid_t'', ''group'')],
     sys_proto [Defined ''CONFIG_HAVE_UID16''] ''setregid16'' [(Ty ''old_gid_t'', ''rgid''),
       (Ty ''old_gid_t'', ''egid'')],
     sys_proto [Defined ''CONFIG_HAVE_UID16''] ''setgid16'' [(Ty ''old_gid_t'', ''gid'')],
     sys_proto [Defined ''CONFIG_HAVE_UID16''] ''setreuid16'' [(Ty ''old_uid_t'', ''ruid''),
       (Ty ''old_uid_t'', ''euid'')],
     sys_proto [Defined ''CONFIG_HAVE_UID16''] ''setuid16'' [(Ty ''old_uid_t'', ''uid'')],
     sys_proto [Defined ''CONFIG_HAVE_UID16''] ''setresuid16'' [(Ty ''old_uid_t'', ''ruid''),
       (Ty ''old_uid_t'', ''euid''), (Ty ''old_uid_t'', ''suid'')],
     sys_proto [Defined ''CONFIG_HAVE_UID16''] ''getresuid16'' [(user_ptr ''old_uid_t'', ''ruid''),
       (user_ptr ''old_uid_t'', ''euid''), (user_ptr ''old_uid_t'', ''suid'')],
     sys_proto [Defined ''CONFIG_HAVE_UID16''] ''setresgid16'' [(Ty ''old_gid_t'', ''rgid''),
       (Ty ''old_gid_t'', ''egid''), (Ty ''old_gid_t'', ''sgid'')],
     sys_proto [Defined ''CONFIG_HAVE_UID16''] ''getresgid16'' [(user_ptr ''old_gid_t'', ''rgid''),
       (user_ptr ''old_gid_t'', ''egid''), (user_ptr ''old_gid_t'', ''sgid'')],
     sys_proto [Defined ''CONFIG_HAVE_UID16''] ''setfsuid16'' [(Ty ''old_uid_t'', ''uid'')],
     sys_proto [Defined ''CONFIG_HAVE_UID16''] ''setfsgid16'' [(Ty ''old_gid_t'', ''gid'')],
     sys_proto [Defined ''CONFIG_HAVE_UID16''] ''getgroups16'' [(Ty ''int'', ''gidsetsize''),
       (user_ptr ''old_gid_t'', ''grouplist'')],
     sys_proto [Defined ''CONFIG_HAVE_UID16''] ''setgroups16'' [(Ty ''int'', ''gidsetsize''),
       (user_ptr ''old_gid_t'', ''grouplist'')],
     sys_proto [Defined ''CONFIG_HAVE_UID16''] ''getuid16'' [],
     sys_proto [Defined ''CONFIG_HAVE_UID16''] ''geteuid16'' [],
     sys_proto [Defined ''CONFIG_HAVE_UID16''] ''getgid16'' [],
     sys_proto [Defined ''CONFIG_HAVE_UID16''] ''getegid16'' [],
     sys_proto [Defined ''CONFIG_HAVE_UID16''] ''my_syscall_0'' [(Ptr (Ty ''unsigned long''), ''''),
       (Ptr (Ty ''unsigned long''), '''')],
     sys_proto [Defined ''CONFIG_HAVE_UID16''] ''my_syscall_1'' [(Ptr (Ty ''char''), '''')],
     sys_proto [] ''socketcall'' [(Ty ''int'', ''call''), (user_ptr ''unsigned long'', ''args'')]]"

definition sys_prototypes_7 :: "prototype list" where
  "sys_prototypes_7 =
    [sys_proto [] ''stat'' [(const_user_ptr ''char'', ''filename''),
       (user_ptr ''struct __old_kernel_stat'', ''statbuf'')],
     sys_proto [] ''lstat'' [(const_user_ptr ''char'', ''filename''),
       (user_ptr ''struct __old_kernel_stat'', ''statbuf'')],
     sys_proto [] ''fstat'' [(Ty ''unsigned int'', ''fd''), (user_ptr ''struct __old_kernel_stat'',
       ''statbuf'')],
     sys_proto [] ''readlink'' [(const_user_ptr ''char'', ''path''), (user_ptr ''char'', ''buf''),
       (Ty ''int'', ''bufsiz'')],
     sys_proto [] ''old_select'' [(user_ptr ''struct sel_arg_struct'', ''arg'')],
     sys_proto [] ''old_readdir'' [(Ty ''unsigned int'', ''''), (user_ptr ''struct old_linux_dirent'',
       ''''), (Ty ''unsigned int'', '''')],
     sys_proto [] ''gethostname'' [(user_ptr ''char'', ''name''), (Ty ''int'', ''len'')],
     sys_proto [] ''uname'' [(user_ptr ''struct old_utsname'', '''')],
     sys_proto [] ''olduname'' [(user_ptr ''struct oldold_utsname'', '''')],
     sys_proto [Defined ''__ARCH_WANT_SYS_OLD_GETRLIMIT''] ''old_getrlimit'' [(Ty ''unsigned int'',
       ''resource''), (user_ptr ''struct rlimit'', ''rlim'')],
     sys_proto [] ''ipc'' [(Ty ''unsigned int'', ''call''), (Ty ''int'', ''first''), (Ty ''unsigned long'',
       ''second''), (Ty ''unsigned long'', ''third''), (user_ptr ''void'', ''ptr''), (Ty ''long'',
       ''fifth'')],
     sys_proto [] ''mmap_pgoff'' [(Ty ''unsigned long'', ''addr''), (Ty ''unsigned long'', ''len''),
       (Ty ''unsigned long'', ''prot''), (Ty ''unsigned long'', ''flags''), (Ty ''unsigned long'', ''fd''),
       (Ty ''unsigned long'', ''pgoff'')],
     sys_proto [] ''old_mmap'' [(user_ptr ''struct mmap_arg_struct'', ''arg'')],
     sys_proto [] ''ni_syscall'' []]"

definition ksys_prototypes :: "prototype list" where
  "ksys_prototypes =
    [ksys_proto [] (Ty ''int'') ''mount'' [(user_ptr ''char'', ''dev_name''), (user_ptr ''char'',
       ''dir_name''), (user_ptr ''char'', ''type''), (Ty ''unsigned long'', ''flags''), (user_ptr ''void'',
       ''data'')],
     ksys_proto [] (Ty ''int'') ''umount'' [(user_ptr ''char'', ''name''), (Ty ''int'', ''flags'')],
     ksys_proto [] (Ty ''int'') ''dup'' [(Ty ''unsigned int'', ''fildes'')],
     ksys_proto [] (Ty ''int'') ''chroot'' [(const_user_ptr ''char'', ''filename'')],
     ksys_proto [] (Ty ''ssize_t'') ''write'' [(Ty ''unsigned int'', ''fd''), (const_user_ptr ''char'',
       ''buf''), (Ty ''size_t'', ''count'')],
     ksys_proto [] (Ty ''int'') ''chdir'' [(const_user_ptr ''char'', ''filename'')],
     ksys_proto [] (Ty ''int'') ''fchmod'' [(Ty ''unsigned int'', ''fd''), (Ty ''umode_t'', ''mode'')],
     ksys_proto [] (Ty ''int'') ''fchown'' [(Ty ''unsigned int'', ''fd''), (Ty ''uid_t'', ''user''),
       (Ty ''gid_t'', ''group'')],
     ksys_proto [] (Ty ''int'') ''getdents64'' [(Ty ''unsigned int'', ''fd''),
       (user_ptr ''struct linux_dirent64'', ''dirent''), (Ty ''unsigned int'', ''count'')],
     ksys_proto [] (Ty ''int'') ''ioctl'' [(Ty ''unsigned int'', ''fd''), (Ty ''unsigned int'', ''cmd''),
       (Ty ''unsigned long'', ''arg'')],
     ksys_proto [] (Ty ''off_t'') ''lseek'' [(Ty ''unsigned int'', ''fd''), (Ty ''off_t'', ''offset''),
       (Ty ''unsigned int'', ''whence'')],
     ksys_proto [] (Ty ''ssize_t'') ''read'' [(Ty ''unsigned int'', ''fd''), (user_ptr ''char'', ''buf''),
       (Ty ''size_t'', ''count'')],
     ksys_proto [] (Ty ''void'') ''sync'' [],
     ksys_proto [] (Ty ''int'') ''unshare'' [(Ty ''unsigned long'', ''unshare_flags'')],
     ksys_proto [] (Ty ''int'') ''setsid'' [],
     ksys_proto [] (Ty ''int'') ''sync_file_range'' [(Ty ''int'', ''fd''), (Ty ''loff_t'', ''offset''),
       (Ty ''loff_t'', ''nbytes''), (Ty ''unsigned int'', ''flags'')],
     ksys_proto [] (Ty ''ssize_t'') ''pread64'' [(Ty ''unsigned int'', ''fd''), (user_ptr ''char'',
       ''buf''), (Ty ''size_t'', ''count''), (Ty ''loff_t'', ''pos'')],
     ksys_proto [] (Ty ''ssize_t'') ''pwrite64'' [(Ty ''unsigned int'', ''fd''), (const_user_ptr ''char'',
       ''buf''), (Ty ''size_t'', ''count''), (Ty ''loff_t'', ''pos'')],
     ksys_proto [] (Ty ''int'') ''fallocate'' [(Ty ''int'', ''fd''), (Ty ''int'', ''mode''),
       (Ty ''loff_t'', ''offset''), (Ty ''loff_t'', ''len'')],
     ksys_proto [Defined ''CONFIG_ADVISE_SYSCALLS''] (Ty ''int'') ''fadvise64_64'' [(Ty ''int'', ''fd''),
       (Ty ''loff_t'', ''offset''), (Ty ''loff_t'', ''len''), (Ty ''int'', ''advice'')],
     ksys_proto [] (Ty ''unsigned long'') ''mmap_pgoff'' [(Ty ''unsigned long'', ''addr''),
       (Ty ''unsigned long'', ''len''), (Ty ''unsigned long'', ''prot''), (Ty ''unsigned long'',
       ''flags''), (Ty ''unsigned long'', ''fd''), (Ty ''unsigned long'', ''pgoff'')],
     ksys_proto [] (Ty ''ssize_t'') ''readahead'' [(Ty ''int'', ''fd''), (Ty ''loff_t'', ''offset''),
       (Ty ''size_t'', ''count'')]]"

definition ksys_inline_prototypes :: "prototype list" where
  "ksys_inline_prototypes =
    [ksys_proto [Neg (Defined ''CONFIG_ADVISE_SYSCALLS'')] (Ty ''int'') ''fadvise64_64'' [(Ty ''int'',
       ''fd''), (Ty ''loff_t'', ''offset''), (Ty ''loff_t'', ''len''), (Ty ''int'', ''advice'')],
     ksys_proto [] (Ty ''long'') ''unlink'' [(const_user_ptr ''char'', ''pathname'')],
     ksys_proto [] (Ty ''long'') ''rmdir'' [(const_user_ptr ''char'', ''pathname'')],
     ksys_proto [] (Ty ''long'') ''mkdir'' [(const_user_ptr ''char'', ''pathname''), (Ty ''umode_t'',
       ''mode'')],
     ksys_proto [] (Ty ''long'') ''symlink'' [(const_user_ptr ''char'', ''oldname''),
       (const_user_ptr ''char'', ''newname'')],
     ksys_proto [] (Ty ''long'') ''mknod'' [(const_user_ptr ''char'', ''filename''), (Ty ''umode_t'',
       ''mode''), (Ty ''unsigned int'', ''dev'')],
     ksys_proto [] (Ty ''long'') ''link'' [(const_user_ptr ''char'', ''oldname''),
       (const_user_ptr ''char'', ''newname'')],
     ksys_proto [] (Ty ''int'') ''chmod'' [(const_user_ptr ''char'', ''filename''), (Ty ''umode_t'',
       ''mode'')],
     ksys_proto [] (Ty ''long'') ''access'' [(const_user_ptr ''char'', ''filename''), (Ty ''int'',
       ''mode'')],
     ksys_proto [] (Ty ''long'') ''chown'' [(const_user_ptr ''char'', ''filename''), (Ty ''uid_t'',
       ''user''), (Ty ''gid_t'', ''group'')],
     ksys_proto [] (Ty ''long'') ''lchown'' [(const_user_ptr ''char'', ''filename''), (Ty ''uid_t'',
       ''user''), (Ty ''gid_t'', ''group'')],
     ksys_proto [] (Ty ''long'') ''ftruncate'' [(Ty ''unsigned int'', ''fd''), (Ty ''unsigned long'',
       ''length'')],
     ksys_proto [] (Ty ''int'') ''close'' [(Ty ''unsigned int'', ''fd'')],
     ksys_proto [] (Ty ''long'') ''open'' [(const_user_ptr ''char'', ''filename''), (Ty ''int'',
       ''flags''), (Ty ''umode_t'', ''mode'')],
     ksys_proto [] (Ty ''long'') ''truncate'' [(const_user_ptr ''char'', ''pathname''), (Ty ''loff_t'',
       ''length'')],
     ksys_proto [] (Ty ''unsigned int'') ''personality'' [(Ty ''unsigned int'', ''personality'')]]"

definition prototype_groups :: "prototype list list" where
  "prototype_groups = [sys_prototypes_1, sys_prototypes_2, sys_prototypes_3, sys_prototypes_4,
     sys_prototypes_5, sys_prototypes_6, sys_prototypes_7]"

definition sys_prototypes :: "prototype list" where
  "sys_prototypes = concat prototype_groups"

end
