(* ===== verification/Header_Types.thy ===== *)
theory Header_Types
  imports Syscall_Prototypes
begin

text \<open>
  What the declarations of \<^verbatim>\<open>syscalls.h\<close> fit together with: each other in every configuration, the
  macros that define the calls, and the two calls of the repository with their rows of the table.
\<close>

section \<open>Shape of the system calls\<close>

text \<open>
  A declaration of the shape that one of \<open>SYSCALL_DEFINE0\<close> to \<open>SYSCALL_DEFINE6\<close> gives: a \<open>sys_\<close>
  function that returns \<open>long\<close>, with at most six parameters.
\<close>

definition callable :: "prototype \<Rightarrow> bool" where
  "callable p \<longleftrightarrow> returns p = Ty ''long'' \<and> prefix p = ''sys_'' \<and> length (params p) \<le> SYSCALL_DEFINE_MAXARGS"

lemma all_callable: "list_all (list_all callable) prototype_groups"
  by code_simp

section \<open>One declaration for each name\<close>

lemma distinct_buckets:
  assumes "\<And>B. B \<in> set Bs \<Longrightarrow> distinct (filter (\<lambda>s. f s \<in> set B) xs)"
    and "\<And>s. s \<in> set xs \<Longrightarrow> \<exists>B\<in>set Bs. f s \<in> set B"
  shows "distinct xs"
  unfolding distinct_count_atmost_1
proof
  fix a
  show "count (mset xs) a = (if a \<in> set xs then 1 else 0)"
  proof (cases "a \<in> set xs")
    case True
    with assms(2) obtain B where B: "B \<in> set Bs" "f a \<in> set B" by blast
    have "count (mset (filter (\<lambda>s. f s \<in> set B) xs)) a = 1"
      using True B(2) assms(1) [OF B(1)] by (simp only: distinct_count_atmost_1) simp
    then show ?thesis using True B(2) by (simp add: mset_filter)
  qed (simp add: count_eq_zero_iff)
qed

definition repeated :: "string list" where
  "repeated = [''clone'', ''sigsuspend'']"

definition bucket :: "string \<Rightarrow> prototype list \<Rightarrow> string list" where
  "bucket cs ps = filter (\<lambda>s. hd s \<in> set cs) (filter (\<lambda>s. s \<notin> set repeated) (map stem ps))"

definition initials :: "string list" where
  "initials = [''s'', ''gh'', ''fe'', ''mnl'', ''po'', ''rqt'', ''uvwx'', ''abcd'', ''ijk'']"

lemma buckets_distinct: "list_all (\<lambda>cs. distinct (concat (map (bucket cs) prototype_groups))) initials"
  by code_simp

lemma initials_cover: "list_all (list_all (\<lambda>p. hd (stem p) \<in> set (concat initials))) prototype_groups"
  by code_simp

definition others :: "string list" where
  "others = filter (\<lambda>s. s \<notin> set repeated) (map stem sys_prototypes)"

lemma others_distinct: "distinct others"
proof (rule distinct_buckets [where f = hd and Bs = initials])
  have eq: "filter (\<lambda>s. hd s \<in> set cs) others = concat (map (bucket cs) prototype_groups)" for cs
    by (simp add: others_def sys_prototypes_def map_concat filter_concat bucket_def [abs_def] comp_def)
  show "distinct (filter (\<lambda>s. hd s \<in> set cs) others)" if "cs \<in> set initials" for cs
    unfolding eq using buckets_distinct that by (simp add: list_all_iff)
next
  fix s assume "s \<in> set others"
  then show "\<exists>B\<in>set initials. hd s \<in> set B"
    using initials_cover by (auto simp: others_def sys_prototypes_def list_all_iff)
qed

text \<open>The declarations of a call.\<close>

definition declarations :: "string \<Rightarrow> prototype list" where
  "declarations nm = filter (\<lambda>p. stem p = nm) sys_prototypes"

lemma declarations_groups: "declarations nm = concat (map (filter (\<lambda>p. stem p = nm)) prototype_groups)"
  by (simp add: declarations_def sys_prototypes_def filter_concat)

lemma declared_twice:
  "declarations ''clone'' =
    [sys_proto [Defined ''CONFIG_CLONE_BACKWARDS''] ''clone''
       [(Ty ''unsigned long'', ''''), (Ty ''unsigned long'', ''''), (user_ptr ''int'', ''''),
        (Ty ''unsigned long'', ''''), (user_ptr ''int'', '''')],
     sys_proto [Neg (Defined ''CONFIG_CLONE_BACKWARDS''), Defined ''CONFIG_CLONE_BACKWARDS3''] ''clone''
       [(Ty ''unsigned long'', ''''), (Ty ''unsigned long'', ''''), (Ty ''int'', ''''), (user_ptr ''int'', ''''),
        (user_ptr ''int'', ''''), (Ty ''unsigned long'', '''')],
     sys_proto [Neg (Defined ''CONFIG_CLONE_BACKWARDS''), Neg (Defined ''CONFIG_CLONE_BACKWARDS3'')] ''clone''
       [(Ty ''unsigned long'', ''''), (Ty ''unsigned long'', ''''), (user_ptr ''int'', ''''),
        (user_ptr ''int'', ''''), (Ty ''unsigned long'', '''')]]"
  "declarations ''sigsuspend'' =
    [sys_proto [Defined ''CONFIG_OLD_SIGSUSPEND''] ''sigsuspend'' [(Ty ''old_sigset_t'', ''mask'')],
     sys_proto [Defined ''CONFIG_OLD_SIGSUSPEND3''] ''sigsuspend''
       [(Ty ''int'', ''unused1''), (Ty ''int'', ''unused2''), (Ty ''old_sigset_t'', ''mask'')]]"
  unfolding declarations_groups by code_simp+

lemma one_declaration:
  assumes "p \<in> set sys_prototypes" and "q \<in> set sys_prototypes" and "stem p = stem q" and "stem p \<notin> set repeated"
  shows "p = q"
proof -
  let ?ps = "filter (\<lambda>p. stem p \<notin> set repeated) sys_prototypes"
  have "map stem ?ps = others" by (simp add: others_def filter_map comp_def)
  then have "inj_on stem (set ?ps)" using others_distinct by (metis distinct_map)
  with assms show ?thesis by (auto dest: inj_onD)
qed

definition conflict :: "config \<Rightarrow> prototype \<Rightarrow> prototype \<Rightarrow> bool" where
  "conflict C p q \<longleftrightarrow> declared C p \<and> declared C q \<and> pname p = pname q \<and> signature p \<noteq> signature q"

lemma sys_name: "p \<in> set sys_prototypes \<Longrightarrow> pname p = ''sys_'' @ stem p"
  using all_callable by (auto simp: pname_def callable_def list_all_iff sys_prototypes_def)

text \<open>
  C35: the prototypes of \<^verbatim>\<open>syscalls.h\<close> agree with each other. In every configuration every system call has
  one type, with one exception: a kernel without the wrapper option and with both old forms of
  \<open>sigsuspend\<close> would declare that call with two different types.
\<close>

theorem prototypes_agree:
  "(\<exists>p q. p \<in> set sys_prototypes \<and> q \<in> set sys_prototypes \<and> conflict C p q) \<longleftrightarrow>
    \<not> macro C ''CONFIG_ARCH_HAS_SYSCALL_WRAPPER'' \<and>
    macro C ''CONFIG_OLD_SIGSUSPEND'' \<and> macro C ''CONFIG_OLD_SIGSUSPEND3''"
proof
  assume "\<exists>p q. p \<in> set sys_prototypes \<and> q \<in> set sys_prototypes \<and> conflict C p q"
  then obtain p q where pq: "p \<in> set sys_prototypes" "q \<in> set sys_prototypes" "conflict C p q" by blast
  then have "stem p = stem q" using sys_name by (auto simp: conflict_def)
  moreover have "signature p \<noteq> signature q" using pq(3) by (simp add: conflict_def)
  ultimately have r: "stem p \<in> set repeated" using one_declaration [OF pq(1,2)] by auto
  from pq \<open>stem p = stem q\<close> have d: "p \<in> set (declarations (stem p))" "q \<in> set (declarations (stem p))"
    by (auto simp: declarations_def)
  from r consider "stem p = ''clone''" | "stem p = ''sigsuspend''" by (auto simp: repeated_def)
  then show "\<not> macro C ''CONFIG_ARCH_HAS_SYSCALL_WRAPPER'' \<and>
    macro C ''CONFIG_OLD_SIGSUSPEND'' \<and> macro C ''CONFIG_OLD_SIGSUSPEND3''"
  proof cases
    case 1
    with d pq(3) show ?thesis unfolding 1 declared_twice by (auto simp: conflict_def declared_def)
  next
    case 2
    with d pq(3) show ?thesis unfolding 2 declared_twice by (auto simp: conflict_def declared_def)
  qed
next
  assume C: "\<not> macro C ''CONFIG_ARCH_HAS_SYSCALL_WRAPPER'' \<and>
    macro C ''CONFIG_OLD_SIGSUSPEND'' \<and> macro C ''CONFIG_OLD_SIGSUSPEND3''"
  let ?p = "declarations ''sigsuspend'' ! 0" and ?q = "declarations ''sigsuspend'' ! 1"
  have "?p \<in> set (declarations ''sigsuspend'')" "?q \<in> set (declarations ''sigsuspend'')"
    unfolding declared_twice(2) by simp_all
  then have "?p \<in> set sys_prototypes" "?q \<in> set sys_prototypes" by (auto simp: declarations_def)
  moreover have "conflict C ?p ?q"
    using C unfolding declared_twice(2) by (simp add: conflict_def declared_def pname_def signature_def)
  ultimately show "\<exists>p q. p \<in> set sys_prototypes \<and> q \<in> set sys_prototypes \<and> conflict C p q" by blast
qed

text \<open>The structures and unions that a type names, and those that are not forward declared.\<close>

primrec tags :: "cdecl \<Rightarrow> string list" where
  "tags (Ty t) = (if take 7 t = ''struct '' \<or> take 6 t = ''union '' then [t] else [])"
| "tags (Const t) = tags t"
| "tags (User t) = tags t"
| "tags (Ptr t) = tags t"

definition foreign_tags :: "prototype list \<Rightarrow> string list" where
  "foreign_tags ps = filter (\<lambda>t. t \<notin> set forward_tags) (concat (map (\<lambda>p. concat (map (tags \<circ> fst) (params p))) ps))"

text \<open>
  Eight of the structures that parameters point to have no forward declaration at the top of the
  header, so a definition must have been seen before.
\<close>

lemma foreign_tags_concat: "foreign_tags (concat pss) = concat (map foreign_tags pss)"
  by (induction pss) (simp_all add: foreign_tags_def)

lemma groups_foreign:
  "remdups (concat (map foreign_tags prototype_groups)) =
    [''struct siginfo'', ''struct __kernel_itimerspec'', ''struct sigaction'', ''struct sigevent'',
     ''struct __kernel_timespec'', ''struct old_timespec32'', ''struct ustat'', ''struct old_sigaction'']"
  by code_simp

section \<open>The calls that kernel code uses instead\<close>

definition ksys_all :: "prototype list" where
  "ksys_all = ksys_prototypes @ ksys_inline_prototypes"

text \<open>A system call of the same name with the same parameters.\<close>

definition has_twin :: "prototype \<Rightarrow> bool" where
  "has_twin k = list_ex (\<lambda>p. stem p = stem k \<and> signature p = signature k) sys_prototypes"

definition same_calls :: "prototype list" where
  "same_calls = concat (map (filter (\<lambda>p. stem p \<in> set (map stem ksys_all))) prototype_groups)"

lemma same_calls_twin:
  assumes "k \<in> set ksys_all"
  shows "has_twin k = list_ex (\<lambda>p. stem p = stem k \<and> signature p = signature k) same_calls"
  using assms by (auto simp: has_twin_def same_calls_def sys_prototypes_def list_ex_iff)

lemma twins:
  "map stem (filter (\<lambda>k. \<not> list_ex (\<lambda>p. stem p = stem k \<and> signature p = signature k) same_calls) ksys_all) =
    [''truncate'']"
  by code_simp

lemma truncates:
  "map signature (declarations ''truncate'') = [[const_user_ptr ''char'', Ty ''long'']]"
  "map signature (filter (\<lambda>k. stem k = ''truncate'') ksys_all) = [[const_user_ptr ''char'', Ty ''loff_t'']]"
  unfolding declarations_groups by code_simp+

text \<open>
  The functions that kernel code is told to use in place of system calls take the parameters of the
  system call of the same name, all 38 of them but one: \<open>ksys_truncate\<close> has a 64-bit \<open>loff_t\<close>
  for the length where \<open>sys_truncate\<close> has a \<open>long\<close>.
\<close>

lemma ksys_parameters:
  "map stem (filter (\<lambda>k. \<not> has_twin k) ksys_all) = [''truncate''] \<and>
   map signature (declarations ''truncate'') = [[const_user_ptr ''char'', Ty ''long'']] \<and>
   map signature (filter (\<lambda>k. stem k = ''truncate'') ksys_all) = [[const_user_ptr ''char'', Ty ''loff_t'']]"
proof (intro conjI)
  have "filter (\<lambda>k. \<not> has_twin k) ksys_all =
      filter (\<lambda>k. \<not> list_ex (\<lambda>p. stem p = stem k \<and> signature p = signature k) same_calls) ksys_all"
    by (rule filter_cong) (simp_all add: same_calls_twin)
  then show "map stem (filter (\<lambda>k. \<not> has_twin k) ksys_all) = [''truncate'']" using twins by simp
qed (rule truncates)+

section \<open>The repository's calls\<close>

text \<open>The types that the calls of the repository use, as the macros take them.\<close>

fun macro_type :: "cdecl \<Rightarrow> ctype option" where
  "macro_type (Ptr t) = map_option C_Ptr (macro_type t)"
| "macro_type (Ty t) = (if t = ''unsigned long'' then Some C_ULong else if t = ''char'' then Some C_Char else None)"
| "macro_type _ = None"

lemma own_declarations:
  "declarations ''my_syscall_0'' = [sys_proto [Defined ''CONFIG_HAVE_UID16''] ''my_syscall_0''
     [(Ptr (Ty ''unsigned long''), ''''), (Ptr (Ty ''unsigned long''), '''')]]"
  "declarations ''my_syscall_1'' = [sys_proto [Defined ''CONFIG_HAVE_UID16''] ''my_syscall_1''
     [(Ptr (Ty ''char''), '''')]]"
  unfolding declarations_groups by code_simp+

lemma own_definitions:
  "\<exists>d. define_my_syscall_0 ftrace K = Some d \<and> symbol d = ''sys_my_syscall_0''"
  "\<exists>d. define_my_syscall_1 ftrace K = Some d \<and> symbol d = ''sys_my_syscall_1''"
  by (cases ftrace; simp add: define_my_syscall_0_def define_my_syscall_1_def my_syscall_0_params_def
      my_syscall_1_params_def SYSCALL_DEFINE_def SYSCALL_DEFINEx_def SYSCALL_METADATA_def sc_map_def
      SYSCALL_DEFINE_MAXARGS_def sc_test_def numeral_2_eq_2)+

text \<open>
  C34: the repository's two calls are put together without a loose end, with tracing compiled in or not:
  the macros accept the definitions, the header has one prototype for each, with the types of the
  definition, and the entry point of row 335 or 336 is that of the defined symbol. But the prototypes
  stand in the block of the 16-bit user ids: a kernel without \<open>CONFIG_HAVE_UID16\<close> does not declare
  the calls.
\<close>

theorem own_calls_linked:
  "\<exists>d0 d1 p0 p1.
     define_my_syscall_0 ftrace K = Some d0 \<and> define_my_syscall_1 ftrace K = Some d1 \<and>
     declarations ''my_syscall_0'' = [p0] \<and> declarations ''my_syscall_1'' = [p1] \<and>
     symbol d0 = pname p0 \<and> symbol d1 = pname p1 \<and>
     map macro_type (signature p0) = map (Some \<circ> fst) my_syscall_0_params \<and>
     map macro_type (signature p1) = map (Some \<circ> fst) my_syscall_1_params \<and>
     stub_of 335 = Some (''__x64_'' @ symbol d0) \<and> stub_of 336 = Some (''__x64_'' @ symbol d1) \<and>
     (declared C p0 \<longleftrightarrow> \<not> macro C ''CONFIG_ARCH_HAS_SYSCALL_WRAPPER'' \<and> macro C ''CONFIG_HAVE_UID16'') \<and>
     (declared C p1 \<longleftrightarrow> \<not> macro C ''CONFIG_ARCH_HAS_SYSCALL_WRAPPER'' \<and> macro C ''CONFIG_HAVE_UID16'')"
proof -
  obtain d0 d1 where d: "define_my_syscall_0 ftrace K = Some d0" "symbol d0 = ''sys_my_syscall_0''"
    "define_my_syscall_1 ftrace K = Some d1" "symbol d1 = ''sys_my_syscall_1''"
    using own_definitions by blast
  show ?thesis
    by (rule exI [of _ d0], rule exI [of _ d1], rule exI, rule exI, intro conjI,
        rule d(1), rule d(3), rule own_declarations(1), rule own_declarations(2))
      (simp_all add: d pname_def signature_def my_syscall_0_params_def my_syscall_1_params_def
        stub_of_own declared_def)
qed

end
