(* ===== verification/Spec2Isabelle.thy ===== *)
theory Spec2Isabelle
  imports Schedules_Compared PSJF_Schedule SJF_Books RR_Books
    Kernel_Header Header_Types
begin

text \<open>
  A verification library for this repository: a user-space program that plays an operating system's
  short-term scheduler, and the two Linux system calls that time its processes.

  \<^bold>\<open>The program.\<close> \<^verbatim>\<open>main.c\<close> reads a file (a policy, a number of processes, and for each a
  name, a ready time and an execution time) and hands the table to one of four schedulers:
  \<^verbatim>\<open>FIFO.c\<close>, \<^verbatim>\<open>RR.c\<close>, \<^verbatim>\<open>SJF.c\<close>, \<^verbatim>\<open>PSJF.c\<close>. Each scheduler is a loop whose round is one unit of time,
  a busy-wait of fixed length. In a round it collects a process that has ended, forks those whose ready
  time has come, chooses the process to run, tells the kernel by \<^verbatim>\<open>sched_setscheduler\<close>, spins for a
  unit and charges the unit to the chosen process. The children spin for as many units of their own.
  The kernel part (\<^verbatim>\<open>kernel_files\<close>) is a pair of system calls that read the clock and write a line to
  the kernel log, with the kernel's header and table they are declared in.

  \<^bold>\<open>How it is modelled.\<close> Functions become functions with the source's names, in the order of the source:
  \<^item> \<open>Sched_Prelude\<close>: C \<open>int\<close> with its limits (overflow is the outcome \<open>Undefined Signed_Overflow\<close>,
    never a wrapped value), bounds-checked arrays, results as \<open>error + 'a\<close> where an error is an exit
    with its status and trace or an undefined behaviour, \<open>struct process\<close> of \<^verbatim>\<open>PSJF.h\<close>, and the loop
    \<open>while(1)\<close> as a partial function whose value \<open>None\<close> means that it never returns, with rules for
    invariants, refinement and total correctness. No definition that models code has fuel: what is said to
    return is proved to return by a measure.
  \<^item> \<open>Os_Model\<close>: the calls the program makes of Linux and the C library. Their answers are the fields
    of the record \<open>os\<close>, functions of the history; every call is an event of the trace. \<^verbatim>\<open>qsort\<close> is
    a field as well, with the promise of the C standard as the locale \<open>c_qsort\<close> (a permutation,
    sorted for a consistent comparison, equal elements in any order), interpreted on an insertion
    sort; which elements the library compares, and in which order, is a field too, so a comparison
    that overflows is undefined behaviour only when it is made. The busy-wait is computed with its
    64-bit counter.
  \<^item> \<open>Process_Table\<close>: what the four loops share, from the forking loop to the invariant that ties the
    table to the classes the kernel has been asked for.
  \<^item> \<open>FIFO_Sched\<close>, \<open>PSJF_Sched\<close>, \<open>SJF_Sched\<close>, \<open>RR_Sched\<close>: one theory per source file, the state record
    holding its globals and its locals that live across rounds. A function with a loop in the middle
    is cut at the comments of the source into the parts of a round (\<open>check\<close>, \<open>spawn\<close>, \<open>switch\<close>,
    \<open>tick\<close>), composed in \<open>body\<close>. \<^verbatim>\<open>fork\<close> returns twice: the same definition with the answer 0 is the
    child. \<open>SJF\<close> ends in \<open>exit(0)\<close>, so its result is always an error value \<open>Exited\<close>. The ring search of
    \<open>RR\<close> may not return, so its body is optional.
  \<^item> \<open>Main_Program\<close>: \<^verbatim>\<open>main.c\<close>, on the characters of the file.
  \<^item> \<open>Kernel_Calls\<close>: \<^verbatim>\<open>my_syscall.c\<close> and \<^verbatim>\<open>getTime.c\<close> on byte-addressed memory with unmapped
    addresses, and the macros of \<^verbatim>\<open>syscalls.h\<close> that define a system call; \<open>Syscall_Table\<close>: the rows of
    \<^verbatim>\<open>syscall_64.tbl\<close> and the way from a number to an entry point; \<open>Kernel_Header\<close>: the inline functions
    of the header over the kernel functions they call; \<open>Syscall_Prototypes\<close>: its declarations, each with
    the conditions of the \<open>#if\<close> lines around it; \<open>Header_Types\<close>: how the declarations, the macros, the
    definitions and the table fit together.

  \<^bold>\<open>Specifications.\<close>
  \<^item> \<open>Work_Conserving\<close>: the contract of all four loops as a locale (a round serves one unit of some
    arrived job and idles only when there is none). It gives termination and the time of the end, which
    is the same for all; \<open>Makespan\<close> computes it. \<open>FIFO_Sched\<close> and \<open>SJF_Sched\<close> meet the contract by
    refinement, \<open>PSJF_Sched\<close> and \<open>RR_Sched\<close> directly; all four are interpretations.
  \<^item> \<open>Machine\<close>: an abstract machine with the choice of the next job as the locale parameter, which
    gives its termination, and, when a choice stands for a slice of time, its plan: a function that
    jumps from one decision to the next and lists who ends when. \<open>Nonpreemptive\<close> (with \<open>Selection\<close>):
    the slice is the whole job, refined by FIFO and SJF. \<open>Round_Robin\<close>: the slice ends at the next
    multiple of the quantum, refined by RR in \<open>RR_Schedule\<close>. \<open>Preemptive\<close>: the slice ends at the next
    arrival, followed by PSJF in \<open>PSJF_Schedule\<close>.
  \<^item> \<open>Bookkeeping\<close>: what FIFO, SJF and RR do to the table, the count of ended processes and the clock, as a
    step relation that holds whatever the kernel answers, and the locale of the loops that keep such
    books; the three loops are its interpretations (in \<open>FIFO_Sched\<close>, \<open>SJF_Books\<close> and \<open>RR_Books\<close>).
  \<^item> \<open>Shortest_Remaining\<close>: shortest remaining time first on bare jobs and its optimality against every
    schedule, preemptive and idling ones included; refined by \<open>PSJF\<close>.
  \<^item> \<open>Schedules_Compared\<close>: every loop is a legal schedule of the same jobs, so \<open>PSJF\<close> leads them all.

  \<^bold>\<open>What the theorems show.\<close> On a proper workload (ready times from 0 on, something to execute, all
  over before the 32-bit clock overflows) and with forks and affinity calls that succeed, each
  scheduler returns, at the makespan, having run every process to zero; FIFO, SJF and RR print the plan
  of their policy, PSJF follows the plan of shortest remaining time first and is optimal, RR preempts
  only at multiples of its quantum. From the text of a file to the exit status, all four policies take
  exactly the makespan, in busy-waits of the length their file gives a unit, and those that print ends
  print their plan. The priorities requested from the kernel agree with the intended choice in FIFO, SJF
  and RR, and are the wrong way round in PSJF (the preempted process has 90, the one charged 10).
  Without any assumption on the kernel, a normal end of FIFO, SJF or RR means that every process was
  forked and run. The kernel calls report the clock faithfully for good pointers and fault for bad ones,
  and printk is given a text that the readings have left as it was. The numbers of the table are exact,
  the header gives each system call one type, and the two calls of the repository are linked from
  prototype to entry point.

  \<^bold>\<open>What they also show.\<close> A switch in FIFO and RR reads \<open>proc[-1].pid\<close>; PSJF reads a field nobody
  initialises; RR prints the turnaround under the name of the waiting time, and its ring search has no
  way out when nobody has work left; two comparison functions can overflow; long words in the file
  overflow buffers; processes with nothing to execute keep FIFO from returning; the prototypes of the
  two system calls are declared only with 16-bit user ids.

  \<^bold>\<open>Not modelled.\<close> Output that \<^verbatim>\<open>DEBUG\<close> would add, since the files are compiled without it. How the
  kernel's scheduler shares the CPUs between parent and children: the accounting of the parents does not
  depend on it, and the real time of a unit is no fact of the code. The float division of the printed
  average (its operands are kept). What \<^verbatim>\<open>printk\<close> makes of a format and a text. The x86 wrapper that
  replaces the stub of \<^verbatim>\<open>syscalls.h\<close> in a real kernel, which is not in the repository.
  \<^verbatim>\<open>kernel_files/Makefile\<close>, the report, the README, the recorded output and the binary are not code;
  one recorded and three documented runs are reproduced at the end of this theory. The link: functions
  of the same name in \<^verbatim>\<open>FIFO.c\<close> and \<^verbatim>\<open>RR.c\<close>, and in \<^verbatim>\<open>FIFO.c\<close> and \<^verbatim>\<open>PSJF.c\<close>, collide when all object
  files are linked as the README says; the model takes for each call the definition that the calling
  file's header declares.
\<close>

section \<open>Workloads with one order\<close>

text \<open>A table is sorted in one way only when no two processes are ready at the same time.\<close>

lemma sorted_unique:
  fixes f :: "'a \<Rightarrow> int"
  assumes "mset xs = mset ys" and "sorted (map f xs)" and "sorted (map f ys)" and "distinct (map f ys)"
  shows "xs = ys"
proof -
  have "mset (map f xs) = mset (map f ys)" using assms(1) by simp
  with assms(2,3) have "map f xs = map f ys" by (metis properties_for_sort)
  moreover have "inj_on f (set xs \<union> set ys)"
    using assms(1,4) by (simp add: distinct_map mset_eq_setD [OF assms(1)])
  ultimately show ?thesis by (rule map_inj_on)
qed

lemma fcfs_plan_rows: "map row ps = map row qs \<Longrightarrow> fcfs_plan t ps = fcfs_plan t qs"
proof (induction ps arbitrary: qs t)
  case (Cons p ps)
  then obtain q qs' where qs: "qs = q # qs'" "row p = row q" "map row ps = map row qs'" by auto
  with Cons.IH [OF qs(3)] show ?case by (simp add: Let_def)
qed simp

lemma rows_unique:
  assumes "mset (map row qs) = mset (map row ps)" and "sorted (map ready qs)"
    and "sorted (map ready ps)" and "distinct (map ready ps)"
  shows "map row qs = map row ps"
proof -
  have "map (\<lambda>r. fst (snd r)) (map row ps) = map ready ps" for ps by simp
  with sorted_unique [OF assms(1), of "\<lambda>r. fst (snd r)"] assms(2-4) show ?thesis by metis
qed

lemma rows_fields:
  assumes "map row qs = map row ps"
  shows "map name qs = map name ps" "map ready qs = map ready ps" "map exec qs = map exec ps"
    "length qs = length ps"
proof -
  show "length qs = length ps" using arg_cong [where f = length, OF assms] by simp
  show "map name qs = map name ps" using arg_cong [where f = "map fst", OF assms] by (simp add: comp_def)
  show "map ready qs = map ready ps"
    using arg_cong [where f = "map (\<lambda>r. fst (snd r))", OF assms] by (simp add: comp_def)
  show "map exec qs = map exec ps"
    using arg_cong [where f = "map (\<lambda>r. snd (snd r))", OF assms] by (simp add: comp_def)
qed

section \<open>The recorded runs\<close>

definition table :: "(string \<times> int \<times> int) list \<Rightarrow> process list" where
  "table rs = map (\<lambda>(n, r, e). \<lparr>name = n, ready = r, exec = e, waiting = 0, pid = 0\<rparr>) rs"

definition FIFO_2 :: "process list" where
  "FIFO_2 = table [(''P1'', 0, 80000), (''P2'', 100, 5000), (''P3'', 200, 1000), (''P4'', 300, 1000)]"

definition SJF_5 :: "process list" where
  "SJF_5 = table [(''P1'', 0, 2000), (''P2'', 500, 500), (''P3'', 1000, 500), (''P4'', 1500, 500)]"

definition FIFO_2_text :: string where
  "FIFO_2_text = ''FIFO\<newline>4\<newline>P1 0 80000\<newline>P2 100 5000\<newline>P3 200 1000\<newline>P4 300 1000\<newline>''"

definition SJF_5_text :: string where
  "SJF_5_text = ''SJF\<newline>4\<newline>P1 0 2000\<newline>P2 500 500\<newline>P3 1000 500\<newline>P4 1500 500\<newline>''"

definition RR_3 :: "process list" where
  "RR_3 = table [(''P1'', 1200, 5000), (''P2'', 2400, 4000), (''P3'', 3600, 3000), (''P4'', 4800, 7000),
     (''P5'', 5200, 6000), (''P6'', 5800, 5000)]"

definition PSJF_3 :: "process list" where
  "PSJF_3 = table [(''P1'', 0, 2000), (''P2'', 500, 500), (''P3'', 1000, 500), (''P4'', 1500, 500)]"

lemma psjf_workload_PSJF_3: "psjf_workload PSJF_3"
  by (simp add: psjf_workload_def workload_def PSJF_3_def table_def horizon_def last_arrival_def work_def INT_MAX_def)

definition RR_3_text :: string where
  "RR_3_text = ''RR\<newline>6\<newline>P1 1200 5000\<newline>P2 2400 4000\<newline>P3 3600 3000\<newline>P4 4800 7000\<newline>P5 5200 6000\<newline>P6 5800 5000\<newline>''"

lemma texts: "show_file ''FIFO'' FIFO_2 = FIFO_2_text" "show_file ''SJF'' SJF_5 = SJF_5_text"
  "show_file ''RR'' RR_3 = RR_3_text"
  by (simp_all add: show_file_def show_proc_def show_int_def show_nat.simps FIFO_2_def SJF_5_def table_def
      RR_3_def FIFO_2_text_def SJF_5_text_def RR_3_text_def char_of_def bit_Suc_0_iff)

text \<open>Memory and heap contents that let a file with \<open>n\<close> lines be read.\<close>

definition heap_ok :: "os \<Rightarrow> nat \<Rightarrow> bool" where
  "heap_ok E n \<longleftrightarrow> malloc_ok E (int n * 36) \<and> (\<forall>i<n. waiting (malloc_init E i) \<noteq> 1)"

lemma heap_ok_demo: "heap_ok demo_os n"
  by (simp add: heap_ok_def demo_os_def)

lemma good_files:
  shows "heap_ok E 4 \<Longrightarrow> good_file E FIFO_2" and "heap_ok E 4 \<Longrightarrow> good_file E SJF_5"
    and "heap_ok E 6 \<Longrightarrow> good_file E RR_3"
proof -
  have n: "length FIFO_2 = 4" "length SJF_5 = 4" "length RR_3 = 6"
    by (simp_all add: FIFO_2_def SJF_5_def RR_3_def table_def)
  have ok: "readable FIFO_2 \<and> rr_workload FIFO_2 \<and> horizon 0 (jobs_of FIFO_2) < INT_MAX"
    "readable SJF_5 \<and> rr_workload SJF_5 \<and> horizon 0 (jobs_of SJF_5) < INT_MAX"
    "readable RR_3 \<and> rr_workload RR_3 \<and> horizon 0 (jobs_of RR_3) < INT_MAX" by code_simp+
  show "heap_ok E 4 \<Longrightarrow> good_file E FIFO_2" "heap_ok E 4 \<Longrightarrow> good_file E SJF_5"
    "heap_ok E 6 \<Longrightarrow> good_file E RR_3"
    using ok n by (simp_all add: good_file_def heap_ok_def)
qed

text \<open>
  C19: a recorded run, reproduced for every kernel and C library that keep their promises:
  the four lines \<^verbatim>\<open>Result.txt\<close> shows for the input FIFO_2 ("process P1 ended time : 80000" and
  so on, in this order and with these times) are what \<open>main\<close> prints on the text of that file.
\<close>

theorem recorded_FIFO_2:
  assumes "forks_ok E" and "c_qsort (qsort E)" and "heap_ok E 4"
  shows "\<exists>tr. main E (Some FIFO_2_text) = Some (Inr (0, tr)) \<and>
    completions tr = [(''P1'', 80000), (''P2'', 85000), (''P3'', 86000), (''P4'', 87000)]"
proof -
  from main_fifo_runs [OF assms(1,2) good_files(1) [OF assms(3)]] obtain qs tr where
    m: "main E (Some (show_file ''FIFO'' FIFO_2)) = Some (Inr (0, tr))"
      "mset (map row qs) = mset (map row FIFO_2)" "sorted (map ready qs)" "completions tr = fcfs_plan 0 qs" by blast
  have r: "map row qs = map row FIFO_2"
    using m(2,3) by (rule rows_unique) (simp_all add: FIFO_2_def table_def)
  have "completions tr = fcfs_plan 0 FIFO_2" using m(4) unfolding fcfs_plan_rows [OF r] .
  with m(1) show ?thesis unfolding texts by (simp add: FIFO_2_def table_def)
qed

theorem recorded_FIFO_2_witness:
  "\<exists>tr. main demo_os (Some FIFO_2_text) = Some (Inr (0, tr)) \<and>
    completions tr = [(''P1'', 80000), (''P2'', 85000), (''P3'', 86000), (''P4'', 87000)]"
  by (rule recorded_FIFO_2) (simp_all add: libc.c_qsort_axioms heap_ok_demo)



text \<open>
  C22: the theoretical schedule of the README for the input RR_3, with P3 ending at 18200, P1 at 18700,
  P2 at 19200, P6 at 28200, P5 at 30200 and P4 at 31200, is what \<open>main\<close> prints on the text of that
  file: six processes that arrive while others are in the middle of their quantum.
\<close>

theorem documented_RR_3:
  assumes "forks_ok E" and "prio_ok E" and "c_qsort (qsort E)" and "heap_ok E 6"
  shows "\<exists>tr. main E (Some RR_3_text) = Some (Inr (0, tr)) \<and>
    rr_finishes tr = [(''P3'', 18200), (''P1'', 18700), (''P2'', 19200), (''P6'', 28200), (''P5'', 30200),
      (''P4'', 31200)]"
proof -
  from main_rr_runs [OF assms(1-3) good_files(3) [OF assms(4)]] obtain qs tr where
    m: "main E (Some (show_file ''RR'' RR_3)) = Some (Inr (0, tr))"
      "mset (map row qs) = mset (map row RR_3)" "sorted (map ready qs)"
      "rr_finishes tr = rr_plan 500 (map ready qs) (map name qs) (map exec qs)" by blast
  have r: "map row qs = map row RR_3"
    using m(2,3) by (rule rows_unique) (simp_all add: RR_3_def table_def)
  have "rr_finishes tr = rr_plan 500 (map ready RR_3) (map name RR_3) (map exec RR_3)"
    using m(4) unfolding rows_fields [OF r] .
  also have "\<dots> = [(''P3'', 18200), (''P1'', 18700), (''P2'', 19200), (''P6'', 28200), (''P5'', 30200),
      (''P4'', 31200)]" by code_simp
  finally show ?thesis using m(1) unfolding texts by blast
qed

theorem documented_RR_3_witness:
  "\<exists>tr. main demo_os (Some RR_3_text) = Some (Inr (0, tr)) \<and>
    rr_finishes tr = [(''P3'', 18200), (''P1'', 18700), (''P2'', 19200), (''P6'', 28200), (''P5'', 30200),
      (''P4'', 31200)]"
  by (rule documented_RR_3) (simp_all add: libc.c_qsort_axioms heap_ok_demo)

text \<open>
  C21: the theoretical schedule of the README for the input PSJF_3, with P2 ending at 1000, P3 at 1500,
  P4 at 2000 and the preempted P1 at 3500: whatever the kernel's pids, at the top of every
  round of \<open>PSJF\<close> the processes with nothing left to execute are those whose end has come.
\<close>

theorem documented_PSJF_3:
  assumes "forks_ok E" and "psjf_init E PSJF_3 t = Inr s0" and "reaches (psjf_body E 4) s0 s"
  shows "mset (map name (filter (\<lambda>p. exec p = 0) (psjf_state.procs s))) =
    mset (ended_by (psjf_state.time s) [(''P2'', 1000), (''P3'', 1500), (''P4'', 2000), (''P1'', 3500)])"
proof -
  have n: "int (length PSJF_3) = 4" by (simp add: PSJF_3_def table_def)
  have "sr_plan (map ready PSJF_3) (map name PSJF_3) (map exec PSJF_3) =
    [(''P2'', 1000), (''P3'', 1500), (''P4'', 2000), (''P1'', 3500)]" by code_simp
  with psjf_ends [OF assms(1) psjf_workload_PSJF_3 assms(2) assms(3) [folded n]] show ?thesis by simp
qed

text \<open>The run on the demonstration kernel: at its end, at 3500, all four have ended.\<close>

theorem documented_PSJF_3_witness:
  "\<exists>s0 s. psjf_init demo_os PSJF_3 [] = Inr s0 \<and> reaches (psjf_body demo_os 4) s0 s \<and> psjf_state.time s = 3500 \<and>
     mset (map name (filter (\<lambda>p. exec p = 0) (psjf_state.procs s))) = {#''P2'', ''P3'', ''P4'', ''P1''#}"
proof -
  have n: "int (length PSJF_3) = 4" by (simp add: PSJF_3_def table_def)
  from PSJF_runs [OF forks_ok_demo psjf_workload_PSJF_3, of "[]"] obtain s where
    s: "PSJF demo_os PSJF_3 4 [] = Some (Inr s)" "psjf_state.time s = makespan PSJF_3" unfolding n by blast
  from s(1) obtain s0 where init: "psjf_init demo_os PSJF_3 [] = Inr s0"
    and run: "run_loop (psjf_body demo_os 4) s0 = Some (Inr s)" by (auto simp: PSJF_def split: sum.splits)
  from run_loop_returns [OF run] have r: "reaches (psjf_body demo_os 4) s0 s" by (auto dest: psjf_leaves)
  have "psjf_state.time s = 3500" unfolding s(2) by code_simp
  with documented_PSJF_3 [OF forks_ok_demo init r] init r show ?thesis
    by (intro exI [of _ s0] exI [of _ s]) (simp add: ended_by_def)
qed

end
